(* ===== verification/Prelude.thy ===== *)
theory Prelude
  imports Main "HOL-Library.Multiset" "HOL-Library.Product_Lexorder" "HOL-Library.Sublist"
begin

text \<open>
  Shared lemmas of the development: keyed tables as lists, ordered selections with a limit
  (\<open>ORDER BY \<dots> LIMIT\<close>), and the collections of facts that the component theories fill.
  \<open>frame_simps\<close> holds the facts saying which parts of the world an operation leaves alone;
  \<open>status_simps\<close> holds the distinctness of the status constants.
\<close>

named_theorems frame_simps "parts of the world an operation does not touch"
named_theorems status_simps "equalities between status constants"

section \<open>Rows addressed by a key\<close>

text \<open>\<open>update_where p f\<close> rewrites the rows a \<open>WHERE\<close> clause selects, in place.\<close>

definition update_where :: "('a \<Rightarrow> bool) \<Rightarrow> ('a \<Rightarrow> 'a) \<Rightarrow> 'a list \<Rightarrow> 'a list" where
  "update_where p f xs = map (\<lambda>x. if p x then f x else x) xs"

lemma set_update_where: "set (update_where p f xs) = f ` {x \<in> set xs. p x} \<union> {x \<in> set xs. \<not> p x}"
  by (auto simp: update_where_def)

lemma in_update_whereE:
  assumes "y \<in> set (update_where p f xs)"
  obtains x where "x \<in> set xs" "p x" "y = f x" | "y \<in> set xs" "\<not> p y"
  using assms by (auto simp: set_update_where)

lemma update_where_none [simp]: "filter p xs = [] \<Longrightarrow> update_where p f xs = xs"
  by (auto simp: update_where_def filter_empty_conv intro: map_idI)

lemma map_update_where_same: "(\<And>x. g (f x) = g x) \<Longrightarrow> map g (update_where p f xs) = map g xs"
  by (auto simp: update_where_def)

lemma length_update_where [simp]: "length (update_where p f xs) = length xs"
  by (simp add: update_where_def)

text \<open>At most one row has a given key, so a selection by key is empty or a singleton.\<close>

lemma filter_key_and_distinct:
  assumes "distinct (map k xs)"
  shows "filter (\<lambda>x. k x = a \<and> q x) xs
    = (case find (\<lambda>x. k x = a) xs of None \<Rightarrow> [] | Some x \<Rightarrow> if q x then [x] else [])"
  using assms
proof (induction xs)
  case (Cons x xs)
  have "find (\<lambda>y. k y = k x) xs = None" 
    using Cons.prems by (simp add: find_None_iff image_iff) metis
  with Cons show ?case by auto
qed simp

lemma find_key_distinct:
  "distinct (map k xs) \<Longrightarrow> find (\<lambda>x. k x = a) xs = Some x \<longleftrightarrow> x \<in> set xs \<and> k x = a"
  by (induction xs) (auto simp: image_iff)

lemma find_key_None: "find (\<lambda>x. k x = a) xs = None \<longleftrightarrow> a \<notin> k ` set xs"
  by (auto simp: find_None_iff)

lemma find_key_Some_D: "find (\<lambda>x. k x = a) xs = Some x \<Longrightarrow> x \<in> set xs \<and> k x = a"
  by (auto simp: find_Some_iff)

text \<open>Looking a key up after an in-place update that keeps the keys.\<close>

lemma find_update_where:
  assumes "\<And>x. k (f x) = k x"
  shows "find (\<lambda>x. k x = a) (update_where p f xs)
    = map_option (\<lambda>x. if p x then f x else x) (find (\<lambda>x. k x = a) xs)"
  using assms by (induction xs) (auto simp: update_where_def)

lemma find_append:
  "find p (xs @ ys) = (case find p xs of Some x \<Rightarrow> Some x | None \<Rightarrow> find p ys)"
  by (induction xs) auto

section \<open>Ordered selections with a limit\<close>

text \<open>
  The first \<open>n\<close> rows in key order: whatever is left out has a key no smaller than anything
  returned.
\<close>

lemma take_sorted_least:
  assumes "sorted (map k xs)" "x \<in> set (take n xs)" "y \<in> set (drop n xs)"
  shows "k x \<le> k y"
proof -
  have "sorted (map k (take n xs @ drop n xs))" using assms(1) by simp
  then show ?thesis using assms(2,3) unfolding map_append sorted_append by auto
qed

lemma take_sort_key_least:
  assumes "x \<in> set (take n (sort_key k xs))" "y \<in> set xs" "y \<notin> set (take n (sort_key k xs))"
  shows "k x \<le> k y"
proof -
  have "set xs = set (take n (sort_key k xs)) \<union> set (drop n (sort_key k xs))"
    by (metis append_take_drop_id set_append set_sort)
  with assms(2,3) have "y \<in> set (drop n (sort_key k xs))" by blast
  with assms(1) show ?thesis by (rule take_sorted_least [OF sorted_sort_key])
qed

lemma set_take_sort_key: "set (take n (sort_key k xs)) \<subseteq> set xs"
  by (metis set_sort set_take_subset)

lemma take_sort_key_all: "length xs \<le> n \<Longrightarrow> set (take n (sort_key k xs)) = set xs"
  by simp

lemma sorted_take_sort_key: "sorted (map k (take n (sort_key k xs)))"
  by (metis sorted_sort_key sorted_wrt_take take_map)

lemma mset_take_subseteq: "mset (take n xs) \<subseteq># mset xs"
  by (metis append_take_drop_id mset_append mset_subset_eq_add_left)

lemma distinct_mset_subseteq:
  assumes "mset xs \<subseteq># mset ys" "distinct ys"
  shows "distinct xs"
proof -
  obtain zs where "mset ys = mset (xs @ zs)"
    using assms(1) by (metis ex_mset mset_append mset_subset_eq_exists_conv)
  with assms(2) have "distinct (xs @ zs)" by (metis mset_eq_imp_distinct_iff)
  then show ?thesis by simp
qed

section \<open>Counting\<close>

lemma sum_list_count_partition:
  assumes "distinct cs" "set (map c xs) \<subseteq> set cs"
  shows "(\<Sum>s \<leftarrow> cs. int (length (filter (\<lambda>x. c x = s) xs))) = int (length xs)"
  using assms(2)
proof (induction xs)
  case (Cons x xs)
  have "(\<Sum>s \<leftarrow> cs. int (length (filter (\<lambda>y. c y = s) (x # xs))))
      = (\<Sum>s \<leftarrow> cs. (if s = c x then 1 else 0) + int (length (filter (\<lambda>y. c y = s) xs)))"
    by (rule arg_cong [where f = sum_list], rule map_cong) auto
  also have "\<dots> = (\<Sum>s \<leftarrow> cs. (if s = c x then 1 else 0)) + int (length xs)"
    using Cons by (simp add: sum_list_addf)
  also have "(\<Sum>s \<leftarrow> cs. (if s = c x then 1 else 0)) = (1::int)"
    using Cons.prems assms(1) by (simp add: sum_list_distinct_conv_sum_set)
  finally show ?case by simp
qed simp

end
