(* ===== verification/GoStd.thy ===== *)
theory GoStd
  imports Prelude "HOL-Library.Word"
begin

text \<open>
  What the program uses of Go itself and of its standard library: \<open>int\<close> and
  \<open>time.Duration\<close> with their 64-bit wrap-around, \<open>time.Time\<close>, the \<open>strings\<close>,
  \<open>strconv\<close> and \<open>encoding/hex\<close> functions that occur in the sources, and \<open>error\<close>
  values with \<open>errors.Is\<close> and \<open>errors.As\<close>.
\<close>

section \<open>Integers\<close>

text \<open>Go's \<open>int\<close> is 64 bits wide on the supported platforms: results are reduced to two's complement.\<close>

definition minInt :: int where "minInt = - (2 ^ 63)"
definition maxInt :: int where "maxInt = 2 ^ 63 - 1"

definition wrap64 :: "int \<Rightarrow> int" where
  "wrap64 x = (x + 2 ^ 63) mod 2 ^ 64 - 2 ^ 63"

lemma wrap64_id: "minInt \<le> x \<Longrightarrow> x \<le> maxInt \<Longrightarrow> wrap64 x = x"
  by (simp add: wrap64_def minInt_def maxInt_def)

lemma wrap64_bounds: "minInt \<le> wrap64 x \<and> wrap64 x \<le> maxInt"
  by (simp add: wrap64_def minInt_def maxInt_def)

text \<open>The reduction agrees with the library's 64-bit words read as signed integers.\<close>

lemma wrap64_sint: "wrap64 x = sint (word_of_int x :: 64 word)"
  by (simp add: wrap64_def signed_of_int signed_take_bit_eq_take_bit_shift take_bit_eq_mod)

section \<open>Time\<close>

text \<open>
  An instant is its distance in nanoseconds from Go's zero time, January 1 of year 1, UTC;
  the years a 64-bit second counter can hold are not exhausted by any clock the program reads.
  A duration is a 64-bit number of nanoseconds.
\<close>

type_synonym Time = int
type_synonym Duration = int

definition Nanosecond :: Duration where "Nanosecond = 1"
definition Millisecond :: Duration where "Millisecond = 1000000"
definition Second :: Duration where "Second = 1000000000"

definition timeAdd :: "Time \<Rightarrow> Duration \<Rightarrow> Time" where
  "timeAdd t d = t + d"

text \<open>\<open>Time.Sub\<close> saturates at the ends of the duration range.\<close>

definition timeSub :: "Time \<Rightarrow> Time \<Rightarrow> Duration" where
  "timeSub t u = max minInt (min maxInt (t - u))"

definition timeAfter :: "Time \<Rightarrow> Time \<Rightarrow> bool" where
  "timeAfter t u \<longleftrightarrow> u < t"

definition timeIsZero :: "Time \<Rightarrow> bool" where
  "timeIsZero t \<longleftrightarrow> t = 0"

definition unixEpochSeconds :: int where
  "unixEpochSeconds = 62135596800"

text \<open>\<open>Time.Unix\<close>: whole seconds since 1970, rounded towards the past.\<close>

definition timeUnix :: "Time \<Rightarrow> int" where
  "timeUnix t = t div Second - unixEpochSeconds"

lemma timeUnix_mono: "t \<le> u \<Longrightarrow> timeUnix t \<le> timeUnix u"
  by (simp add: timeUnix_def Second_def zdiv_mono1)

lemma timeUnix_le_imp: "timeUnix t \<le> timeUnix u \<Longrightarrow> t - u < Second"
  by (simp add: timeUnix_def Second_def)

text \<open>\<open>time.Duration(n) * time.Second\<close>, as the compiled multiplication computes it.\<close>

definition secondsDuration :: "int \<Rightarrow> Duration" where
  "secondsDuration n = wrap64 (n * Second)"

lemma secondsDuration_exact: "\<bar>n\<bar> \<le> 9223372036 \<Longrightarrow> secondsDuration n = n * Second"
  by (auto simp: secondsDuration_def Second_def minInt_def maxInt_def intro!: wrap64_id)

section \<open>Strings\<close>

text \<open>A Go string is a sequence of bytes; \<open>string\<close> is a list of 8-bit characters.\<close>

text \<open>The white space of Unicode, each code point in its UTF-8 encoding.\<close>

definition spaceRunes :: "string list" where
  "spaceRunes =
     [[CHR 0x09], [CHR 0x0A], [CHR 0x0B], [CHR 0x0C], [CHR 0x0D], [CHR 0x20],
      [CHR 0xC2, CHR 0x85], [CHR 0xC2, CHR 0xA0], [CHR 0xE1, CHR 0x9A, CHR 0x80],
      [CHR 0xE2, CHR 0x80, CHR 0x80], [CHR 0xE2, CHR 0x80, CHR 0x81], [CHR 0xE2, CHR 0x80, CHR 0x82],
      [CHR 0xE2, CHR 0x80, CHR 0x83], [CHR 0xE2, CHR 0x80, CHR 0x84], [CHR 0xE2, CHR 0x80, CHR 0x85],
      [CHR 0xE2, CHR 0x80, CHR 0x86], [CHR 0xE2, CHR 0x80, CHR 0x87], [CHR 0xE2, CHR 0x80, CHR 0x88],
      [CHR 0xE2, CHR 0x80, CHR 0x89], [CHR 0xE2, CHR 0x80, CHR 0x8A], [CHR 0xE2, CHR 0x80, CHR 0xA8],
      [CHR 0xE2, CHR 0x80, CHR 0xA9], [CHR 0xE2, CHR 0x80, CHR 0xAF], [CHR 0xE2, CHR 0x81, CHR 0x9F],
      [CHR 0xE3, CHR 0x80, CHR 0x80]]"

definition leadingRune :: "string list \<Rightarrow> string \<Rightarrow> string option" where
  "leadingRune rs s = find (\<lambda>r. r \<noteq> [] \<and> take (length r) s = r) rs"

lemma leadingRune_SomeD:
  "leadingRune rs s = Some r \<Longrightarrow> r \<in> set rs \<and> r \<noteq> [] \<and> take (length r) s = r"
  by (auto simp: leadingRune_def find_Some_iff)

function trimLeftRunes :: "string list \<Rightarrow> string \<Rightarrow> string" where
  "trimLeftRunes rs s =
     (case leadingRune rs s of None \<Rightarrow> s | Some r \<Rightarrow> trimLeftRunes rs (drop (length r) s))"
  by pat_completeness auto
termination
proof (relation "measure (\<lambda>(rs, s). length s)")
  fix rs s r assume "leadingRune rs s = Some r"
  then have "r \<noteq> []" "take (length r) s = r" by (auto dest: leadingRune_SomeD)
  then show "((rs, drop (length r) s), (rs, s)) \<in> measure (\<lambda>(rs, s). length s)"
    by (cases s; cases r) auto
qed simp

declare trimLeftRunes.simps [simp del]

definition trimRightRunes :: "string list \<Rightarrow> string \<Rightarrow> string" where
  "trimRightRunes rs s = rev (trimLeftRunes (map rev rs) (rev s))"

definition TrimSpace :: "string \<Rightarrow> string" where
  "TrimSpace s = trimRightRunes spaceRunes (trimLeftRunes spaceRunes s)"

definition HasPrefix :: "string \<Rightarrow> string \<Rightarrow> bool" where
  "HasPrefix s p \<longleftrightarrow> take (length p) s = p"

lemma leadingRune_None: "leadingRune rs s = None \<longleftrightarrow> (\<forall>r \<in> set rs. r \<noteq> [] \<longrightarrow> take (length r) s \<noteq> r)"
  by (auto simp: leadingRune_def find_None_iff)

lemma trimLeftRunes_fixed: "leadingRune rs s = None \<Longrightarrow> trimLeftRunes rs s = s"
  by (subst trimLeftRunes.simps) simp

lemma trimLeftRunes_no_rune: "leadingRune rs (trimLeftRunes rs s) = None"
proof (induction rs s rule: trimLeftRunes.induct)
  case (1 rs s)
  then show ?case by (subst trimLeftRunes.simps) (auto split: option.split)
qed

lemma trimLeftRunes_suffix: "suffix (trimLeftRunes rs s) s"
proof (induction rs s rule: trimLeftRunes.induct)
  case (1 rs s)
  show ?case
  proof (cases "leadingRune rs s")
    case None then show ?thesis by (subst trimLeftRunes.simps) simp
  next
    case (Some r)
    with 1 have "suffix (trimLeftRunes rs (drop (length r) s)) (drop (length r) s)" by blast
    with Some show ?thesis
      by (subst trimLeftRunes.simps) (auto intro: suffix_order.trans suffix_drop)
  qed
qed

lemma trimRightRunes_prefix: "prefix (trimRightRunes rs s) s"
  using trimLeftRunes_suffix [of "map rev rs" "rev s"]
  by (simp add: trimRightRunes_def suffix_to_prefix)

text \<open>Trimming twice is trimming once: nothing that was trimmed can be trimmed again.\<close>

lemma leadingRune_None_prefix:
  assumes "leadingRune rs s = None" "prefix t s"
  shows "leadingRune rs t = None"
proof -
  have "take (length r) t \<noteq> r" if "r \<in> set rs" "r \<noteq> []" for r
  proof
    assume r: "take (length r) t = r"
    then have "length r \<le> length t" by (metis length_take min.cobounded1)
    with assms(2) r have "take (length r) s = r" by (auto simp: prefix_def)
    with assms(1) that show False by (auto simp: leadingRune_None)
  qed
  then show ?thesis by (auto simp: leadingRune_None)
qed

lemma TrimSpace_no_leading: "leadingRune spaceRunes (TrimSpace s) = None"
  unfolding TrimSpace_def
  by (rule leadingRune_None_prefix [OF trimLeftRunes_no_rune trimRightRunes_prefix])

lemma TrimSpace_idem [simp]: "TrimSpace (TrimSpace s) = TrimSpace s"
proof -
  have "trimLeftRunes spaceRunes (TrimSpace s) = TrimSpace s"
    by (rule trimLeftRunes_fixed [OF TrimSpace_no_leading])
  moreover have "trimRightRunes spaceRunes (TrimSpace s) = TrimSpace s"
    by (simp add: TrimSpace_def trimRightRunes_def trimLeftRunes_fixed trimLeftRunes_no_rune)
  ultimately show ?thesis by (simp add: TrimSpace_def)
qed

subsection \<open>Decimal and hexadecimal text\<close>

definition digitChar :: "nat \<Rightarrow> char" where
  "digitChar d = char_of (48 + d)"

fun natDigits :: "nat \<Rightarrow> string" where
  "natDigits n = (if n < 10 then [digitChar n] else natDigits (n div 10) @ [digitChar (n mod 10)])"

declare natDigits.simps [simp del]

text \<open>\<open>strconv.FormatInt(n, 10)\<close> and the verb \<open>%d\<close>.\<close>

definition FormatInt :: "int \<Rightarrow> string" where
  "FormatInt n = (if n < 0 then CHR ''-'' # natDigits (nat (- n)) else natDigits (nat n))"

definition hexDigit :: "nat \<Rightarrow> char" where
  "hexDigit d = (if d < 10 then char_of (48 + d) else char_of (87 + d))"

text \<open>\<open>hex.EncodeToString\<close>: two lower-case digits per byte.\<close>

definition hexEncode :: "8 word list \<Rightarrow> string" where
  "hexEncode bs = concat (map (\<lambda>b. [hexDigit (unat b div 16), hexDigit (unat b mod 16)]) bs)"

lemma hexDigit_inj: "a < 16 \<Longrightarrow> b < 16 \<Longrightarrow> hexDigit a = hexDigit b \<Longrightarrow> a = b"
  by (auto simp: hexDigit_def of_char_mod_256 dest!: arg_cong [where f = "of_char :: char \<Rightarrow> nat"]
      split: if_splits)

lemma length_hexEncode: "length (hexEncode bs) = 2 * length bs"
  by (induction bs) (auto simp: hexEncode_def)

lemma hexEncode_inj: "hexEncode as = hexEncode bs \<Longrightarrow> as = bs"
proof (induction as arbitrary: bs)
  case Nil
  then show ?case by (cases bs) (auto simp: hexEncode_def)
next
  case (Cons a as)
  then obtain b bs' where bs: "bs = b # bs'" by (cases bs) (auto simp: hexEncode_def)
  with Cons.prems have d: "hexDigit (unat a div 16) = hexDigit (unat b div 16)"
      "hexDigit (unat a mod 16) = hexDigit (unat b mod 16)" and t: "hexEncode as = hexEncode bs'"
    by (auto simp: hexEncode_def)
  have lt: "unat x < 256" for x :: "8 word"
  proof -
    have "unat x < 2 ^ LENGTH(8)" by (rule unsigned_less)
    then show ?thesis by simp
  qed
  have "unat a div 16 < 16" "unat b div 16 < 16" using lt [of a] lt [of b] by auto
  with d(1) have "unat a div 16 = unat b div 16" by (blast intro: hexDigit_inj)
  moreover from d(2) have "unat a mod 16 = unat b mod 16" by (auto intro: hexDigit_inj)
  ultimately have "unat a = unat b" by (metis div_mult_mod_eq)
  with bs Cons.IH [OF t] show ?case by (simp add: word_unat_eq_iff)
qed

text \<open>An identifier made of a letter and hexadecimal digits has no white space to trim.\<close>

lemma trimLeft_head:
  assumes "\<forall>r \<in> set rs. r \<noteq> [] \<longrightarrow> hd r \<noteq> c"
  shows "trimLeftRunes rs (c # s) = c # s"
proof (rule trimLeftRunes_fixed)
  have "take (length r) (c # s) \<noteq> r" if "r \<in> set rs" "r \<noteq> []" for r
    using assms that by (cases r) auto
  then show "leadingRune rs (c # s) = None" by (auto simp: leadingRune_None)
qed

lemma TrimSpace_fixed:
  assumes "\<forall>r \<in> set spaceRunes. hd r \<noteq> c \<and> last r \<noteq> d"
  shows "TrimSpace (c # s @ [d]) = c # s @ [d]"
proof -
  have ne: "\<forall>r \<in> set spaceRunes. r \<noteq> []" by (simp add: spaceRunes_def)
  have l: "trimLeftRunes spaceRunes (c # s @ [d]) = c # s @ [d]"
    by (rule trimLeft_head) (use assms in blast)
  have r: "trimLeftRunes (map rev spaceRunes) (d # rev (c # s)) = d # rev (c # s)"
    by (rule trimLeft_head) (use assms ne in \<open>auto simp: hd_rev\<close>)
  show ?thesis unfolding TrimSpace_def l trimRightRunes_def using r by simp
qed

lemma hexDigit_not_space: "n < 16 \<Longrightarrow> \<forall>r \<in> set spaceRunes. last r \<noteq> hexDigit n"
proof -
  assume "n < 16"
  then consider "n < 10" | "10 \<le> n" "n < 16" by linarith
  then have h: "(of_char (hexDigit n) :: nat) \<in> {48..57} \<union> {97..102}"
    by cases (auto simp: hexDigit_def of_char_mod_256)
  have "\<forall>r \<in> set spaceRunes. (of_char (last r) :: nat) \<notin> {48..57} \<union> {97..102}"
    by (simp add: spaceRunes_def)
  with h show ?thesis by metis
qed

lemma TrimSpace_hexID:
  assumes "bs \<noteq> []"
  shows "TrimSpace (''task_'' @ hexEncode bs) = ''task_'' @ hexEncode bs"
proof -
  obtain bs' b where bs: "bs = bs' @ [b]" using assms by (metis rev_exhaust)
  let ?s = "''ask_'' @ hexEncode bs' @ [hexDigit (unat b div 16)]"
  have e: "''task_'' @ hexEncode bs = CHR ''t'' # ?s @ [hexDigit (unat b mod 16)]"
    by (simp add: bs hexEncode_def)
  have "\<forall>r \<in> set spaceRunes. hd r \<noteq> CHR ''t''" by (simp add: spaceRunes_def)
  moreover have "\<forall>r \<in> set spaceRunes. last r \<noteq> hexDigit (unat b mod 16)" by (rule hexDigit_not_space) simp
  ultimately show ?thesis unfolding e by (intro TrimSpace_fixed) blast
qed

subsection \<open>Durations as text\<close>

text \<open>
  \<open>fmtFrac\<close> of \<open>Duration.String\<close>: the last \<open>prec\<close> digits of \<open>v\<close> as a fraction
  without trailing zeros, and the remaining quotient.
\<close>

fun fmtFrac :: "nat \<Rightarrow> nat \<Rightarrow> bool \<Rightarrow> string \<Rightarrow> string \<times> nat" where
  "fmtFrac v 0 printed acc = (if printed then CHR ''.'' # acc else acc, v)"
| "fmtFrac v (Suc prec) printed acc =
     (let digit = v mod 10; printed' = (printed \<or> digit \<noteq> 0)
      in fmtFrac (v div 10) prec printed' (if printed' then digitChar digit # acc else acc))"

text \<open>\<open>Duration.String\<close>, the verb \<open>%s\<close>.\<close>

definition durationString :: "Duration \<Rightarrow> string" where
  "durationString d =
     (let u = nat \<bar>d\<bar>; sgn = (if d < 0 then ''-'' else '''')
      in if u = 0 then ''0s''
         else if u < 1000 then sgn @ natDigits u @ ''ns''
         else if u < 1000000 then
           (case fmtFrac u 3 False '''' of (frac, v) \<Rightarrow> sgn @ natDigits v @ frac @ [CHR 0xC2, CHR 0xB5] @ ''s'')
         else if u < 1000000000 then
           (case fmtFrac u 6 False '''' of (frac, v) \<Rightarrow> sgn @ natDigits v @ frac @ ''ms'')
         else
           (case fmtFrac u 9 False '''' of (frac, v) \<Rightarrow>
              sgn @ (if v div 3600 > 0 then natDigits (v div 3600) @ ''h'' else '''')
                @ (if v div 60 > 0 then natDigits (v div 60 mod 60) @ ''m'' else '''')
                @ natDigits (v mod 60) @ frac @ ''s''))"

lemma fmtFrac_numeral [simp]:
  "fmtFrac v (numeral k) printed acc =
     (let digit = v mod 10; printed' = (printed \<or> digit \<noteq> 0)
      in fmtFrac (v div 10) (pred_numeral k) printed' (if printed' then digitChar digit # acc else acc))"
  by (simp only: numeral_eq_Suc fmtFrac.simps)

lemma durationString_examples:
  "durationString (300 * Second) = ''5m0s''" "durationString 1500000000 = ''1.5s''"
  "durationString (3600 * Second) = ''1h0m0s''"
  by (simp_all add: durationString_def Second_def natDigits.simps digitChar_def char_of_def bit_0)

text \<open>\<open>strings.ToUpper\<close>: exact on ASCII, the argument \<open>upper\<close> beyond it.\<close>

definition asciiUpper :: "char \<Rightarrow> char" where
  "asciiUpper c = (let n = of_char c :: nat in if 97 \<le> n \<and> n \<le> 122 then char_of (n - 32) else c)"

definition asciiLower :: "char \<Rightarrow> char" where
  "asciiLower c = (let n = of_char c :: nat in if 65 \<le> n \<and> n \<le> 90 then char_of (n + 32) else c)"

definition ToUpper :: "(string \<Rightarrow> string) \<Rightarrow> string \<Rightarrow> string" where
  "ToUpper upper s = (if list_all (\<lambda>c. (of_char c :: nat) < 128) s then map asciiUpper s else upper s)"

section \<open>Errors\<close>

text \<open>
  The error values of the program. The sentinels are the package variables the code compares
  with by \<open>errors.Is\<close>; \<open>NewError\<close> is \<open>errors.New\<close> or a \<open>fmt.Errorf\<close> without
  \<open>%w\<close>; \<open>Wrapf p e q\<close> is a \<open>fmt.Errorf\<close> whose text is \<open>p\<close>, the text of the
  wrapped error and \<open>q\<close>; \<open>External\<close> is an error value of the Redis or Postgres
  client with the text it prints. The last three are the error types of \<open>internal/worker\<close>.
\<close>

datatype goerror =
    ErrNotFound | ErrInvalidTransition | ErrNoMessages
  | PgxErrNoRows | RedisNil | ContextCanceled | DeadlineExceeded | ErrServerClosed
  | NewError string
  | Wrapf string goerror string
  | External string
  | RetryableError goerror
  | NonRetryableError goerror
  | UnknownTaskTypeError string

fun Unwrap :: "goerror \<Rightarrow> goerror option" where
  "Unwrap (Wrapf _ e _) = Some e"
| "Unwrap (RetryableError e) = Some e"
| "Unwrap (NonRetryableError e) = Some e"
| "Unwrap _ = None"

text \<open>\<open>errors.Is(err, target)\<close> for a non-nil error: the error itself or one it wraps.\<close>

fun errorsIs :: "goerror \<Rightarrow> goerror \<Rightarrow> bool" where
  "errorsIs (Wrapf p e q) t = (Wrapf p e q = t \<or> errorsIs e t)"
| "errorsIs (RetryableError e) t = (RetryableError e = t \<or> errorsIs e t)"
| "errorsIs (NonRetryableError e) t = (NonRetryableError e = t \<or> errorsIs e t)"
| "errorsIs e t = (e = t)"

text \<open>\<open>errors.Is\<close> on an error result, where nil matches no sentinel.\<close>

definition errIs :: "goerror option \<Rightarrow> goerror \<Rightarrow> bool" where
  "errIs e t = (case e of None \<Rightarrow> False | Some x \<Rightarrow> errorsIs x t)"

lemma errorsIs_unwrap: "errorsIs e t \<longleftrightarrow> e = t \<or> (\<exists>e'. Unwrap e = Some e' \<and> errorsIs e' t)"
  by (cases e) auto

text \<open>
  The text of an error. The verb \<open>%q\<close> in the text of \<open>UnknownTaskTypeError\<close> is
  \<open>strconv.Quote\<close>, whose choice of escapes for non-ASCII text is the argument \<open>quote\<close>.
\<close>

fun errorText :: "(string \<Rightarrow> string) \<Rightarrow> goerror \<Rightarrow> string" where
  "errorText quote ErrNotFound = ''task not found''"
| "errorText quote ErrInvalidTransition = ''invalid task status transition''"
| "errorText quote ErrNoMessages = ''no redis stream messages available''"
| "errorText quote PgxErrNoRows = ''no rows in result set''"
| "errorText quote RedisNil = ''redis: nil''"
| "errorText quote ContextCanceled = ''context canceled''"
| "errorText quote DeadlineExceeded = ''context deadline exceeded''"
| "errorText quote ErrServerClosed = ''http: Server closed''"
| "errorText quote (NewError m) = m"
| "errorText quote (Wrapf p e q) = p @ errorText quote e @ q"
| "errorText quote (External m) = m"
| "errorText quote (RetryableError e) = errorText quote e"
| "errorText quote (NonRetryableError e) = errorText quote e"
| "errorText quote (UnknownTaskTypeError t) = ''no handler registered for task_type '' @ quote t"

end
