(* ===== verification/Status.thy ===== *)
theory Status
  imports GoStd
begin

text \<open>
  The task status machine of \<open>internal/task/status.go\<close>. A status is a Go string, so values
  outside the seven constants exist and \<open>IsValid\<close> tells them apart. The transition table is
  the nested map \<open>validTransitions\<close>.
\<close>

type_synonym Status = string

definition StatusScheduled :: Status where "StatusScheduled = ''scheduled''"
definition StatusPending :: Status where "StatusPending = ''pending''"
definition StatusRunning :: Status where "StatusRunning = ''running''"
definition StatusSuccess :: Status where "StatusSuccess = ''success''"
definition StatusFailed :: Status where "StatusFailed = ''failed''"
definition StatusRetrying :: Status where "StatusRetrying = ''retrying''"
definition StatusDead :: Status where "StatusDead = ''dead''"

lemmas status_defs = StatusScheduled_def StatusPending_def StatusRunning_def StatusSuccess_def
  StatusFailed_def StatusRetrying_def StatusDead_def

lemma status_distinct [simp, status_simps]:
  "StatusScheduled \<noteq> StatusPending" "StatusScheduled \<noteq> StatusRunning" "StatusScheduled \<noteq> StatusSuccess"
  "StatusScheduled \<noteq> StatusFailed" "StatusScheduled \<noteq> StatusRetrying" "StatusScheduled \<noteq> StatusDead"
  "StatusPending \<noteq> StatusRunning" "StatusPending \<noteq> StatusSuccess" "StatusPending \<noteq> StatusFailed"
  "StatusPending \<noteq> StatusRetrying" "StatusPending \<noteq> StatusDead"
  "StatusRunning \<noteq> StatusSuccess" "StatusRunning \<noteq> StatusFailed" "StatusRunning \<noteq> StatusRetrying"
  "StatusRunning \<noteq> StatusDead"
  "StatusSuccess \<noteq> StatusFailed" "StatusSuccess \<noteq> StatusRetrying" "StatusSuccess \<noteq> StatusDead"
  "StatusFailed \<noteq> StatusRetrying" "StatusFailed \<noteq> StatusDead" "StatusRetrying \<noteq> StatusDead"
  by (simp_all add: status_defs)

lemmas status_distinct_sym [simp, status_simps] = status_distinct [symmetric]

definition validTransitions :: "Status \<rightharpoonup> Status list" where
  "validTransitions = map_of
     [(StatusScheduled, [StatusPending]),
      (StatusPending, [StatusRunning]),
      (StatusRunning, [StatusSuccess, StatusFailed, StatusRetrying, StatusDead]),
      (StatusFailed, [StatusRetrying, StatusDead]),
      (StatusRetrying, [StatusPending, StatusRunning])]"

definition IsValid :: "Status \<Rightarrow> bool" where
  "IsValid s \<longleftrightarrow> s \<in> {StatusScheduled, StatusPending, StatusRunning, StatusSuccess, StatusFailed,
     StatusRetrying, StatusDead}"

definition IsTerminal :: "Status \<Rightarrow> bool" where
  "IsTerminal s \<longleftrightarrow> s = StatusSuccess \<or> s = StatusDead"

definition CanTransition :: "Status \<Rightarrow> Status \<Rightarrow> bool" where
  "CanTransition from to =
     (case validTransitions from of None \<Rightarrow> False | Some nextStatuses \<Rightarrow> to \<in> set nextStatuses)"

section \<open>The transition table as a relation\<close>

lemma CanTransition_iff:
  "CanTransition a b \<longleftrightarrow>
     a = StatusScheduled \<and> b = StatusPending \<or>
     a = StatusPending \<and> b = StatusRunning \<or>
     a = StatusRunning \<and> b \<in> {StatusSuccess, StatusFailed, StatusRetrying, StatusDead} \<or>
     a = StatusFailed \<and> b \<in> {StatusRetrying, StatusDead} \<or>
     a = StatusRetrying \<and> b \<in> {StatusPending, StatusRunning}"
  by (auto simp: CanTransition_def validTransitions_def split: if_splits)

lemma CanTransition_valid: "CanTransition a b \<Longrightarrow> IsValid a \<and> IsValid b"
  by (auto simp: CanTransition_iff IsValid_def)

lemma CanTransition_not_terminal: "CanTransition a b \<Longrightarrow> \<not> IsTerminal a"
  by (auto simp: CanTransition_iff IsTerminal_def)

lemma IsTerminal_simps [simp]:
  "IsTerminal StatusSuccess" "IsTerminal StatusDead" "\<not> IsTerminal StatusScheduled"
  "\<not> IsTerminal StatusPending" "\<not> IsTerminal StatusRunning" "\<not> IsTerminal StatusFailed"
  "\<not> IsTerminal StatusRetrying"
  by (simp_all add: IsTerminal_def)

lemma IsValid_simps [simp]:
  "IsValid StatusSuccess" "IsValid StatusDead" "IsValid StatusScheduled" "IsValid StatusPending"
  "IsValid StatusRunning" "IsValid StatusFailed" "IsValid StatusRetrying"
  by (simp_all add: IsValid_def)

text \<open>A lifecycle is a path through the table.\<close>

inductive lifecycle :: "Status \<Rightarrow> Status \<Rightarrow> bool" where
  here: "lifecycle s s"
| further: "CanTransition a b \<Longrightarrow> lifecycle b c \<Longrightarrow> lifecycle a c"

lemma lifecycle_trans: "lifecycle a b \<Longrightarrow> lifecycle b c \<Longrightarrow> lifecycle a c"
  by (induction rule: lifecycle.induct) (auto intro: lifecycle.further)

lemma lifecycle_step: "CanTransition a b \<Longrightarrow> lifecycle a b"
  by (blast intro: lifecycle.intros)

lemma lifecycle_terminal: "lifecycle a b \<Longrightarrow> IsTerminal a \<Longrightarrow> b = a"
  by (induction rule: lifecycle.induct) (auto dest: CanTransition_not_terminal)

lemma lifecycle_never_scheduled: "lifecycle a b \<Longrightarrow> b = StatusScheduled \<Longrightarrow> a = StatusScheduled"
  by (induction rule: lifecycle.induct) (auto simp: CanTransition_iff)

text \<open>C29. The transition table is a proper life cycle: it relates valid statuses only; exactly the
  terminal statuses have no successor; nothing ever returns to \<open>scheduled\<close>; and from every
  status that is not terminal both outcomes, success and dead, are still reachable.\<close>

theorem status_lifecycle:
  "(\<forall>a b. CanTransition a b \<longrightarrow> IsValid a \<and> IsValid b)
   \<and> (\<forall>a. IsValid a \<longrightarrow> (IsTerminal a \<longleftrightarrow> (\<forall>b. \<not> CanTransition a b)))
   \<and> (\<forall>a. \<not> CanTransition a StatusScheduled)
   \<and> (\<forall>a. IsValid a \<and> \<not> IsTerminal a \<longrightarrow> lifecycle a StatusSuccess \<and> lifecycle a StatusDead)
   \<and> (\<forall>a b. IsTerminal a \<and> lifecycle a b \<longrightarrow> b = a)"
proof (intro conjI allI impI)
  fix a b assume "CanTransition a b" then show "IsValid a" "IsValid b"
    by (auto dest: CanTransition_valid)
next
  fix a assume "IsValid a"
  then show "IsTerminal a \<longleftrightarrow> (\<forall>b. \<not> CanTransition a b)"
    by (auto simp: IsValid_def CanTransition_iff)
next
  fix a show "\<not> CanTransition a StatusScheduled" by (auto simp: CanTransition_iff)
next
  have run: "lifecycle StatusRunning StatusSuccess" "lifecycle StatusRunning StatusDead"
    by (auto intro!: lifecycle_step simp: CanTransition_iff)
  have pend: "lifecycle StatusPending t" if "lifecycle StatusRunning t" for t
    by (rule lifecycle.further [OF _ that]) (simp add: CanTransition_iff)
  have sched: "lifecycle StatusScheduled t" if "lifecycle StatusRunning t" for t
    by (rule lifecycle.further [OF _ pend [OF that]]) (simp add: CanTransition_iff)
  have retr: "lifecycle StatusRetrying t" if "lifecycle StatusRunning t" for t
    by (rule lifecycle.further [OF _ that]) (simp add: CanTransition_iff)
  have fail: "lifecycle StatusFailed t" if "lifecycle StatusRunning t" for t
    by (rule lifecycle.further [OF _ retr [OF that]]) (simp add: CanTransition_iff)
  fix a assume "IsValid a \<and> \<not> IsTerminal a"
  then show "lifecycle a StatusSuccess" "lifecycle a StatusDead"
    using run pend sched retr fail by (auto simp: IsValid_def)
next
  fix a b assume "IsTerminal a \<and> lifecycle a b" then show "b = a"
    by (auto dest: lifecycle_terminal)
qed

theorem status_lifecycle_witness:
  "CanTransition StatusPending StatusRunning \<and> IsValid StatusPending \<and> IsValid StatusRunning
   \<and> lifecycle StatusScheduled StatusSuccess \<and> \<not> CanTransition StatusDead StatusRetrying"
proof -
  have "CanTransition StatusPending StatusRunning" by (simp add: CanTransition_iff)
  moreover have "IsValid StatusScheduled \<and> \<not> IsTerminal StatusScheduled" by simp
  moreover have "IsValid StatusDead" "IsTerminal StatusDead" by simp_all
  ultimately show ?thesis using status_lifecycle by blast
qed

end
