(* ===== verification/Retry.thy ===== *)
theory Retry
  imports Status
begin

text \<open>
  The retry policy of \<open>internal/task/retry.go\<close>: what becomes of a task whose execution
  failed, and how long it waits for its next attempt.
\<close>

record FailureDecision =
  dStatus :: Status
  dRetryCount :: int
  dNextRetryAt :: "Time option"

definition BackoffDelay :: "int \<Rightarrow> Duration" where
  "BackoffDelay retryCount0 =
     (let retryCount1 = (if retryCount0 < 1 then 1 else retryCount0);
          retryCount = (if retryCount1 > 6 then 6 else retryCount1)
      in wrap64 (wrap64 (push_bit (nat (retryCount - 1)) 1) * Second))"

definition DecideFailure :: "Time \<Rightarrow> int \<Rightarrow> int \<Rightarrow> FailureDecision" where
  "DecideFailure now retryCount maxRetries =
     (let nextRetryCount = wrap64 (retryCount + 1)
      in if nextRetryCount > maxRetries
         then \<lparr>dStatus = StatusDead, dRetryCount = maxRetries, dNextRetryAt = None\<rparr>
         else let nextRetryAt = timeAdd now (BackoffDelay nextRetryCount)
              in \<lparr>dStatus = StatusRetrying, dRetryCount = nextRetryCount,
                  dNextRetryAt = Some nextRetryAt\<rparr>)"

section \<open>Backoff\<close>

lemma BackoffDelay_cases:
  "BackoffDelay n = (if n \<le> 1 then 1 else if n = 2 then 2 else if n = 3 then 4 else if n = 4 then 8
     else if n = 5 then 16 else 32) * Second"
proof -
  consider "n \<le> 1" | "n = 2" | "n = 3" | "n = 4" | "n = 5" | "n \<ge> 6" by linarith
  then show ?thesis
    by cases (auto simp: BackoffDelay_def Let_def wrap64_def Second_def push_bit_eq_mult)
qed

text \<open>The backoff delay of retry number \<open>n\<close> is \<open>2 ^ (n - 1)\<close> seconds for the first six
  retries and stays at 32 seconds after that; it lies between 1 and 32 seconds for every argument
  and never decreases with the retry number.\<close>

theorem BackoffDelay_exponential_capped:
  "(1 \<le> n \<and> n \<le> 6 \<longrightarrow> BackoffDelay n = 2 ^ nat (n - 1) * Second)
   \<and> (6 \<le> n \<longrightarrow> BackoffDelay n = 32 * Second)
   \<and> Second \<le> BackoffDelay n \<and> BackoffDelay n \<le> 32 * Second
   \<and> (m \<le> n \<longrightarrow> BackoffDelay m \<le> BackoffDelay n)"
proof (intro conjI impI)
  assume "1 \<le> n \<and> n \<le> 6"
  then have "n = 1 \<or> n = 2 \<or> n = 3 \<or> n = 4 \<or> n = 5 \<or> n = 6" by linarith
  then show "BackoffDelay n = 2 ^ nat (n - 1) * Second" by (elim disjE) (simp_all add: BackoffDelay_cases)
qed (auto simp: BackoffDelay_cases Second_def)

theorem BackoffDelay_exponential_capped_witness:
  "BackoffDelay 3 = 4 * Second \<and> BackoffDelay 9 = 32 * Second \<and> BackoffDelay 3 \<le> BackoffDelay 9"
  using BackoffDelay_exponential_capped [of 3 3] BackoffDelay_exponential_capped [of 9 3] by simp

section \<open>The decision\<close>

lemma DecideFailure_dead:
  assumes "0 \<le> rc" "rc < maxInt" "mr \<le> rc"
  shows "DecideFailure now rc mr = \<lparr>dStatus = StatusDead, dRetryCount = mr, dNextRetryAt = None\<rparr>"
  using assms by (simp add: DecideFailure_def Let_def wrap64_id minInt_def maxInt_def)

lemma DecideFailure_retry:
  assumes "0 \<le> rc" "rc < maxInt" "rc < mr"
  shows "DecideFailure now rc mr = \<lparr>dStatus = StatusRetrying, dRetryCount = rc + 1,
    dNextRetryAt = Some (now + BackoffDelay (rc + 1))\<rparr>"
  using assms by (simp add: DecideFailure_def Let_def timeAdd_def wrap64_id minInt_def maxInt_def)

lemma DecideFailure_status: "dStatus (DecideFailure now rc mr) \<in> {StatusRetrying, StatusDead}"
  by (simp add: DecideFailure_def Let_def)

lemma DecideFailure_next:
  "dNextRetryAt (DecideFailure now rc mr) \<noteq> None \<longleftrightarrow> dStatus (DecideFailure now rc mr) = StatusRetrying"
  by (simp add: DecideFailure_def Let_def)

text \<open>C28. After a failure with \<open>rc\<close> of \<open>mr\<close> retries used, the task is retried exactly when a
  retry is left: then one more retry is counted and the next attempt is 1 to 32 seconds away;
  otherwise the task is dead, with no next attempt. The count never leaves the range \<open>0..mr\<close>
  and never goes back.\<close>

theorem DecideFailure_correct:
  assumes "0 \<le> rc" "rc \<le> mr" "mr < maxInt"
  shows "let d = DecideFailure now rc mr in
       (dStatus d = StatusRetrying \<longleftrightarrow> rc < mr)
     \<and> (dStatus d = StatusDead \<longleftrightarrow> rc = mr)
     \<and> rc \<le> dRetryCount d \<and> dRetryCount d \<le> mr
     \<and> (case dNextRetryAt d of
          None \<Rightarrow> rc = mr
        | Some t \<Rightarrow> rc < mr \<and> dRetryCount d = rc + 1 \<and> now + Second \<le> t \<and> t \<le> now + 32 * Second)"
proof -
  have r: "rc < maxInt" using assms(2,3) by linarith
  consider "rc < mr" | "rc = mr" using assms(2) by linarith
  then show ?thesis
  proof cases
    case 1
    show ?thesis
      unfolding DecideFailure_retry [OF assms(1) r 1] using 1
      by (auto simp: BackoffDelay_cases Second_def)
  next
    case 2
    then have "mr \<le> rc" by simp
    show ?thesis
      unfolding DecideFailure_dead [OF assms(1) r \<open>mr \<le> rc\<close>] using 2 by auto
  qed
qed

theorem DecideFailure_correct_witness:
  "dStatus (DecideFailure 0 1 3) = StatusRetrying \<and> dRetryCount (DecideFailure 0 1 3) \<le> 3
   \<and> dStatus (DecideFailure 0 3 3) = StatusDead"
proof -
  have h: "(3::int) < maxInt" by (simp add: maxInt_def)
  show ?thesis
    using DecideFailure_correct [of 1 3 0] DecideFailure_correct [of 3 3 0] h by (simp add: Let_def)
qed

end
