(* ===== verification/Schema.thy ===== *)
theory Schema
  imports Retry
begin

text \<open>
  The data of a task: the Go struct \<open>Task\<close> of \<open>internal/task/task.go\<close>, the parameters of
  its creation, and the row of the Postgres table \<open>tasks\<close> with the constraints that
  \<open>migrations/000001\<close> and \<open>000002\<close> declare on it.
\<close>

record Task =
  ID :: string
  Type :: string
  Payload :: string
  Status :: Status
  NewlyCreated :: bool
  IdempotencyKey :: "string option"
  TraceID :: "string option"
  RunAt :: Time
  TimeoutSeconds :: int
  MaxRetries :: int
  RetryCount :: int
  NextRetryAt :: "Time option"
  LastError :: "string option"
  WorkerID :: "string option"
  StartedAt :: "Time option"
  FinishedAt :: "Time option"
  CreatedAt :: Time
  UpdatedAt :: Time

record CreateTaskParams =
  pType :: string
  pPayload :: string
  pIdempotencyKey :: "string option"
  pTraceID :: "string option"
  pRunAt :: Time
  pTimeoutSeconds :: int
  pMaxRetries :: int

text \<open>A row of the table. A nullable column is an option, \<open>None\<close> standing for \<open>NULL\<close>.\<close>

record task_row =
  c_id :: string
  c_task_type :: string
  c_payload :: string
  c_status :: Status
  c_idempotency_key :: "string option"
  c_trace_id :: "string option"
  c_run_at :: Time
  c_timeout_seconds :: int
  c_max_retries :: int
  c_retry_count :: int
  c_next_retry_at :: "Time option"
  c_last_error :: "string option"
  c_worker_id :: "string option"
  c_started_at :: "Time option"
  c_finished_at :: "Time option"
  c_created_at :: Time
  c_updated_at :: Time

text \<open>Values of a column of type \<open>INTEGER\<close>.\<close>

definition int4 :: "int \<Rightarrow> bool" where
  "int4 n \<longleftrightarrow> - (2 ^ 31) \<le> n \<and> n < 2 ^ 31"

text \<open>The \<open>CHECK\<close> constraints and column types of the table, for one row.\<close>

definition tasks_status_check :: "task_row \<Rightarrow> bool" where
  "tasks_status_check r \<longleftrightarrow> c_status r \<in>
     {''scheduled'', ''pending'', ''running'', ''success'', ''failed'', ''retrying'', ''dead''}"

definition tasks_check :: "task_row \<Rightarrow> bool" where
  "tasks_check r \<longleftrightarrow>
     tasks_status_check r
     \<and> c_timeout_seconds r > 0
     \<and> c_max_retries r \<ge> 0
     \<and> (c_retry_count r \<ge> 0 \<and> c_retry_count r \<le> c_max_retries r)
     \<and> int4 (c_timeout_seconds r) \<and> int4 (c_max_retries r) \<and> int4 (c_retry_count r)"

lemma tasks_status_check_iff: "tasks_status_check r \<longleftrightarrow> IsValid (c_status r)"
  by (simp add: tasks_status_check_def IsValid_def status_defs)

text \<open>
  The whole table: \<open>id\<close> is the primary key, \<open>idempotency_key\<close> is unique where it is not
  \<open>NULL\<close>, and every row passes the checks.
\<close>

definition table_ok :: "task_row list \<Rightarrow> bool" where
  "table_ok tbl \<longleftrightarrow>
     distinct (map c_id tbl)
     \<and> distinct (map c_idempotency_key (filter (\<lambda>r. c_idempotency_key r \<noteq> None) tbl))
     \<and> (\<forall>r \<in> set tbl. tasks_check r)"

text \<open>The row a primary key selects.\<close>

definition row :: "task_row list \<Rightarrow> string \<Rightarrow> task_row option" where
  "row tbl i = find (\<lambda>r. c_id r = i) tbl"

lemma row_Some_D: "row tbl i = Some r \<Longrightarrow> r \<in> set tbl \<and> c_id r = i"
  unfolding row_def by (rule find_key_Some_D)

lemma row_None: "row tbl i = None \<longleftrightarrow> i \<notin> c_id ` set tbl"
  by (simp add: row_def find_key_None)

lemma table_ok_distinct: "table_ok tbl \<Longrightarrow> distinct (map c_id tbl)"
  by (simp add: table_ok_def)

lemma row_Some_iff: "distinct (map c_id tbl) \<Longrightarrow> row tbl i = Some r \<longleftrightarrow> r \<in> set tbl \<and> c_id r = i"
  unfolding row_def by (rule find_key_distinct)

lemma table_ok_check: "table_ok tbl \<Longrightarrow> r \<in> set tbl \<Longrightarrow> tasks_check r"
  by (simp add: table_ok_def)

lemma table_ok_unique_key:
  assumes "table_ok tbl" "r \<in> set tbl" "r' \<in> set tbl" "c_idempotency_key r = Some k"
    "c_idempotency_key r' = Some k"
  shows "r = r'"
proof -
  let ?keyed = "filter (\<lambda>r. c_idempotency_key r \<noteq> None) tbl"
  have "inj_on c_idempotency_key (set ?keyed)" using assms(1) by (simp add: table_ok_def distinct_map)
  then show ?thesis by (rule inj_onD) (use assms(2-5) in auto)
qed

section \<open>Scanning a row\<close>

text \<open>
  \<open>scanTask\<close> reads the seventeen columns into a fresh \<open>Task\<close>; \<open>NewlyCreated\<close>
  keeps its zero value. \<open>scanTaskWithCreationFlag\<close> reads the flag too.
\<close>

definition scanTaskWithCreationFlag :: "task_row \<times> bool \<Rightarrow> Task" where
  "scanTaskWithCreationFlag = (\<lambda>(r, newly_created).
     \<lparr>ID = c_id r, Type = c_task_type r, Payload = c_payload r, Status = c_status r,
      NewlyCreated = newly_created, IdempotencyKey = c_idempotency_key r, TraceID = c_trace_id r,
      RunAt = c_run_at r, TimeoutSeconds = c_timeout_seconds r, MaxRetries = c_max_retries r,
      RetryCount = c_retry_count r, NextRetryAt = c_next_retry_at r, LastError = c_last_error r,
      WorkerID = c_worker_id r, StartedAt = c_started_at r, FinishedAt = c_finished_at r,
      CreatedAt = c_created_at r, UpdatedAt = c_updated_at r\<rparr>)"

definition scanTask :: "task_row \<Rightarrow> Task" where
  "scanTask r =
     \<lparr>ID = c_id r, Type = c_task_type r, Payload = c_payload r, Status = c_status r,
      NewlyCreated = False, IdempotencyKey = c_idempotency_key r, TraceID = c_trace_id r,
      RunAt = c_run_at r, TimeoutSeconds = c_timeout_seconds r, MaxRetries = c_max_retries r,
      RetryCount = c_retry_count r, NextRetryAt = c_next_retry_at r, LastError = c_last_error r,
      WorkerID = c_worker_id r, StartedAt = c_started_at r, FinishedAt = c_finished_at r,
      CreatedAt = c_created_at r, UpdatedAt = c_updated_at r\<rparr>"

lemma scanTask_simps [simp]:
  "ID (scanTask r) = c_id r" "Type (scanTask r) = c_task_type r" "Payload (scanTask r) = c_payload r"
  "Status (scanTask r) = c_status r" "\<not> NewlyCreated (scanTask r)"
  "IdempotencyKey (scanTask r) = c_idempotency_key r" "TraceID (scanTask r) = c_trace_id r"
  "RunAt (scanTask r) = c_run_at r" "TimeoutSeconds (scanTask r) = c_timeout_seconds r"
  "MaxRetries (scanTask r) = c_max_retries r" "RetryCount (scanTask r) = c_retry_count r"
  "NextRetryAt (scanTask r) = c_next_retry_at r" "LastError (scanTask r) = c_last_error r"
  "WorkerID (scanTask r) = c_worker_id r" "StartedAt (scanTask r) = c_started_at r"
  "FinishedAt (scanTask r) = c_finished_at r" "CreatedAt (scanTask r) = c_created_at r"
  "UpdatedAt (scanTask r) = c_updated_at r"
  by (simp_all add: scanTask_def)

lemma scanTask_inj: "scanTask r = scanTask r' \<longleftrightarrow> r = r'"
  by (auto simp: scanTask_def)

lemma scanTaskWithCreationFlag_eq:
  "scanTaskWithCreationFlag (r, b) = (scanTask r)\<lparr>NewlyCreated := b\<rparr>"
  by (simp add: scanTaskWithCreationFlag_def scanTask_def)

end
