(* ===== verification/Metrics.thy ===== *)
theory Metrics
  imports GoStd Complex_Main "HOL-Library.Log_Nat" "HOL-Library.AList" "HOL-Library.Char_ord" "HOL-Library.List_Lexorder"
begin

text \<open>
  The metrics registry of \<open>internal/metrics/metrics.go\<close>: counters, gauges and summaries in
  Go maps of \<open>float64\<close>. A Go map is an association list with distinct keys, since
  \<open>sortedKeys\<close> enumerates it. A \<open>float64\<close> is the rational number it denotes and every
  operation rounds its exact result to 53 significant bits, ties to even; the values the registry
  can hold (counts, and sums of non-negative durations) stay inside the normal range.
\<close>

section \<open>Double precision\<close>

type_synonym float64 = rat

definition roundHalfEven :: "rat \<Rightarrow> int" where
  "roundHalfEven y =
     (let f = \<lfloor>y\<rfloor>; d = y - of_int f
      in if d < 1 / 2 then f else if 1 / 2 < d then f + 1 else if even f then f else f + 1)"

definition fl64Exponent :: "rat \<Rightarrow> int" where
  "fl64Exponent x =
     (let (p, q) = quotient_of \<bar>x\<bar>;
          e = int (floorlog 2 (nat p)) - int (floorlog 2 (nat q)) - 53
      in if \<bar>x\<bar> / 2 powi e < 2 ^ 53 then e else e + 1)"

definition fl64 :: "rat \<Rightarrow> float64" where
  "fl64 x =
     (if x = 0 then 0
      else let e = fl64Exponent x
           in sgn x * of_int (roundHalfEven (\<bar>x\<bar> / 2 powi e)) * 2 powi e)"

lemma roundHalfEven_int [simp]: "roundHalfEven (of_int n) = n"
  by (simp add: roundHalfEven_def)

lemma fl64_exact: "\<bar>x\<bar> / 2 powi fl64Exponent x = of_int m \<Longrightarrow> fl64 x = x"
proof -
  assume m: "\<bar>x\<bar> / 2 powi fl64Exponent x = of_int m"
  then have "of_int m * 2 powi fl64Exponent x = \<bar>x\<bar>"
    by (metis nonzero_eq_divide_eq power_int_eq_0_iff zero_neq_numeral)
  with m show "fl64 x = x" by (simp add: fl64_def Let_def mult.assoc sgn_mult_abs)
qed

text \<open>Every count below \<open>2 ^ 53\<close> is represented exactly.\<close>

lemma fl64_nat:
  assumes "n < 2 ^ 53"
  shows "fl64 (of_nat n) = of_nat n"
proof (cases "n = 0")
  case False
  define e where "e = fl64Exponent (of_nat n)"
  have q: "quotient_of (of_nat n) = (int n, 1)" 
    using quotient_of_int [of "int n", unfolded Rat.of_int_def] by simp
  have "floorlog 2 n \<le> 53" using assms by (rule floorlog_leI) simp_all
  then have "e \<le> 0" by (auto simp: e_def fl64Exponent_def q floorlog_def [of 2 "Suc 0"] Let_def)
  then have "(2::rat) powi e = 1 / 2 ^ nat (- e)"
    by (cases "e = 0") (auto simp: power_int_def field_simps)
  then have "\<bar>of_nat n :: rat\<bar> / 2 powi e = of_int (int n * 2 ^ nat (- e))" by simp
  then show ?thesis unfolding e_def by (rule fl64_exact)
qed (simp add: fl64_def)

definition fadd :: "float64 \<Rightarrow> float64 \<Rightarrow> float64" where
  "fadd a b = fl64 (a + b)"

definition fdiv :: "float64 \<Rightarrow> float64 \<Rightarrow> float64" where
  "fdiv a b = fl64 (a / b)"

definition float64OfInt :: "int \<Rightarrow> float64" where
  "float64OfInt n = fl64 (of_int n)"

lemma fadd_count: "n < 2 ^ 53 - 1 \<Longrightarrow> fadd (of_nat n) 1 = of_nat (Suc n)"
  using fl64_nat [of "Suc n"] by (simp add: fadd_def add.commute)

text \<open>\<open>Duration.Seconds\<close> of a duration that is not negative.\<close>

definition durationSeconds :: "Duration \<Rightarrow> float64" where
  "durationSeconds d =
     fadd (float64OfInt (d div Second)) (fdiv (float64OfInt (d mod Second)) 1000000000)"

section \<open>The registry\<close>

type_synonym 'v gomap = "(string \<times> 'v) list"

record summary =
  sCount :: float64
  sSum :: float64

record Registry =
  counters :: "float64 gomap"
  gauges :: "float64 gomap"
  summaries :: "summary gomap"

text \<open>Reading a key that is absent yields the zero value of the element type.\<close>

definition mapGet :: "'v \<Rightarrow> 'v gomap \<Rightarrow> string \<Rightarrow> 'v" where
  "mapGet zero m k = (case map_of m k of None \<Rightarrow> zero | Some v \<Rightarrow> v)"

definition zeroSummary :: summary where
  "zeroSummary = \<lparr>sCount = 0, sSum = 0\<rparr>"

definition NewRegistry :: Registry where
  "NewRegistry =
     \<lparr>counters =
        [(''gotaskqueue_tasks_submitted_total'', 0),
         (''gotaskqueue_tasks_started_total'', 0),
         (''gotaskqueue_tasks_succeeded_total'', 0),
         (''gotaskqueue_tasks_failed_total'', 0),
         (''gotaskqueue_tasks_retried_total'', 0),
         (''gotaskqueue_tasks_dead_total'', 0)],
      gauges =
        [(''gotaskqueue_queue_backlog'', 0),
         (''gotaskqueue_worker_running_tasks'', 0)],
      summaries =
        [(''gotaskqueue_task_execution_duration_seconds'', zeroSummary),
         (''gotaskqueue_task_wait_duration_seconds'', zeroSummary)]\<rparr>"

definition addCounter :: "string \<Rightarrow> float64 \<Rightarrow> Registry \<Rightarrow> Registry" where
  "addCounter name value r =
     r\<lparr>counters := AList.update name (fadd (mapGet 0 (counters r) name) value) (counters r)\<rparr>"

definition setGauge :: "string \<Rightarrow> float64 \<Rightarrow> Registry \<Rightarrow> Registry" where
  "setGauge name value r = r\<lparr>gauges := AList.update name value (gauges r)\<rparr>"

definition observe :: "string \<Rightarrow> Duration \<Rightarrow> Registry \<Rightarrow> Registry" where
  "observe name duration0 r =
     (let duration = (if duration0 < 0 then 0 else duration0);
          value = mapGet zeroSummary (summaries r) name
      in r\<lparr>summaries := AList.update name
             \<lparr>sCount = fadd (sCount value) 1, sSum = fadd (sSum value) (durationSeconds duration)\<rparr>
             (summaries r)\<rparr>)"

definition TaskSubmitted :: "Registry \<Rightarrow> Registry" where
  "TaskSubmitted = addCounter ''gotaskqueue_tasks_submitted_total'' 1"

definition TaskStarted :: "Duration \<Rightarrow> Registry \<Rightarrow> Registry" where
  "TaskStarted wait r =
     observe ''gotaskqueue_task_wait_duration_seconds'' wait
       (addCounter ''gotaskqueue_tasks_started_total'' 1 r)"

definition TaskSucceeded :: "Duration \<Rightarrow> Registry \<Rightarrow> Registry" where
  "TaskSucceeded execution r =
     observe ''gotaskqueue_task_execution_duration_seconds'' execution
       (addCounter ''gotaskqueue_tasks_succeeded_total'' 1 r)"

definition TaskFailed :: "Duration \<Rightarrow> Registry \<Rightarrow> Registry" where
  "TaskFailed execution r =
     observe ''gotaskqueue_task_execution_duration_seconds'' execution
       (addCounter ''gotaskqueue_tasks_failed_total'' 1 r)"

definition TaskRetried :: "Registry \<Rightarrow> Registry" where
  "TaskRetried = addCounter ''gotaskqueue_tasks_retried_total'' 1"

definition TaskDead :: "Registry \<Rightarrow> Registry" where
  "TaskDead = addCounter ''gotaskqueue_tasks_dead_total'' 1"

lemmas metric_defs = TaskSubmitted_def TaskStarted_def TaskSucceeded_def TaskFailed_def
  TaskRetried_def TaskDead_def

text \<open>The reading of one counter.\<close>

definition counterValue :: "string \<Rightarrow> Registry \<Rightarrow> float64" where
  "counterValue name r = mapGet 0 (counters r) name"

lemma counterValue_addCounter:
  "counterValue c (addCounter n v r) = (if c = n then fadd (counterValue c r) v else counterValue c r)"
  by (simp add: counterValue_def addCounter_def mapGet_def update_conv')

lemma counterValue_observe [simp]: "counterValue c (observe n d r) = counterValue c r"
  by (simp add: counterValue_def observe_def Let_def)

lemma distinct_counters_addCounter:
  "distinct (map fst (counters r)) \<Longrightarrow> distinct (map fst (counters (addCounter n v r)))"
  by (simp add: addCounter_def distinct_update)

text \<open>
  C33. A counter that starts at zero counts exactly: after \<open>n\<close> events, \<open>n < 2 ^ 53\<close>, it
  reads \<open>n\<close>, although it is a double-precision number, and no event moves another counter.
\<close>

theorem counter_counts_exactly:
  assumes "n < 2 ^ 53" "counterValue c r = 0"
  shows "counterValue c ((addCounter c 1 ^^ n) r) = of_nat n
    \<and> (\<forall>c'. c' \<noteq> c \<longrightarrow> counterValue c' ((addCounter c 1 ^^ n) r) = counterValue c' r)"
  using assms(1)
proof (induction n)
  case 0
  then show ?case using assms(2) by simp
next
  case (Suc n)
  then show ?case using fadd_count [of n] by (simp add: counterValue_addCounter)
qed

theorem counter_counts_exactly_witness:
  "counterValue ''gotaskqueue_tasks_dead_total''
     ((addCounter ''gotaskqueue_tasks_dead_total'' 1 ^^ 1000) NewRegistry) = 1000"
proof -
  have z: "counterValue ''gotaskqueue_tasks_dead_total'' NewRegistry = 0"
    by (simp add: counterValue_def NewRegistry_def mapGet_def)
  show ?thesis using counter_counts_exactly [of 1000, OF _ z] by simp
qed

end
