(* ===== verification/Json.thy ===== *)
theory Json
  imports GoStd
begin

text \<open>
  What the program uses of \<open>encoding/json\<close>: the syntax the scanner accepts, with its limit on nesting, the
  decoding of strings, and the text of a value inside an object, which a \<open>json.RawMessage\<close> keeps.
  Text is a list of bytes.
\<close>

section \<open>Runes\<close>

abbreviation byteOf :: "char \<Rightarrow> nat" where
  "byteOf \<equiv> of_char"

text \<open>\<open>utf8.DecodeRune\<close>: the rune at the start of a text that is not empty, and its width; invalid bytes give
  the replacement character with width 1.\<close>

definition runeError :: nat where "runeError = 0xFFFD"

definition isCont :: "nat \<Rightarrow> nat \<Rightarrow> nat \<Rightarrow> bool" where
  "isCont lo hi b \<longleftrightarrow> lo \<le> b \<and> b \<le> hi"

definition decodeRune :: "string \<Rightarrow> nat \<times> nat" where
  "decodeRune s =
     (case map byteOf (take 4 s) of
        [] \<Rightarrow> (runeError, 0)
      | b0 # bs \<Rightarrow>
          if b0 < 0x80 then (b0, 1)
          else if 0xC2 \<le> b0 \<and> b0 \<le> 0xDF then
            (case bs of b1 # _ \<Rightarrow> if isCont 0x80 0xBF b1 then ((b0 - 0xC0) * 64 + (b1 - 0x80), 2) else (runeError, 1)
             | [] \<Rightarrow> (runeError, 1))
          else if 0xE0 \<le> b0 \<and> b0 \<le> 0xEF then
            (case bs of b1 # b2 # _ \<Rightarrow>
               if isCont (if b0 = 0xE0 then 0xA0 else 0x80) (if b0 = 0xED then 0x9F else 0xBF) b1 \<and> isCont 0x80 0xBF b2
               then ((b0 - 0xE0) * 4096 + (b1 - 0x80) * 64 + (b2 - 0x80), 3) else (runeError, 1)
             | _ \<Rightarrow> (runeError, 1))
          else if 0xF0 \<le> b0 \<and> b0 \<le> 0xF4 then
            (case bs of b1 # b2 # b3 # _ \<Rightarrow>
               if isCont (if b0 = 0xF0 then 0x90 else 0x80) (if b0 = 0xF4 then 0x8F else 0xBF) b1
                  \<and> isCont 0x80 0xBF b2 \<and> isCont 0x80 0xBF b3
               then ((b0 - 0xF0) * 262144 + (b1 - 0x80) * 4096 + (b2 - 0x80) * 64 + (b3 - 0x80), 4) else (runeError, 1)
             | _ \<Rightarrow> (runeError, 1))
          else (runeError, 1))"

text \<open>\<open>utf8.AppendRune\<close> for the runes decoding produces.\<close>

definition encodeRune :: "nat \<Rightarrow> string" where
  "encodeRune r =
     map char_of
       (if r < 0x80 then [r]
        else if r < 0x800 then [0xC0 + r div 64, 0x80 + r mod 64]
        else if r < 0x10000 then [0xE0 + r div 4096, 0x80 + r div 64 mod 64, 0x80 + r mod 64]
        else [0xF0 + r div 262144, 0x80 + r div 4096 mod 64, 0x80 + r div 64 mod 64, 0x80 + r mod 64])"

section \<open>Strings\<close>

definition hexValue :: "char \<Rightarrow> nat option" where
  "hexValue c =
     (let n = byteOf c
      in if 48 \<le> n \<and> n \<le> 57 then Some (n - 48)
         else if 97 \<le> n \<and> n \<le> 102 then Some (n - 87)
         else if 65 \<le> n \<and> n \<le> 70 then Some (n - 55) else None)"

text \<open>\<open>getu4\<close>: the four digits after a \<open>u\<close>.\<close>

fun getu4 :: "string \<Rightarrow> nat option" where
  "getu4 (a # b # c # d # _) =
     (case (hexValue a, hexValue b, hexValue c, hexValue d) of
        (Some w, Some x, Some y, Some z) \<Rightarrow> Some (w * 4096 + x * 256 + y * 16 + z)
      | _ \<Rightarrow> None)"
| "getu4 _ = None"

definition simpleEscape :: "char \<Rightarrow> char option" where
  "simpleEscape c =
     (if c = CHR 0x22 \<or> c = CHR 0x5C \<or> c = CHR ''/'' then Some c
      else if c = CHR ''b'' then Some (CHR 0x08) else if c = CHR ''f'' then Some (CHR 0x0C)
      else if c = CHR ''n'' then Some (CHR 0x0A) else if c = CHR ''r'' then Some (CHR 0x0D)
      else if c = CHR ''t'' then Some (CHR 0x09) else None)"

text \<open>The body of a string after its opening quote: the raw bytes up to the closing quote, and what follows it.
  Control characters and unknown escapes are refused.\<close>

fun scanString :: "string \<Rightarrow> (string \<times> string) option" where
  "scanString [] = None"
| "scanString (c # cs) =
     (if c = CHR 0x22 then Some ([], cs)
      else if byteOf c < 0x20 then None
      else if c = CHR 0x5C then
        (case cs of
           [] \<Rightarrow> None
         | e # es \<Rightarrow>
             if e = CHR ''u'' then
               (if getu4 es = None then None
                else map_option (map_prod (\<lambda>b. c # e # take 4 es @ b) (\<lambda>r. r)) (scanString (drop 4 es)))
             else if simpleEscape e = None then None
             else map_option (map_prod (\<lambda>b. c # e # b) (\<lambda>r. r)) (scanString es))
      else map_option (map_prod (\<lambda>b. c # b) (\<lambda>r. r)) (scanString cs))"

text \<open>\<open>utf16.DecodeRune\<close> of a surrogate and the escape that follows it, if any.\<close>

definition decodeSurrogates :: "nat \<Rightarrow> nat option \<Rightarrow> nat option" where
  "decodeSurrogates r1 r2 =
     (case r2 of
        None \<Rightarrow> None
      | Some y \<Rightarrow> if 0xD800 \<le> r1 \<and> r1 < 0xDC00 \<and> 0xDC00 \<le> y \<and> y < 0xE000
                  then Some ((r1 - 0xD800) * 1024 + (y - 0xDC00) + 0x10000) else None)"

text \<open>\<open>unquote\<close> on the body of a string that the scanner accepted.\<close>

function unquoteBody :: "string \<Rightarrow> string" where
  "unquoteBody [] = []"
| "unquoteBody (c # cs) =
     (if c = CHR 0x5C then
        (case cs of
           [] \<Rightarrow> []
         | e # es \<Rightarrow>
             if e = CHR ''u'' then
               (let r1 = (case getu4 es of None \<Rightarrow> runeError | Some r \<Rightarrow> r); rest = drop 4 es
                in if 0xD800 \<le> r1 \<and> r1 < 0xE000 then
                     (case decodeSurrogates r1 (if take 2 rest = [CHR 0x5C, CHR ''u''] then getu4 (drop 2 rest) else None) of
                        Some r \<Rightarrow> encodeRune r @ unquoteBody (drop 6 rest)
                      | None \<Rightarrow> encodeRune runeError @ unquoteBody rest)
                   else encodeRune r1 @ unquoteBody rest)
             else (case simpleEscape e of None \<Rightarrow> [] | Some x \<Rightarrow> [x]) @ unquoteBody es)
      else (case decodeRune (c # cs) of (r, width) \<Rightarrow> encodeRune r @ unquoteBody (drop (width - 1) cs)))"
  by pat_completeness auto
termination by (relation "measure length") auto

section \<open>Numbers\<close>

definition isJsonDigit :: "char \<Rightarrow> bool" where
  "isJsonDigit c \<longleftrightarrow> 48 \<le> byteOf c \<and> byteOf c \<le> 57"

text \<open>At least one digit.\<close>

definition scanDigits :: "string \<Rightarrow> (string \<times> string) option" where
  "scanDigits s = (let ds = takeWhile isJsonDigit s in if ds = [] then None else Some (ds, drop (length ds) s))"

definition scanFraction :: "string \<Rightarrow> (string \<times> string) option" where
  "scanFraction s = (case s of
     c # cs \<Rightarrow> if c = CHR ''.'' then map_option (map_prod (\<lambda>ds. c # ds) (\<lambda>r. r)) (scanDigits cs) else Some ([], s)
   | [] \<Rightarrow> Some ([], s))"

definition scanExponent :: "string \<Rightarrow> (string \<times> string) option" where
  "scanExponent s = (case s of
     c # cs \<Rightarrow>
       if c = CHR ''e'' \<or> c = CHR ''E'' then
         (case cs of
            g # gs \<Rightarrow> if g = CHR ''+'' \<or> g = CHR ''-''
                      then map_option (map_prod (\<lambda>ds. c # g # ds) (\<lambda>r. r)) (scanDigits gs)
                      else map_option (map_prod (\<lambda>ds. c # ds) (\<lambda>r. r)) (scanDigits cs)
          | [] \<Rightarrow> None)
       else Some ([], s)
   | [] \<Rightarrow> Some ([], s))"

definition scanInteger :: "string \<Rightarrow> (string \<times> string) option" where
  "scanInteger s = (case s of
     c # cs \<Rightarrow> if c = CHR ''0'' then Some ([c], cs) else scanDigits s
   | [] \<Rightarrow> None)"

definition scanUnsigned :: "string \<Rightarrow> (string \<times> string) option" where
  "scanUnsigned s =
     (case scanInteger s of
        None \<Rightarrow> None
      | Some (i, r1) \<Rightarrow>
          (case scanFraction r1 of
             None \<Rightarrow> None
           | Some (f, r2) \<Rightarrow>
               (case scanExponent r2 of None \<Rightarrow> None | Some (e, r3) \<Rightarrow> Some (i @ f @ e, r3))))"

definition scanNumber :: "string \<Rightarrow> (string \<times> string) option" where
  "scanNumber s = (case s of
     c # cs \<Rightarrow> if c = CHR ''-'' then map_option (map_prod (\<lambda>n. c # n) (\<lambda>r. r)) (scanUnsigned cs) else scanUnsigned s
   | [] \<Rightarrow> None)"

text \<open>\<open>strconv.ParseInt(s, 10, 64)\<close> on the text of a number.\<close>

definition ParseInt :: "string \<Rightarrow> int option" where
  "ParseInt s =
     (let (neg, ds) = (case s of c # cs \<Rightarrow> if c = CHR ''-'' then (True, cs) else (False, s) | [] \<Rightarrow> (False, s));
          n = foldl (\<lambda>a c. a * 10 + int (byteOf c - 48)) 0 ds;
          v = (if neg then - n else n)
      in if ds \<noteq> [] \<and> list_all isJsonDigit ds \<and> minInt \<le> v \<and> v \<le> maxInt then Some v else None)"

section \<open>Values\<close>

text \<open>A value; a member of an object carries its decoded key and the text of its value.\<close>

datatype json = JNull | JBool bool | JNumber string | JString string
  | JArray "json list" | JObject "(string \<times> string \<times> json) list"

definition isJsonSpace :: "char \<Rightarrow> bool" where
  "isJsonSpace c \<longleftrightarrow> c \<in> {CHR 0x20, CHR 0x09, CHR 0x0D, CHR 0x0A}"

definition skipSpace :: "string \<Rightarrow> string" where
  "skipSpace = dropWhile isJsonSpace"

lemma length_skipSpace [simp]: "length (skipSpace s) \<le> length s"
  by (simp add: skipSpace_def length_dropWhile_le)

lemma skipSpace_Cons: "skipSpace s = c # cs \<Longrightarrow> length cs < length s"
  using length_skipSpace [of s] by simp

definition maxNestingDepth :: nat where "maxNestingDepth = 10000"

definition scanLiteral :: "string \<Rightarrow> json \<Rightarrow> string \<Rightarrow> (json \<times> string) option" where
  "scanLiteral word v s = (if take (length word) s = word then Some (v, drop (length word) s) else None)"

text \<open>A value that is neither an object nor an array.\<close>

definition scanScalar :: "string \<Rightarrow> (json \<times> string) option" where
  "scanScalar s = (case s of
     [] \<Rightarrow> None
   | c # cs \<Rightarrow>
       if c = CHR 0x22 then map_option (map_prod (\<lambda>b. JString (unquoteBody b)) (\<lambda>r. r)) (scanString cs)
       else if c = CHR ''t'' then scanLiteral ''true'' (JBool True) s
       else if c = CHR ''f'' then scanLiteral ''false'' (JBool False) s
       else if c = CHR ''n'' then scanLiteral ''null'' JNull s
       else map_option (map_prod JNumber (\<lambda>r. r)) (scanNumber s))"

text \<open>
  \<open>scanValue d\<close> reads one value with \<open>d\<close> enclosing objects and arrays. The comparisons of lengths are always true
  (see below) and make the recursion well-founded.
\<close>

function (sequential) scanValue :: "nat \<Rightarrow> string \<Rightarrow> (json \<times> string) option"
  and scanElements :: "nat \<Rightarrow> string \<Rightarrow> (json list \<times> string) option"
  and scanMembers :: "nat \<Rightarrow> string \<Rightarrow> ((string \<times> string \<times> json) list \<times> string) option"
where
  "scanValue d s = (case s of
     [] \<Rightarrow> None
   | c # cs \<Rightarrow>
       if c = CHR ''['' then
         (if d \<ge> maxNestingDepth then None
          else case skipSpace cs of
            [] \<Rightarrow> None
          | e # es \<Rightarrow> if e = CHR '']'' then Some (JArray [], es)
                      else map_option (map_prod JArray (\<lambda>r. r)) (scanElements (Suc d) (skipSpace cs)))
       else if c = CHR 0x7B then
         (if d \<ge> maxNestingDepth then None
          else case skipSpace cs of
            [] \<Rightarrow> None
          | e # es \<Rightarrow> if e = CHR 0x7D then Some (JObject [], es)
                      else map_option (map_prod JObject (\<lambda>r. r)) (scanMembers (Suc d) (skipSpace cs)))
       else scanScalar s)"
| "scanElements d s =
     (case scanValue d s of
        None \<Rightarrow> None
      | Some (v, r) \<Rightarrow>
          (case skipSpace r of
             [] \<Rightarrow> None
           | c # cs \<Rightarrow>
               if c = CHR '']'' then Some ([v], cs)
               else if c = CHR '','' \<and> length cs < length s
               then map_option (map_prod (\<lambda>vs. v # vs) (\<lambda>r. r)) (scanElements d (skipSpace cs))
               else None))"
| "scanMembers d s = (case s of
     [] \<Rightarrow> None
   | q # qs \<Rightarrow>
       if q \<noteq> CHR 0x22 then None
       else case scanString qs of
         None \<Rightarrow> None
       | Some (key, r) \<Rightarrow>
           (case skipSpace r of
              [] \<Rightarrow> None
            | c # cs \<Rightarrow>
                if c \<noteq> CHR '':'' \<or> \<not> length cs < length s then None
                else let vs = skipSpace cs
                  in case scanValue d vs of
                       None \<Rightarrow> None
                     | Some (v, r2) \<Rightarrow>
                         let m = (unquoteBody key, take (length vs - length r2) vs, v)
                         in case skipSpace r2 of
                              [] \<Rightarrow> None
                            | e # es \<Rightarrow>
                                if e = CHR 0x7D then Some ([m], es)
                                else if e = CHR '','' \<and> length es < length s
                                then map_option (map_prod (\<lambda>ms. m # ms) (\<lambda>r. r)) (scanMembers d (skipSpace es))
                                else None))"
  by pat_completeness auto
termination
  apply (relation "measure (\<lambda>x. case x of Inl (d, s) \<Rightarrow> 2 * length s
    | Inr (Inl (d, s)) \<Rightarrow> 2 * length s + 1 | Inr (Inr (d, s)) \<Rightarrow> 2 * length s + 1)")
          apply (auto dest!: skipSpace_Cons simp: less_Suc_eq_le)
  subgoal for d s a b x using length_skipSpace [of x] by linarith
  subgoal for s a b x using length_skipSpace [of x] by linarith
  subgoal for d s a b y a' b' x using length_skipSpace [of x] by linarith
  done

definition jsonValid :: "string \<Rightarrow> bool" where
  "jsonValid s \<longleftrightarrow> (case scanValue 0 (skipSpace s) of Some (_, r) \<Rightarrow> skipSpace r = [] | None \<Rightarrow> False)"

text \<open>\<open>json.Unmarshal\<close> checks the whole text before it decodes; a \<open>Decoder\<close> reads the first value and leaves the
  rest unread.\<close>

definition unmarshalValue :: "string \<Rightarrow> json option" where
  "unmarshalValue s = (case scanValue 0 (skipSpace s) of
     Some (v, r) \<Rightarrow> if skipSpace r = [] then Some v else None
   | None \<Rightarrow> None)"

definition decodeFirst :: "string \<Rightarrow> json option" where
  "decodeFirst s = map_option fst (scanValue 0 (skipSpace s))"

section \<open>Scanning is local\<close>

text \<open>
  \<open>f\<close> reads the part \<open>p\<close> before \<open>r\<close> and gives \<open>x\<close>, and it does so whatever follows, as long as the
  next byte is the same or there is none (a number ends at the next byte).
\<close>

definition local_at :: "(string \<Rightarrow> ('a \<times> string) option) \<Rightarrow> 'a \<Rightarrow> string \<Rightarrow> string \<Rightarrow> bool" where
  "local_at f x p r \<longleftrightarrow> (\<forall>r'. r' = [] \<or> take 1 r' = take 1 r \<longrightarrow> f (p @ r') = Some (x, r'))"

lemma local_atD: "local_at f x p r \<Longrightarrow> f (p @ r) = Some (x, r)" "local_at f x p r \<Longrightarrow> f p = Some (x, [])"
  "local_at f x p (c # cs) \<Longrightarrow> f (p @ c # cs') = Some (x, c # cs')"
  unfolding local_at_def by (auto dest: spec [of _ "[]"])

lemma local_at_seq:
  assumes "local_at f x p (q @ r)" "r' = [] \<or> take 1 r' = take 1 r"
  shows "f (p @ q @ r') = Some (x, q @ r')"
  using assms by (cases q) (auto simp: local_at_def)

text \<open>Strings and literals end by themselves.\<close>

lemma scanString_local: "scanString s = Some (b, r) \<Longrightarrow> \<exists>p. s = p @ r \<and> p \<noteq> [] \<and> (\<forall>r'. scanString (p @ r') = Some (b, r'))"
proof (induction s arbitrary: b r rule: scanString.induct)
  case (2 c cs)
  consider (quote) "c = CHR 0x22" | (unicode) es where "c = CHR 0x5C" "cs = CHR ''u'' # es" "getu4 es \<noteq> None"
    | (escape) e es where "c = CHR 0x5C" "cs = e # es" "e \<noteq> CHR ''u''" "simpleEscape e \<noteq> None"
    | (plain) "c \<noteq> CHR 0x22" "c \<noteq> CHR 0x5C" "\<not> byteOf c < 0x20"
    using 2(4) by (auto split: if_splits list.splits)
  then show ?case
  proof cases
    case quote
    with 2(4) have "b = []" "cs = r" by auto
    with quote show ?thesis by (intro exI [of _ "[c]"]) auto
  next
    case unicode
    then obtain b' where b': "scanString (drop 4 es) = Some (b', r)" "b = c # CHR ''u'' # take 4 es @ b'"
      using 2(4) by (auto split: if_splits)
    have ih: "\<exists>p. drop 4 es = p @ r \<and> p \<noteq> [] \<and> (\<forall>r'. scanString (p @ r') = Some (b', r'))"
      by (rule 2(1)) (use unicode b' in auto)
    then obtain p where p: "drop 4 es = p @ r" "\<forall>r'. scanString (p @ r') = Some (b', r')" by blast
    from unicode(3) obtain x y z w es' where es: "es = x # y # z # w # es'" by (cases es rule: getu4.cases) auto
    show ?thesis
      by (rule exI [of _ "c # CHR ''u'' # take 4 es @ p"]) (use unicode p b' es in auto)
  next
    case escape
    then obtain b' where b': "scanString es = Some (b', r)" "b = c # e # b'" using 2(4) by (auto split: if_splits)
    have "\<exists>p. es = p @ r \<and> p \<noteq> [] \<and> (\<forall>r'. scanString (p @ r') = Some (b', r'))"
      by (rule 2(2)) (use escape b' in auto)
    then obtain p where "es = p @ r" "\<forall>r'. scanString (p @ r') = Some (b', r')" by blast
    with escape b' show ?thesis by (intro exI [of _ "c # e # p"]) auto
  next
    case plain
    then obtain b' where b': "scanString cs = Some (b', r)" "b = c # b'" using 2(4) by auto
    have "\<exists>p. cs = p @ r \<and> p \<noteq> [] \<and> (\<forall>r'. scanString (p @ r') = Some (b', r'))"
      by (rule 2(3)) (use plain b' in auto)
    then obtain p where "cs = p @ r" "\<forall>r'. scanString (p @ r') = Some (b', r')" by blast
    with plain b' show ?thesis by (intro exI [of _ "c # p"]) auto
  qed
qed simp

lemma scanLiteral_local:
  assumes "scanLiteral word v s = Some (x, r)" "word \<noteq> []"
  shows "\<exists>p. s = p @ r \<and> local_at (scanLiteral word v) x p r"
proof -
  from assms have "s = word @ r" "x = v" by (auto simp: scanLiteral_def split: if_splits) (metis append_take_drop_id)
  with assms(2) show ?thesis by (intro exI [of _ word]) (auto simp: local_at_def scanLiteral_def)
qed

text \<open>Numbers end at the first byte that cannot belong to them.\<close>

lemma scanDigits_local:
  assumes "scanDigits s = Some (ds, r)"
  shows "s = ds @ r \<and> ds \<noteq> [] \<and> local_at scanDigits ds ds r"
proof -
  from assms have ds: "ds = takeWhile isJsonDigit s" "ds \<noteq> []" "r = dropWhile isJsonDigit s"
    by (auto simp: scanDigits_def Let_def dropWhile_eq_drop split: if_splits)
  have all: "\<forall>c \<in> set ds. isJsonDigit c" using ds(1) by (auto dest: set_takeWhileD)
  have "takeWhile isJsonDigit (ds @ r') = ds" if "r' = [] \<or> take 1 r' = take 1 r" for r'
  proof (cases r')
    case Nil
    with all show ?thesis by simp
  next
    case (Cons c cs)
    with that have "take 1 r = [c]" by auto
    then have "r = c # tl r" by (cases r) auto
    then have "\<not> isJsonDigit c" using ds(3) by (metis hd_dropWhile list.distinct(1) list.sel(1))
    with all Cons show ?thesis by (simp add: takeWhile_append2)
  qed
  then show ?thesis using ds by (auto simp: local_at_def scanDigits_def Let_def)
qed

lemma scanFraction_local:
  assumes "scanFraction s = Some (f, r)"
  shows "s = f @ r \<and> local_at scanFraction f f r"
proof (cases "\<exists>cs. s = CHR ''.'' # cs")
  case True
  then obtain cs ds where "s = CHR ''.'' # cs" "scanDigits cs = Some (ds, r)" "f = CHR ''.'' # ds"
    using assms by (auto simp: scanFraction_def)
  with scanDigits_local [of cs ds r] show ?thesis by (auto simp: local_at_def scanFraction_def)
next
  case False
  then have "f = []" "r = s" using assms by (auto simp: scanFraction_def split: list.splits if_splits)
  moreover have "scanFraction r' = Some ([], r')" if "r' = [] \<or> take 1 r' = take 1 s" for r'
    using that False by (cases r'; cases s) (auto simp: scanFraction_def)
  ultimately show ?thesis by (simp add: local_at_def)
qed

lemma scanExponent_local:
  assumes "scanExponent s = Some (e, r)"
  shows "s = e @ r \<and> local_at scanExponent e e r"
proof (cases "\<exists>c cs. s = c # cs \<and> (c = CHR ''e'' \<or> c = CHR ''E'')")
  case True
  then obtain c cs where s: "s = c # cs" "c = CHR ''e'' \<or> c = CHR ''E''" by blast
  with assms obtain g gs where cs: "cs = g # gs" by (cases cs) (auto simp: scanExponent_def)
  show ?thesis
  proof (cases "g = CHR ''+'' \<or> g = CHR ''-''")
    case True
    with assms s cs obtain ds where ds: "scanDigits gs = Some (ds, r)" "e = c # g # ds" by (auto simp: scanExponent_def)
    with scanDigits_local [OF ds(1)] s cs True show ?thesis by (auto simp: local_at_def scanExponent_def)
  next
    case False
    with assms s cs obtain ds where ds: "scanDigits cs = Some (ds, r)" "e = c # ds" by (auto simp: scanExponent_def)
    note l = scanDigits_local [OF ds(1)]
    then obtain ds' where d: "ds = g # ds'" using cs by (cases ds) auto
    from l ds(2) s False show ?thesis unfolding d by (auto simp: local_at_def scanExponent_def)
  qed
next
  case False
  then have "e = []" "r = s" using assms by (auto simp: scanExponent_def split: list.splits if_splits)
  moreover have "scanExponent r' = Some ([], r')" if "r' = [] \<or> take 1 r' = take 1 s" for r'
    using that False by (cases r'; cases s) (auto simp: scanExponent_def)
  ultimately show ?thesis by (simp add: local_at_def)
qed

lemma scanInteger_local:
  assumes "scanInteger s = Some (i, r)"
  shows "s = i @ r \<and> i \<noteq> [] \<and> local_at scanInteger i i r"
proof (cases "\<exists>cs. s = CHR ''0'' # cs")
  case True
  with assms show ?thesis by (auto simp: scanInteger_def local_at_def)
next
  case False
  with assms have d: "scanDigits s = Some (i, r)" by (auto simp: scanInteger_def split: list.splits if_splits)
  note l = scanDigits_local [OF d]
  then obtain c i' where i: "i = c # i'" "s = c # i' @ r" by (cases i) auto
  with False have "c \<noteq> CHR ''0''" by blast
  with l i show ?thesis by (auto simp: local_at_def scanInteger_def)
qed

lemma scanUnsigned_local:
  assumes "scanUnsigned s = Some (n, r)"
  shows "s = n @ r \<and> n \<noteq> [] \<and> local_at scanUnsigned n n r"
proof -
  from assms obtain i r1 f r2 e where p: "scanInteger s = Some (i, r1)" "scanFraction r1 = Some (f, r2)"
      "scanExponent r2 = Some (e, r)" "n = i @ f @ e"
    by (auto simp: scanUnsigned_def split: option.splits)
  note l = scanInteger_local [OF p(1)] scanFraction_local [OF p(2)] scanExponent_local [OF p(3)]
  have "scanUnsigned (n @ r') = Some (n, r')" if r': "r' = [] \<or> take 1 r' = take 1 r" for r'
  proof -
    have "scanInteger (i @ (f @ e) @ r') = Some (i, (f @ e) @ r')" by (rule local_at_seq) (use l r' in auto)
    moreover have "scanFraction (f @ e @ r') = Some (f, e @ r')" by (rule local_at_seq) (use l r' in auto)
    moreover have "scanExponent (e @ r') = Some (e, r')" using l r' by (auto simp: local_at_def)
    ultimately show ?thesis by (simp add: scanUnsigned_def p(4))
  qed
  with l p(4) show ?thesis by (auto simp: local_at_def)
qed

lemma scanNumber_local:
  assumes "scanNumber s = Some (n, r)"
  shows "s = n @ r \<and> n \<noteq> [] \<and> local_at scanNumber n n r"
proof (cases "\<exists>cs. s = CHR ''-'' # cs")
  case True
  then obtain cs m where m: "s = CHR ''-'' # cs" "scanUnsigned cs = Some (m, r)" "n = CHR ''-'' # m"
    using assms by (auto simp: scanNumber_def)
  with scanUnsigned_local [OF m(2)] show ?thesis by (auto simp: local_at_def scanNumber_def)
next
  case False
  with assms have u: "scanUnsigned s = Some (n, r)" by (auto simp: scanNumber_def split: list.splits if_splits)
  note l = scanUnsigned_local [OF u]
  then obtain c n' where n: "n = c # n'" "s = c # n' @ r" by (cases n) auto
  with False have "c \<noteq> CHR ''-''" by blast
  with l n show ?thesis by (auto simp: local_at_def scanNumber_def)
qed

lemma scanScalar_local:
  assumes "scanScalar s = Some (v, r)"
  shows "\<exists>p. s = p @ r \<and> p \<noteq> [] \<and> local_at scanScalar v p r"
proof -
  obtain c cs where s: "s = c # cs" using assms by (cases s) (auto simp: scanScalar_def)
  have lift: ?thesis if "\<exists>p. s = p @ r \<and> local_at (scanLiteral word x) v p r" "word = c # word'"
      "\<And>t. scanScalar (c # t) = scanLiteral word x (c # t)" for word word' x
  proof -
    from that(1) obtain p where p: "s = p @ r" "local_at (scanLiteral word x) v p r" by blast
    from local_atD(2) [OF p(2)] that(2) have "p \<noteq> []" by (auto simp: scanLiteral_def split: if_splits)
    with p s that(3) show ?thesis by (intro exI [of _ p]) (auto simp: local_at_def Cons_eq_append_conv)
  qed
  consider "c = CHR 0x22" | "c = CHR ''t''" | "c = CHR ''f''" | "c = CHR ''n''"
    | "c \<notin> {CHR 0x22, CHR ''t'', CHR ''f'', CHR ''n''}" by blast
  then show ?thesis
  proof cases
    case 1
    with assms s obtain b where b: "scanString cs = Some (b, r)" "v = JString (unquoteBody b)" by (auto simp: scanScalar_def)
    from scanString_local [OF b(1)] obtain p where "cs = p @ r" "\<forall>r'. scanString (p @ r') = Some (b, r')" by blast
    with 1 b s show ?thesis by (intro exI [of _ "c # p"]) (auto simp: local_at_def scanScalar_def)
  next
    case 2
    show ?thesis by (rule lift [OF scanLiteral_local]) (use assms s 2 in \<open>auto simp: scanScalar_def\<close>)
  next
    case 3
    show ?thesis by (rule lift [OF scanLiteral_local]) (use assms s 3 in \<open>auto simp: scanScalar_def\<close>)
  next
    case 4
    show ?thesis by (rule lift [OF scanLiteral_local]) (use assms s 4 in \<open>auto simp: scanScalar_def\<close>)
  next
    case 5
    with assms s obtain n where n: "scanNumber s = Some (n, r)" "v = JNumber n" by (auto simp: scanScalar_def)
    note l = scanNumber_local [OF n(1)]
    then obtain n' where "n = c # n'" using s by (cases n) auto
    with l n 5 show ?thesis by (intro exI [of _ n]) (auto simp: local_at_def scanScalar_def)
  qed
qed

text \<open>White space before a delimiter.\<close>

lemma skipSpace_split:
  assumes "skipSpace s = c # cs"
  obtains ws where "s = ws @ c # cs" "\<And>t. skipSpace (ws @ c # t) = c # t"
proof -
  let ?ws = "takeWhile isJsonSpace s"
  have s: "s = ?ws @ c # cs" using assms by (metis skipSpace_def takeWhile_dropWhile_id)
  have "\<not> isJsonSpace c" using assms by (metis hd_dropWhile list.distinct(1) list.sel(1) skipSpace_def)
  moreover have "\<forall>x \<in> set ?ws. isJsonSpace x" by (auto dest: set_takeWhileD)
  ultimately have "skipSpace (?ws @ c # t) = c # t" for t by (simp add: skipSpace_def dropWhile_append2)
  with s show thesis by (rule that)
qed

lemma skipSpace_idem [simp]: "skipSpace (skipSpace s) = skipSpace s"
  by (simp add: skipSpace_def)

text \<open>The value that \<open>f\<close> gives on a text, and at every smaller depth too.\<close>

definition reads_at :: "(nat \<Rightarrow> string \<Rightarrow> ('a \<times> string) option) \<Rightarrow> nat \<Rightarrow> 'a \<Rightarrow> string \<Rightarrow> string \<Rightarrow> bool" where
  "reads_at f d x s r \<longleftrightarrow> (\<exists>p. s = p @ r \<and> p \<noteq> [] \<and> (\<forall>d' \<le> d. local_at (f d') x p r))"

lemma reads_atI:
  assumes "s = p @ r" "p \<noteq> []" "\<And>d' r'. d' \<le> d \<Longrightarrow> r' = [] \<or> take 1 r' = take 1 r \<Longrightarrow> f d' (p @ r') = Some (x, r')"
  shows "reads_at f d x s r"
  using assms unfolding reads_at_def local_at_def by blast

lemma reads_atE:
  assumes "reads_at f d x s r"
  obtains p where "s = p @ r" "p \<noteq> []" "\<And>d' q t t'. d' \<le> d \<Longrightarrow> r = q @ t \<Longrightarrow> t' = [] \<or> take 1 t' = take 1 t \<Longrightarrow>
    f d' (p @ q @ t') = Some (x, q @ t')"
  using assms unfolding reads_at_def by (metis local_at_seq)

text \<open>An opening bracket, white space, and what follows.\<close>

lemma reads_at_bracket:
  assumes r: "reads_at g (Suc d) x (skipSpace cs) r" and ne: "skipSpace cs = e # es"
    and f: "\<And>d' t. d' \<le> d \<Longrightarrow> skipSpace t = e # tl (skipSpace t) \<Longrightarrow> g (Suc d') (skipSpace t) \<noteq> None \<Longrightarrow>
      f d' (c # t) = map_option (map_prod h (\<lambda>r. r)) (g (Suc d') (skipSpace t))"
  shows "reads_at f d (h x) (c # cs) r"
proof -
  obtain ws where ws: "cs = ws @ e # es" "\<And>t. skipSpace (ws @ e # t) = e # t"
    using skipSpace_split [OF ne] by blast
  obtain p where p: "e # es = p @ r" "p \<noteq> []"
      "\<And>d' q t t'. d' \<le> Suc d \<Longrightarrow> r = q @ t \<Longrightarrow> t' = [] \<or> take 1 t' = take 1 t \<Longrightarrow> g d' (p @ q @ t') = Some (x, q @ t')"
    using reads_atE [OF r [unfolded ne]] by blast
  then obtain p' where p': "p = e # p'" "es = p' @ r" by (cases p) auto
  show ?thesis
  proof (rule reads_atI)
    show "c # cs = (c # ws @ p) @ r" "c # ws @ p \<noteq> []" using ws p' by simp_all
    fix d' r' assume d': "d' \<le> d" and r': "r' = [] \<or> take 1 r' = take 1 r"
    have g: "g (Suc d') (p @ r') = Some (x, r')" using p(3) [of "Suc d'" "[]" r r'] d' r' by simp
    have sk: "skipSpace (ws @ p @ r') = p @ r'" using ws(2) by (simp add: p'(1))
    have "f d' (c # ws @ p @ r') = map_option (map_prod h (\<lambda>r. r)) (g (Suc d') (skipSpace (ws @ p @ r')))"
      by (rule f [OF d']) (use sk g p'(1) in auto)
    with sk g show "f d' ((c # ws @ p) @ r') = Some (h x, r')" by simp
  qed
qed

lemma scanValue_simps:
  "scanValue d [] = None"
  "scanValue d (CHR ''['' # cs) = (if d \<ge> maxNestingDepth then None else case skipSpace cs of
      [] \<Rightarrow> None
    | e # es \<Rightarrow> if e = CHR '']'' then Some (JArray [], es)
                else map_option (map_prod JArray (\<lambda>r. r)) (scanElements (Suc d) (skipSpace cs)))"
  "scanValue d (CHR 0x7B # cs) = (if d \<ge> maxNestingDepth then None else case skipSpace cs of
      [] \<Rightarrow> None
    | e # es \<Rightarrow> if e = CHR 0x7D then Some (JObject [], es)
                else map_option (map_prod JObject (\<lambda>r. r)) (scanMembers (Suc d) (skipSpace cs)))"
  "c \<noteq> CHR ''['' \<Longrightarrow> c \<noteq> CHR 0x7B \<Longrightarrow> scanValue d (c # cs) = scanScalar (c # cs)"
  by (simp_all add: scanValue.simps)

declare scanValue.simps [simp del] scanElements.simps [simp del] scanMembers.simps [simp del]

text \<open>An empty array or object.\<close>

lemma reads_at_empty:
  assumes "skipSpace cs = e # r"
    and f: "\<And>d' t. d' \<le> d \<Longrightarrow> skipSpace t = e # tl (skipSpace t) \<Longrightarrow> f d' (c # t) = Some (x, tl (skipSpace t))"
  shows "reads_at f d x (c # cs) r"
proof -
  obtain ws where ws: "cs = ws @ e # r" "\<And>t. skipSpace (ws @ e # t) = e # t"
    using skipSpace_split [OF assms(1)] by blast
  show ?thesis by (rule reads_atI [of _ "c # ws @ [e]"]) (use ws f in auto)
qed

lemma scanValue_bracket_local:
  assumes v: "scanValue d (c # cs) = Some (v, r)" and c: "c = CHR ''['' \<or> c = CHR 0x7B"
    and els: "\<And>vs r. scanElements (Suc d) (skipSpace cs) = Some (vs, r) \<Longrightarrow> reads_at scanElements (Suc d) vs (skipSpace cs) r"
    and mem: "\<And>ms r. scanMembers (Suc d) (skipSpace cs) = Some (ms, r) \<Longrightarrow> reads_at scanMembers (Suc d) ms (skipSpace cs) r"
  shows "reads_at scanValue d v (c # cs) r"
proof -
  have d: "d < maxNestingDepth" using v c by (auto simp: scanValue_simps split: if_splits)
  obtain e es where e: "skipSpace cs = e # es" using v c by (cases "skipSpace cs") (auto simp: scanValue_simps split: if_splits)
  from c show ?thesis
  proof
    assume c: "c = CHR ''[''"
    show ?thesis
    proof (cases "e = CHR '']''")
      case True
      with v c e d have "v = JArray []" "es = r" by (auto simp: scanValue_simps)
      with True c e d show ?thesis by (intro reads_at_empty) (auto simp: scanValue_simps split: list.splits)
    next
      case False
      with v c e d obtain vs where vs: "scanElements (Suc d) (skipSpace cs) = Some (vs, r)" "v = JArray vs"
        by (auto simp: scanValue_simps)
      show ?thesis unfolding vs(2)
        by (rule reads_at_bracket [OF els [OF vs(1)] e]) (use False c d in \<open>auto simp: scanValue_simps split: list.splits\<close>)
    qed
  next
    assume c: "c = CHR 0x7B"
    show ?thesis
    proof (cases "e = CHR 0x7D")
      case True
      with v c e d have "v = JObject []" "es = r" by (auto simp: scanValue_simps)
      with True c e d show ?thesis by (intro reads_at_empty) (auto simp: scanValue_simps split: list.splits)
    next
      case False
      with v c e d obtain ms where ms: "scanMembers (Suc d) (skipSpace cs) = Some (ms, r)" "v = JObject ms"
        by (auto simp: scanValue_simps)
      show ?thesis unfolding ms(2)
        by (rule reads_at_bracket [OF mem [OF ms(1)] e]) (use False c d in \<open>auto simp: scanValue_simps split: list.splits\<close>)
    qed
  qed
qed

text \<open>White space, and then what \<open>f\<close> reads.\<close>

lemma reads_at_skip:
  assumes "reads_at f d x (skipSpace s) r"
  obtains ws p where "s = ws @ p @ r" "p \<noteq> []" "\<And>t. skipSpace (ws @ p @ t) = p @ t" "skipSpace s = p @ r"
    "\<And>d' q t t'. d' \<le> d \<Longrightarrow> r = q @ t \<Longrightarrow> t' = [] \<or> take 1 t' = take 1 t \<Longrightarrow> f d' (p @ q @ t') = Some (x, q @ t')"
proof -
  obtain p where p: "skipSpace s = p @ r" "p \<noteq> []"
      "\<And>d' q t t'. d' \<le> d \<Longrightarrow> r = q @ t \<Longrightarrow> t' = [] \<or> take 1 t' = take 1 t \<Longrightarrow> f d' (p @ q @ t') = Some (x, q @ t')"
    using reads_atE [OF assms] by blast
  then obtain e p' where e: "p = e # p'" by (cases p) auto
  then have "skipSpace s = e # p' @ r" using p(1) by simp
  from skipSpace_split [OF this] obtain ws where ws: "s = ws @ e # p' @ r" "\<And>t. skipSpace (ws @ e # t) = e # t" by blast
  show thesis by (rule that [of ws p]) (use ws p e in auto)
qed

lemma scanElements_local:
  assumes e: "scanElements d s = Some (xs, r)"
    and val: "\<And>v r. scanValue d s = Some (v, r) \<Longrightarrow> reads_at scanValue d v s r"
    and rec: "\<And>cs vs r. length cs < length s \<Longrightarrow> scanElements d (skipSpace cs) = Some (vs, r) \<Longrightarrow>
      reads_at scanElements d vs (skipSpace cs) r"
  shows "reads_at scanElements d xs s r"
proof -
  from e obtain v r0 c cs where v: "scanValue d s = Some (v, r0)" and c: "skipSpace r0 = c # cs"
    and fin: "c = CHR '']'' \<and> xs = [v] \<and> r = cs \<or> c = CHR '','' \<and> length cs < length s
      \<and> (\<exists>vs. scanElements d (skipSpace cs) = Some (vs, r) \<and> xs = v # vs)"
    by (subst (asm) scanElements.simps) (auto split: option.splits list.splits if_splits)
  obtain p where p: "s = p @ r0" "p \<noteq> []"
      "\<And>d' q t t'. d' \<le> d \<Longrightarrow> r0 = q @ t \<Longrightarrow> t' = [] \<or> take 1 t' = take 1 t \<Longrightarrow> scanValue d' (p @ q @ t') = Some (v, q @ t')"
    using reads_atE [OF val [OF v]] by blast
  obtain ws where ws: "r0 = ws @ c # cs" "\<And>t. skipSpace (ws @ c # t) = c # t" using skipSpace_split [OF c] by blast
  from fin show ?thesis
  proof (elim disjE conjE exE)
    assume c: "c = CHR '']''" and x: "xs = [v]" "r = cs"
    show ?thesis
    proof (rule reads_atI)
      show "s = (p @ ws @ [c]) @ r" "p @ ws @ [c] \<noteq> []" using p ws x by simp_all
      fix d' r' assume "d' \<le> d" "r' = [] \<or> take 1 r' = take 1 r"
      with p(3) [of d' "ws @ [c]" cs r'] ws x c show "scanElements d' ((p @ ws @ [c]) @ r') = Some (xs, r')"
        by (subst scanElements.simps) simp
    qed
  next
    fix vs assume c: "c = CHR '',''" and l: "length cs < length s" and x: "scanElements d (skipSpace cs) = Some (vs, r)" "xs = v # vs"
    obtain ws2 p2 where q: "cs = ws2 @ p2 @ r" "p2 \<noteq> []" "\<And>t. skipSpace (ws2 @ p2 @ t) = p2 @ t"
        "\<And>d' q t t'. d' \<le> d \<Longrightarrow> r = q @ t \<Longrightarrow> t' = [] \<or> take 1 t' = take 1 t \<Longrightarrow> scanElements d' (p2 @ q @ t') = Some (vs, q @ t')"
      using reads_at_skip [OF rec [OF l x(1)]] by blast
    show ?thesis
    proof (rule reads_atI)
      show "s = (p @ ws @ c # ws2 @ p2) @ r" "p @ ws @ c # ws2 @ p2 \<noteq> []" using p ws q by simp_all
      fix d' r' assume d': "d' \<le> d" and r': "r' = [] \<or> take 1 r' = take 1 r"
      have "scanElements d' (p2 @ r') = Some (vs, r')" using q(4) [of d' "[]" r r'] d' r' by simp
      then show "scanElements d' ((p @ ws @ c # ws2 @ p2) @ r') = Some (xs, r')"
        using p(3) [of d' "ws @ c # ws2 @ p2" r r'] d' r' ws q x c by (subst scanElements.simps) simp
    qed
  qed
qed

lemma scanMembers_cases:
  assumes "scanMembers d s = Some (xs, r)"
  obtains qs key r1 cs v r2 e es where
    "s = CHR 0x22 # qs" "scanString qs = Some (key, r1)" "skipSpace r1 = CHR '':'' # cs"
    "scanValue d (skipSpace cs) = Some (v, r2)" "skipSpace r2 = e # es"
    "e = CHR 0x7D \<and> xs = [(unquoteBody key, take (length (skipSpace cs) - length r2) (skipSpace cs), v)] \<and> r = es
     \<or> e = CHR '','' \<and> length es < length s \<and> (\<exists>ms. scanMembers d (skipSpace es) = Some (ms, r)
        \<and> xs = (unquoteBody key, take (length (skipSpace cs) - length r2) (skipSpace cs), v) # ms)"
  using assms by (subst (asm) scanMembers.simps) (auto simp: Let_def split: option.splits list.splits if_splits)

lemma scanMembers_local:
  assumes m: "scanMembers d s = Some (xs, r)"
    and val: "\<And>cs v r. length cs < length s \<Longrightarrow> scanValue d (skipSpace cs) = Some (v, r) \<Longrightarrow> reads_at scanValue d v (skipSpace cs) r"
    and rec: "\<And>cs ms r. length cs < length s \<Longrightarrow> scanMembers d (skipSpace cs) = Some (ms, r) \<Longrightarrow>
      reads_at scanMembers d ms (skipSpace cs) r"
  shows "reads_at scanMembers d xs s r"
  using m
proof (cases rule: scanMembers_cases)
  case (1 qs key r1 cs v r2 e es)
  obtain k where k: "qs = k @ r1" "\<And>t. scanString (k @ t) = Some (key, t)" using scanString_local [OF 1(2)] by blast
  obtain w1 where w1: "r1 = w1 @ CHR '':'' # cs" "\<And>t. skipSpace (w1 @ CHR '':'' # t) = CHR '':'' # t"
    using skipSpace_split [OF 1(3)] by blast
  have l: "length cs < length s" using 1(1) k w1 by simp
  obtain w2 p where p: "cs = w2 @ p @ r2" "p \<noteq> []" "\<And>t. skipSpace (w2 @ p @ t) = p @ t" "skipSpace cs = p @ r2"
      "\<And>d' q t t'. d' \<le> d \<Longrightarrow> r2 = q @ t \<Longrightarrow> t' = [] \<or> take 1 t' = take 1 t \<Longrightarrow> scanValue d' (p @ q @ t') = Some (v, q @ t')"
    using reads_at_skip [OF val [OF l 1(4)]] by blast
  obtain w3 where w3: "r2 = w3 @ e # es" "\<And>t. skipSpace (w3 @ e # t) = e # t" using skipSpace_split [OF 1(5)] by blast
  let ?p = "CHR 0x22 # k @ w1 @ CHR '':'' # w2 @ p @ w3 @ [e]"
  have s: "s = ?p @ es" using 1(1) k w1 p w3 by simp
  have head: "scanMembers d' (?p @ t) = (if e = CHR 0x7D then Some ([(unquoteBody key, p, v)], t)
        else if e = CHR '','' then map_option (map_prod (\<lambda>ms. (unquoteBody key, p, v) # ms) (\<lambda>r. r)) (scanMembers d' (skipSpace t))
        else None)" if "scanValue d' (p @ w3 @ e # t) = Some (v, w3 @ e # t)" for d' t
    using that k(2) w1(2) p(3) w3(2) by (subst scanMembers.simps) (simp add: Let_def)
  have raw: "take (length (skipSpace cs) - length r2) (skipSpace cs) = p" using p(4) by simp
  from 1(6) [unfolded raw] show ?thesis
  proof (elim disjE conjE exE)
    assume x: "e = CHR 0x7D" "xs = [(unquoteBody key, p, v)]" "r = es"
    show ?thesis
    proof (rule reads_atI)
      show "s = ?p @ r" "?p \<noteq> []" using s x by simp_all
      fix d' r' assume "d' \<le> d" "r' = [] \<or> take 1 r' = take 1 r"
      with p(5) [of d' "w3 @ [e]" es r'] w3 x show "scanMembers d' (?p @ r') = Some (xs, r')" by (subst head) auto
    qed
  next
    fix ms assume x: "e = CHR '',''" "length es < length s" "scanMembers d (skipSpace es) = Some (ms, r)"
      "xs = (unquoteBody key, p, v) # ms"
    obtain w4 p4 where q: "es = w4 @ p4 @ r" "p4 \<noteq> []" "\<And>t. skipSpace (w4 @ p4 @ t) = p4 @ t"
        "\<And>d' q t t'. d' \<le> d \<Longrightarrow> r = q @ t \<Longrightarrow> t' = [] \<or> take 1 t' = take 1 t \<Longrightarrow> scanMembers d' (p4 @ q @ t') = Some (ms, q @ t')"
      using reads_at_skip [OF rec [OF x(2,3)]] by blast
    show ?thesis
    proof (rule reads_atI)
      show "s = (?p @ w4 @ p4) @ r" "?p @ w4 @ p4 \<noteq> []" using s q by simp_all
      fix d' r' assume d': "d' \<le> d" and r': "r' = [] \<or> take 1 r' = take 1 r"
      have "scanMembers d' (p4 @ r') = Some (ms, r')" using q(4) [of d' "[]" r r'] d' r' by simp
      moreover have "scanValue d' (p @ w3 @ e # w4 @ p4 @ r') = Some (v, w3 @ e # w4 @ p4 @ r')"
        using p(5) [of d' "w3 @ e # w4 @ p4" r r'] w3 q d' r' by simp
      ultimately show "scanMembers d' ((?p @ w4 @ p4) @ r') = Some (xs, r')"
        using head [of d' "w4 @ p4 @ r'"] q(3) x by simp
    qed
  qed
qed

text \<open>Reading a value depends on nothing but its text.\<close>

lemma scan_local:
  "scanValue d s = Some (v, r) \<Longrightarrow> reads_at scanValue d v s r"
  "scanElements d s = Some (vs, r) \<Longrightarrow> reads_at scanElements d vs s r"
  "scanMembers d s = Some (ms, r) \<Longrightarrow> reads_at scanMembers d ms s r"
proof (induction "length s" arbitrary: d s v vs ms r rule: less_induct)
  case less
  have v: "reads_at scanValue d v s r" if sv: "scanValue d s = Some (v, r)" for d v r
  proof -
    obtain c cs where s: "s = c # cs" using sv by (cases s) (auto simp: scanValue_simps)
    show ?thesis
    proof (cases "c = CHR ''['' \<or> c = CHR 0x7B")
      case True
      have "length (skipSpace cs) < length s" using s by (simp add: less_Suc_eq_le)
      with scanValue_bracket_local [OF sv [unfolded s] True] less show ?thesis unfolding s by blast
    next
      case False
      then have "scanScalar s = Some (v, r)" using sv by (simp add: s scanValue_simps)
      from scanScalar_local [OF this] obtain p where p: "s = p @ r" "p \<noteq> []" "local_at scanScalar v p r" by blast
      then obtain p' where "p = c # p'" using s by (cases p) auto
      with p False show ?thesis
        by (intro reads_atI [of _ p]) (auto simp: local_at_def scanValue_simps)
    qed
  qed
  have sk: "length (skipSpace cs) < length s" if "length cs < length s" for cs
    using length_skipSpace that by (rule le_less_trans)
  { case 1 then show ?case by (rule v) }
  { case 2
    then show ?case
      by (rule scanElements_local) (use v less sk in blast)+ }
  { case 3
    then show ?case
      by (rule scanMembers_local) (use less sk in blast)+ }
qed

lemma scanValue_alone:
  assumes "scanValue d s = Some (v, r)"
  shows "scanValue 0 (take (length s - length r) s) = Some (v, [])" "s = take (length s - length r) s @ r"
proof -
  obtain p where p: "s = p @ r"
      "\<And>d' q t t'. d' \<le> d \<Longrightarrow> r = q @ t \<Longrightarrow> t' = [] \<or> take 1 t' = take 1 t \<Longrightarrow> scanValue d' (p @ q @ t') = Some (v, q @ t')"
    using reads_atE [OF scan_local(1) [OF assms]] by blast
  from p(2) [of 0 "[]" r "[]"] p(1) show "scanValue 0 (take (length s - length r) s) = Some (v, [])"
    "s = take (length s - length r) s @ r" by simp_all
qed

lemma raw_value_valid:
  assumes "scanValue d (skipSpace s) = Some (v, r)"
  shows "jsonValid (take (length (skipSpace s) - length r) (skipSpace s))"
proof -
  let ?p = "take (length (skipSpace s) - length r) (skipSpace s)"
  note a = scanValue_alone [OF assms]
  then have "?p \<noteq> []" by (auto simp: scanValue_simps)
  then obtain c p' where p: "?p = c # p'" by (cases ?p) auto
  then have "skipSpace s = c # p' @ r" using a(2) by simp
  then have "\<not> isJsonSpace c" by (metis hd_dropWhile list.distinct(1) list.sel(1) skipSpace_def)
  then have "skipSpace ?p = ?p" by (simp only: p) (simp add: skipSpace_def)
  with a(1) show ?thesis by (simp add: jsonValid_def skipSpace_def)
qed

lemma jsonValid_nonempty: "jsonValid s \<Longrightarrow> s \<noteq> []"
  by (cases s) (auto simp: jsonValid_def skipSpace_def scanValue_simps)

text \<open>The text of every member of an object is valid by itself.\<close>

lemma scanMembers_raw_valid: "scanMembers d s = Some (ms, r) \<Longrightarrow> (k, raw, v) \<in> set ms \<Longrightarrow> jsonValid raw \<and> raw \<noteq> []"
proof (induction "length s" arbitrary: s ms rule: less_induct)
  case less
  from less(2) show ?case
  proof (cases rule: scanMembers_cases)
    case (1 qs key r1 cs v' r2 e es)
    let ?raw = "take (length (skipSpace cs) - length r2) (skipSpace cs)"
    have ok: "jsonValid ?raw" by (rule raw_value_valid [OF 1(4)])
    then have "?raw \<noteq> []" by (rule jsonValid_nonempty)
    moreover have "jsonValid raw \<and> raw \<noteq> []"
      if "length es < length s" "scanMembers d (skipSpace es) = Some (ms', r)" "(k, raw, v) \<in> set ms'" for ms'
      using le_less_trans [OF length_skipSpace that(1)] that(2,3) by (rule less(1))
    ultimately show ?thesis using ok 1(6) less(3) by auto
  qed
qed

lemma scanValue_object:
  assumes "scanValue d s = Some (JObject ms, r)"
  shows "\<exists>cs. s = CHR 0x7B # cs \<and> (ms = [] \<or> scanMembers (Suc d) (skipSpace cs) = Some (ms, r))"
proof -
  obtain c cs where s: "s = c # cs" using assms by (cases s) (auto simp: scanValue_simps)
  have "c = CHR 0x7B"
  proof (rule ccontr)
    assume "c \<noteq> CHR 0x7B"
    with assms show False
      by (cases "c = CHR ''[''")
        (auto simp: s scanValue_simps scanScalar_def scanLiteral_def split: if_splits list.splits)
  qed
  then show ?thesis using assms by (auto simp: s scanValue_simps split: if_splits list.splits)
qed

lemma object_raw_valid:
  assumes "scanValue d s = Some (JObject ms, r)" "(k, raw, v) \<in> set ms"
  shows "jsonValid raw"
  using scanValue_object [OF assms(1)] scanMembers_raw_valid assms(2) by fastforce

text \<open>It is a piece of the text that was read.\<close>

lemma skipSpace_sublist: "sublist (skipSpace s) s"
  unfolding skipSpace_def by (metis sublist_appendI append_Nil2 takeWhile_dropWhile_id)

lemma scanMembers_raw_sublist: "scanMembers d s = Some (ms, r) \<Longrightarrow> (k, raw, v) \<in> set ms \<Longrightarrow> sublist raw s"
proof (induction "length s" arbitrary: s ms rule: less_induct)
  case less
  from less(2) show ?case
  proof (cases rule: scanMembers_cases)
    case (1 qs key r1 cs v' r2 e es)
    let ?raw = "take (length (skipSpace cs) - length r2) (skipSpace cs)"
    obtain a where a: "qs = a @ r1" using scanString_local [OF 1(2)] by blast
    obtain b where b: "r1 = b @ CHR '':'' # cs" using skipSpace_split [OF 1(3)] by blast
    obtain c where c: "cs = c @ skipSpace cs" by (metis skipSpace_def takeWhile_dropWhile_id)
    have r2: "skipSpace cs = ?raw @ r2" by (rule scanValue_alone(2) [OF 1(4)])
    obtain f where f: "r2 = f @ e # es" using skipSpace_split [OF 1(5)] by blast
    obtain g where g: "es = g @ skipSpace es" by (metis skipSpace_def takeWhile_dropWhile_id)
    have s: "s = (CHR 0x22 # a @ b @ CHR '':'' # c) @ ?raw @ r2" using 1(1) a b c r2 by simp
    then have "s = ((CHR 0x22 # a @ b @ CHR '':'' # c) @ ?raw @ f @ e # g) @ skipSpace es" using f g by simp
    then have tail: "sublist (skipSpace es) s" by (metis append_Nil2 sublist_appendI)
    have "sublist ?raw s" using s by (metis sublist_appendI)
    moreover have "sublist raw s"
      if "length es < length s" "scanMembers d (skipSpace es) = Some (ms', r)" "(k, raw, v) \<in> set ms'" for ms'
    proof -
      have "sublist raw (skipSpace es)" using le_less_trans [OF length_skipSpace that(1)] that(2,3) by (rule less(1))
      then show ?thesis using tail by (rule sublist_order.order_trans)
    qed
    ultimately show ?thesis using 1(6) less(3) by auto
  qed
qed

lemma object_raw_sublist:
  assumes "scanValue d s = Some (JObject ms, r)" "(k, raw, v) \<in> set ms"
  shows "sublist raw s"
proof -
  obtain cs where s: "s = CHR 0x7B # cs" and m: "ms = [] \<or> scanMembers (Suc d) (skipSpace cs) = Some (ms, r)"
    using scanValue_object [OF assms(1)] by blast
  from m assms(2) have "sublist raw (skipSpace cs)" by (auto dest: scanMembers_raw_sublist)
  then have "sublist raw cs" using skipSpace_sublist by (rule sublist_order.order_trans)
  then show ?thesis by (simp add: s sublist_Cons_right)
qed

section \<open>Decoding into a struct\<close>

text \<open>\<open>foldName\<close>: two runes outside ASCII fold to an ASCII letter, the long s and the Kelvin sign.\<close>

fun foldName :: "string \<Rightarrow> string" where
  "foldName [] = []"
| "foldName (a # b # c # s) =
     (if a = CHR 0xC5 \<and> b = CHR 0xBF then CHR ''S'' # foldName (c # s)
      else if a = CHR 0xE2 \<and> b = CHR 0x84 \<and> c = CHR 0xAA then CHR ''K'' # foldName s
      else asciiUpper a # foldName (b # c # s))"
| "foldName [a, b] = (if a = CHR 0xC5 \<and> b = CHR 0xBF then ''S'' else [asciiUpper a, asciiUpper b])"
| "foldName [a] = [asciiUpper a]"

text \<open>The field a key selects: an exact match before one up to folding.\<close>

definition fieldOf :: "string list \<Rightarrow> string \<Rightarrow> string option" where
  "fieldOf names key = (if key \<in> set names then Some key else find (\<lambda>n. foldName n = foldName key) names)"

text \<open>The members of an object are stored one after the other; a failure of one is remembered and makes the whole
  decoding fail.\<close>

fun storeMembers :: "(string \<Rightarrow> string \<times> string \<times> json \<Rightarrow> 'a \<Rightarrow> 'a option) \<Rightarrow> string list \<Rightarrow> bool
    \<Rightarrow> (string \<times> string \<times> json) list \<Rightarrow> 'a \<Rightarrow> 'a option" where
  "storeMembers store names strict [] x = Some x"
| "storeMembers store names strict (m # ms) x =
     (case fieldOf names (fst m) of
        None \<Rightarrow> if strict then None else storeMembers store names strict ms x
      | Some n \<Rightarrow> (case store n m x of None \<Rightarrow> None | Some y \<Rightarrow> storeMembers store names strict ms y))"

text \<open>A JSON \<open>null\<close> leaves a struct as it is.\<close>

definition decodeStruct :: "(string \<Rightarrow> string \<times> string \<times> json \<Rightarrow> 'a \<Rightarrow> 'a option) \<Rightarrow> string list \<Rightarrow> bool \<Rightarrow> 'a \<Rightarrow> json \<Rightarrow> 'a option" where
  "decodeStruct store names strict zero v =
     (case v of JObject ms \<Rightarrow> storeMembers store names strict ms zero | JNull \<Rightarrow> Some zero | _ \<Rightarrow> None)"

text \<open>Storing into fields of the types \<open>string\<close>, \<open>*string\<close> and \<open>int\<close>.\<close>

definition storeString :: "json \<Rightarrow> string \<Rightarrow> string option" where
  "storeString v old = (case v of JString s \<Rightarrow> Some s | JNull \<Rightarrow> Some old | _ \<Rightarrow> None)"

definition storeStringPtr :: "json \<Rightarrow> string option option" where
  "storeStringPtr v = (case v of JString s \<Rightarrow> Some (Some s) | JNull \<Rightarrow> Some None | _ \<Rightarrow> None)"

definition storeInt :: "json \<Rightarrow> int \<Rightarrow> int option" where
  "storeInt v old = (case v of JNumber s \<Rightarrow> ParseInt s | JNull \<Rightarrow> Some old | _ \<Rightarrow> None)"

lemma storeMembers_inv:
  assumes "storeMembers store names strict ms x = Some y" "I x"
    and "\<And>n m x y. m \<in> set ms \<Longrightarrow> store n m x = Some y \<Longrightarrow> I x \<Longrightarrow> I y"
  shows "I y"
  using assms
proof (induction ms arbitrary: x)
  case (Cons m ms)
  have step: "\<And>n m' x y. m' \<in> set ms \<Longrightarrow> store n m' x = Some y \<Longrightarrow> I x \<Longrightarrow> I y" using Cons.prems(3) by (metis list.set_intros(2))
  show ?case
  proof (cases "fieldOf names (fst m)")
    case None
    with Cons.prems(1) have "storeMembers store names strict ms x = Some y" by (auto split: if_splits)
    then show ?thesis using Cons.prems(2) step by (rule Cons.IH)
  next
    case (Some n)
    with Cons.prems(1) obtain z where z: "store n m x = Some z" "storeMembers store names strict ms z = Some y"
      by (auto split: option.splits)
    have "I z" by (rule Cons.prems(3) [OF _ z(1) Cons.prems(2)]) simp
    with z(2) show ?thesis using step by (rule Cons.IH)
  qed
qed simp

end
