(* ===== verification/World.thy ===== *)
theory World
  imports Schema Metrics Json
begin

text \<open>
  The state the program runs in, and what it is handed from outside. The record \<open>env\<close>
  collects everything that is not the program's own choice: how each statement sent to Postgres
  fares, the clocks, the random bytes, the errors of execution contexts. Each is a sequence
  indexed by the number of the call, and every theorem quantifies over all of them. The Redis
  client is a record of functions over an opaque server state \<open>'r\<close>, an argument of the
  definitions that use it.
\<close>

section \<open>Postgres, from the client's side\<close>

text \<open>
  How one statement fares. \<open>pgOthers\<close> is what other sessions committed since this session's
  previous statement; \<open>pgLate\<close> is what they commit between the statement's snapshot and its
  check of the unique index; \<open>pgScan\<close> is the order in which the planner visits the rows it
  selects, before any \<open>ORDER BY\<close>; \<open>pgNow\<close> is \<open>NOW()\<close>. A faulty call returns an error,
  either before the statement took effect or after, with the reply lost.
\<close>

datatype pg_fault = NoFault | FaultBefore goerror | FaultAfter goerror

record pg_call =
  pgOthers :: "task_row list \<Rightarrow> task_row list"
  pgLate :: "task_row list \<Rightarrow> task_row list"
  pgScan :: "task_row list \<Rightarrow> task_row list"
  pgNow :: Time
  pgFault :: pg_fault

section \<open>HTTP, from the client's side\<close>

record HttpRequest =
  rqMethod :: string
  rqURL :: string
  rqHeader :: "(string \<times> string) list"
  rqBody :: string

text \<open>\<open>client.Do\<close>: the n-th request is answered with a status code or an error.\<close>

type_synonym http_client = "nat \<Rightarrow> HttpRequest \<Rightarrow> goerror + int"

text \<open>The payload of a webhook task; a nil \<open>json.RawMessage\<close> is \<open>None\<close>.\<close>

record webhookDeliverPayload =
  URL :: string
  Method :: string
  Headers :: "(string \<times> string) list"
  Body :: "string option"

text \<open>The body of a request to create a task; an absent field has the zero value of its type.\<close>

record createTaskRequest =
  crTaskType :: string
  crPayload :: string
  crIdempotencyKey :: "string option"
  crTraceID :: "string option"
  crRunAt :: "Time option"
  crTimeoutSeconds :: int
  crMaxRetries :: int

section \<open>The environment\<close>

text \<open>
  \<open>envTimestamptz\<close> and \<open>envJsonb\<close> are the conversions of the column types
  \<open>TIMESTAMPTZ\<close> (microseconds) and \<open>JSONB\<close> (normalised text); \<open>envQuote\<close> is
  \<open>strconv.Quote\<close>; \<open>envCtxErr\<close> is what \<open>ctx.Err()\<close> answers.
  \<open>envToUpper\<close> is \<open>strings.ToUpper\<close> on text outside ASCII, \<open>envParseURL\<close> the
  error of \<open>url.Parse\<close>, \<open>envMapOrder\<close> the order in which the runtime iterates a map,
  \<open>envJsonError\<close> the error value for a text that \<open>encoding/json\<close> refuses, \<open>envParseTime\<close> the
  parser of \<open>time.Time\<close> for the text between the quotes, and
  \<open>envDefaultClient\<close> is \<open>http.DefaultClient\<close>.
\<close>

record env =
  envPg :: "nat \<Rightarrow> pg_call"
  envTimestamptz :: "Time \<Rightarrow> Time"
  envJsonb :: "string \<Rightarrow> string"
  envClock :: "nat \<Rightarrow> Time"
  envRand :: "nat \<Rightarrow> nat \<Rightarrow> 8 word"
  envCtxErr :: "nat \<Rightarrow> goerror option"
  envQuote :: "string \<Rightarrow> string"
  envToUpper :: "string \<Rightarrow> string"
  envParseURL :: "string \<Rightarrow> goerror option"
  envMapOrder :: "(string \<times> string) list \<Rightarrow> (string \<times> string) list"
  envJsonError :: "string \<Rightarrow> goerror"
  envParseTime :: "string \<Rightarrow> Time option"
  envDefaultClient :: http_client

section \<open>Redis, from the client's side\<close>

text \<open>A field value of a stream entry, as \<open>map[string]any\<close> holds it.\<close>

datatype rval = RString string | RBytes string | RInt int

record XMessage =
  xmID :: string
  xmValues :: "string \<rightharpoonup> rval"

record 'r redis_client =
  rcXAdd :: "string \<Rightarrow> (string \<rightharpoonup> rval) \<Rightarrow> 'r \<Rightarrow> (goerror + string) \<times> 'r"
  rcZAdd :: "string \<Rightarrow> int \<Rightarrow> string \<Rightarrow> 'r \<Rightarrow> goerror option \<times> 'r"
  rcZRangeByScore :: "string \<Rightarrow> string \<Rightarrow> string \<Rightarrow> int \<Rightarrow> 'r \<Rightarrow> (goerror + string list) \<times> 'r"
  rcZRem :: "string \<Rightarrow> string \<Rightarrow> 'r \<Rightarrow> goerror option \<times> 'r"
  rcXGroupCreateMkStream :: "string \<Rightarrow> string \<Rightarrow> string \<Rightarrow> 'r \<Rightarrow> goerror option \<times> 'r"
  rcXReadGroup :: "string \<Rightarrow> string \<Rightarrow> string \<Rightarrow> int \<Rightarrow> Duration \<Rightarrow> 'r
     \<Rightarrow> (goerror + (string \<times> XMessage list) list) \<times> 'r"
  rcXPendingExt :: "string \<Rightarrow> string \<Rightarrow> Duration \<Rightarrow> string \<Rightarrow> string \<Rightarrow> int \<Rightarrow> 'r
     \<Rightarrow> (goerror + string list) \<times> 'r"
  rcXClaim :: "string \<Rightarrow> string \<Rightarrow> string \<Rightarrow> Duration \<Rightarrow> string list \<Rightarrow> 'r
     \<Rightarrow> (goerror + XMessage list) \<times> 'r"
  rcXAck :: "string \<Rightarrow> string \<Rightarrow> string \<Rightarrow> 'r \<Rightarrow> goerror option \<times> 'r"

text \<open>
  The commands with an effect that were sent to Redis, in order, each with whether the reply was
  a success. The program never reads this record; the theorems do.
\<close>

datatype redis_cmd =
    CmdXAdd string "string \<rightharpoonup> rval" bool
  | CmdZAdd string int string bool
  | CmdZRem string string bool
  | CmdXAck string string string bool
  | CmdXGroupCreate string string bool
  | CmdXClaim string string "string list" bool

section \<open>The world\<close>

record 'r world =
  wEnv :: env
  wTable :: "task_row list"
  wPgCalls :: nat
  wClockReads :: nat
  wRandReads :: nat
  wCtxReads :: nat
  wRedis :: 'r
  wSent :: "redis_cmd list"
  wHttp :: "HttpRequest list"
  wMetrics :: Registry

text \<open>\<open>time.Now()\<close>.\<close>

definition timeNow :: "'r world \<Rightarrow> Time \<times> 'r world" where
  "timeNow w = (envClock (wEnv w) (wClockReads w), w\<lparr>wClockReads := Suc (wClockReads w)\<rparr>)"

text \<open>\<open>rand.Read\<close> into an array of \<open>n\<close> bytes; from Go 1.24 on it does not fail.\<close>

definition randRead :: "nat \<Rightarrow> 'r world \<Rightarrow> 8 word list \<times> 'r world" where
  "randRead n w = (map (envRand (wEnv w) (wRandReads w)) [0..<n], w\<lparr>wRandReads := Suc (wRandReads w)\<rparr>)"

text \<open>\<open>ctx.Err()\<close>.\<close>

definition ctxErr :: "'r world \<Rightarrow> goerror option \<times> 'r world" where
  "ctxErr w = (envCtxErr (wEnv w) (wCtxReads w), w\<lparr>wCtxReads := Suc (wCtxReads w)\<rparr>)"

text \<open>\<open>client.Do(req)\<close>; the requests that went out are recorded in order.\<close>

definition httpDo :: "http_client \<Rightarrow> HttpRequest \<Rightarrow> 'r world \<Rightarrow> (goerror + int) \<times> 'r world" where
  "httpDo client req w = (client (length (wHttp w)) req, w\<lparr>wHttp := wHttp w @ [req]\<rparr>)"

text \<open>\<open>if s.metrics != nil { s.metrics.f() }\<close>; the registry itself lives in the world.\<close>

definition withMetrics :: "bool \<Rightarrow> (Registry \<Rightarrow> Registry) \<Rightarrow> 'r world \<Rightarrow> 'r world" where
  "withMetrics present f w = (if present then w\<lparr>wMetrics := f (wMetrics w)\<rparr> else w)"

text \<open>
  One statement on the connection pool: the statement runs on the table as the other sessions
  left it, unless the call fails first.
\<close>

definition pgExec ::
  "(pg_call \<Rightarrow> task_row list \<Rightarrow> (goerror + 'a) \<times> task_row list) \<Rightarrow> 'r world \<Rightarrow> (goerror + 'a) \<times> 'r world"
where
  "pgExec stmt w =
     (let c = envPg (wEnv w) (wPgCalls w);
          w1 = w\<lparr>wPgCalls := Suc (wPgCalls w), wTable := pgOthers c (wTable w)\<rparr>
      in case pgFault c of
           FaultBefore e \<Rightarrow> (Inl e, w1)
         | FaultAfter e \<Rightarrow> (Inl e, w1\<lparr>wTable := snd (stmt c (wTable w1))\<rparr>)
         | NoFault \<Rightarrow> (case stmt c (wTable w1) of (r, t) \<Rightarrow> (r, w1\<lparr>wTable := t\<rparr>)))"

text \<open>The commands sent through the Redis client.\<close>

definition redisXAdd :: "'r redis_client \<Rightarrow> string \<Rightarrow> (string \<rightharpoonup> rval) \<Rightarrow> 'r world \<Rightarrow> (goerror + string) \<times> 'r world" where
  "redisXAdd c stream vals w =
     (case rcXAdd c stream vals (wRedis w) of (r, rs) \<Rightarrow>
        (r, w\<lparr>wRedis := rs, wSent := wSent w @ [CmdXAdd stream vals (\<not> isl r)]\<rparr>))"

definition redisZAdd :: "'r redis_client \<Rightarrow> string \<Rightarrow> int \<Rightarrow> string \<Rightarrow> 'r world \<Rightarrow> goerror option \<times> 'r world" where
  "redisZAdd c key score member w =
     (case rcZAdd c key score member (wRedis w) of (r, rs) \<Rightarrow>
        (r, w\<lparr>wRedis := rs, wSent := wSent w @ [CmdZAdd key score member (r = None)]\<rparr>))"

definition redisZRangeByScore :: "'r redis_client \<Rightarrow> string \<Rightarrow> string \<Rightarrow> string \<Rightarrow> int \<Rightarrow> 'r world \<Rightarrow> (goerror + string list) \<times> 'r world" where
  "redisZRangeByScore c key start stop cnt w =
     (case rcZRangeByScore c key start stop cnt (wRedis w) of (r, rs) \<Rightarrow> (r, w\<lparr>wRedis := rs\<rparr>))"

definition redisZRem :: "'r redis_client \<Rightarrow> string \<Rightarrow> string \<Rightarrow> 'r world \<Rightarrow> goerror option \<times> 'r world" where
  "redisZRem c key member w =
     (case rcZRem c key member (wRedis w) of (r, rs) \<Rightarrow>
        (r, w\<lparr>wRedis := rs, wSent := wSent w @ [CmdZRem key member (r = None)]\<rparr>))"

definition redisXGroupCreateMkStream :: "'r redis_client \<Rightarrow> string \<Rightarrow> string \<Rightarrow> string \<Rightarrow> 'r world \<Rightarrow> goerror option \<times> 'r world" where
  "redisXGroupCreateMkStream c stream grp start w =
     (case rcXGroupCreateMkStream c stream grp start (wRedis w) of (r, rs) \<Rightarrow>
        (r, w\<lparr>wRedis := rs, wSent := wSent w @ [CmdXGroupCreate stream grp (r = None)]\<rparr>))"

definition redisXReadGroup :: "'r redis_client \<Rightarrow> string \<Rightarrow> string \<Rightarrow> string \<Rightarrow> int \<Rightarrow> Duration \<Rightarrow> 'r world
    \<Rightarrow> (goerror + (string \<times> XMessage list) list) \<times> 'r world" where
  "redisXReadGroup c grp consumer stream cnt block w =
     (case rcXReadGroup c grp consumer stream cnt block (wRedis w) of (r, rs) \<Rightarrow> (r, w\<lparr>wRedis := rs\<rparr>))"

definition redisXPendingExt :: "'r redis_client \<Rightarrow> string \<Rightarrow> string \<Rightarrow> Duration \<Rightarrow> string \<Rightarrow> string \<Rightarrow> int \<Rightarrow> 'r world
    \<Rightarrow> (goerror + string list) \<times> 'r world" where
  "redisXPendingExt c stream grp idle start stop cnt w =
     (case rcXPendingExt c stream grp idle start stop cnt (wRedis w) of (r, rs) \<Rightarrow> (r, w\<lparr>wRedis := rs\<rparr>))"

definition redisXClaim :: "'r redis_client \<Rightarrow> string \<Rightarrow> string \<Rightarrow> string \<Rightarrow> Duration \<Rightarrow> string list \<Rightarrow> 'r world
    \<Rightarrow> (goerror + XMessage list) \<times> 'r world" where
  "redisXClaim c stream grp consumer minIdle ids w =
     (case rcXClaim c stream grp consumer minIdle ids (wRedis w) of (r, rs) \<Rightarrow>
        (r, w\<lparr>wRedis := rs, wSent := wSent w @ [CmdXClaim stream grp ids (\<not> isl r)]\<rparr>))"

definition redisXAck :: "'r redis_client \<Rightarrow> string \<Rightarrow> string \<Rightarrow> string \<Rightarrow> 'r world \<Rightarrow> goerror option \<times> 'r world" where
  "redisXAck c stream grp i w =
     (case rcXAck c stream grp i (wRedis w) of (r, rs) \<Rightarrow>
        (r, w\<lparr>wRedis := rs, wSent := wSent w @ [CmdXAck stream grp i (r = None)]\<rparr>))"

lemmas redis_defs = redisXAdd_def redisZAdd_def redisZRangeByScore_def redisZRem_def
  redisXGroupCreateMkStream_def redisXReadGroup_def redisXPendingExt_def redisXClaim_def redisXAck_def

end
