(* ===== verification/TableSpec.thy ===== *)
theory TableSpec
  imports World
begin

text \<open>
  The abstract specification of the \<open>tasks\<close> table: the steps a row may take in its life
  (\<open>row_step\<close>), the steps of the whole table (\<open>db_step\<close>), the invariant they keep
  (\<open>db_inv\<close>) and what any number of such steps cannot do. The store refines this
  specification statement by statement, and the same relation bounds what other sessions do to
  the table between two statements of one session.
\<close>

section \<open>Steps\<close>

inductive row_step :: "task_row \<Rightarrow> task_row \<Rightarrow> bool" where
  dispatch: "c_status r = StatusScheduled \<or> c_status r = StatusRetrying \<Longrightarrow>
    row_step r (r\<lparr>c_status := StatusPending, c_next_retry_at := None, c_updated_at := now\<rparr>)"
| claim: "c_status r = StatusPending \<Longrightarrow>
    row_step r (r\<lparr>c_status := StatusRunning, c_worker_id := Some wid, c_started_at := Some now,
                  c_updated_at := now\<rparr>)"
| succeed: "c_status r = StatusRunning \<Longrightarrow>
    row_step r (r\<lparr>c_status := StatusSuccess, c_finished_at := Some now, c_updated_at := now\<rparr>)"
| fail: "c_status r = StatusRunning \<Longrightarrow>
    row_step r (r\<lparr>c_status := StatusFailed, c_last_error := Some msg, c_updated_at := now\<rparr>)"
| retry: "c_status r = StatusFailed \<Longrightarrow> 1 \<le> n \<Longrightarrow> n \<le> c_max_retries r \<Longrightarrow>
    row_step r (r\<lparr>c_status := StatusRetrying, c_retry_count := n, c_next_retry_at := Some t,
                  c_last_error := Some msg, c_updated_at := now\<rparr>)"
| die: "c_status r = StatusFailed \<Longrightarrow> 0 \<le> n \<Longrightarrow> n \<le> c_max_retries r \<Longrightarrow>
    row_step r (r\<lparr>c_status := StatusDead, c_retry_count := n, c_next_retry_at := None,
                  c_last_error := Some msg, c_finished_at := Some now, c_updated_at := now\<rparr>)"

text \<open>A row as it is first inserted.\<close>

definition new_row :: "task_row \<Rightarrow> bool" where
  "new_row r \<longleftrightarrow> (c_status r = StatusPending \<or> c_status r = StatusScheduled)
     \<and> c_retry_count r = 0 \<and> c_next_retry_at r = None \<and> c_last_error r = None
     \<and> c_worker_id r = None \<and> c_started_at r = None \<and> c_finished_at r = None
     \<and> c_updated_at r = c_created_at r"

inductive db_step :: "task_row list \<Rightarrow> task_row list \<Rightarrow> bool" where
  insert: "new_row r \<Longrightarrow> tasks_check r \<Longrightarrow> c_id r \<notin> c_id ` set t \<Longrightarrow>
    c_idempotency_key r = None \<or> c_idempotency_key r \<notin> c_idempotency_key ` set t \<Longrightarrow>
    db_step t (t @ [r])"
| update: "row_step r r' \<Longrightarrow> db_step (xs @ r # ys) (xs @ r' # ys)"

abbreviation db_steps :: "task_row list \<Rightarrow> task_row list \<Rightarrow> bool" where
  "db_steps \<equiv> db_step\<^sup>*\<^sup>*"

section \<open>The invariant\<close>

text \<open>What the columns of one row say about each other.\<close>

definition row_inv :: "task_row \<Rightarrow> bool" where
  "row_inv r \<longleftrightarrow>
     tasks_check r
     \<and> (c_next_retry_at r \<noteq> None \<longleftrightarrow> c_status r = StatusRetrying)
     \<and> (c_finished_at r \<noteq> None \<longleftrightarrow> IsTerminal (c_status r))
     \<and> (c_status r \<in> {StatusRunning, StatusSuccess, StatusFailed, StatusRetrying, StatusDead}
          \<longrightarrow> c_started_at r \<noteq> None \<and> c_worker_id r \<noteq> None)
     \<and> (c_status r \<in> {StatusFailed, StatusRetrying, StatusDead} \<longrightarrow> c_last_error r \<noteq> None)
     \<and> (c_status r = StatusScheduled \<longrightarrow> c_retry_count r = 0 \<and> c_started_at r = None)
     \<and> (c_status r = StatusRetrying \<longrightarrow> 1 \<le> c_retry_count r)"

definition db_inv :: "task_row list \<Rightarrow> bool" where
  "db_inv t \<longleftrightarrow> table_ok t \<and> (\<forall>r \<in> set t. row_inv r)"

lemma db_inv_table_ok [dest]: "db_inv t \<Longrightarrow> table_ok t"
  by (simp add: db_inv_def)

lemma db_inv_row: "db_inv t \<Longrightarrow> r \<in> set t \<Longrightarrow> row_inv r"
  by (simp add: db_inv_def)

lemma db_inv_empty [simp]: "db_inv []"
  by (simp add: db_inv_def table_ok_def)

text \<open>The columns no step ever writes.\<close>

definition identity :: "task_row \<Rightarrow> _" where
  "identity r = (c_id r, c_task_type r, c_payload r, c_idempotency_key r, c_trace_id r, c_run_at r,
     c_timeout_seconds r, c_max_retries r, c_created_at r)"

definition same_identity :: "task_row \<Rightarrow> task_row \<Rightarrow> bool" where
  "same_identity r r' \<longleftrightarrow> identity r' = identity r"

lemma same_identity_refl [simp]: "same_identity r r"
  by (simp add: same_identity_def)

lemma same_identity_trans: "same_identity a b \<Longrightarrow> same_identity b c \<Longrightarrow> same_identity a c"
  by (simp add: same_identity_def)

lemma same_identityD:
  assumes "same_identity r r'"
  shows "c_id r' = c_id r" "c_task_type r' = c_task_type r" "c_payload r' = c_payload r"
    "c_idempotency_key r' = c_idempotency_key r" "c_trace_id r' = c_trace_id r"
    "c_run_at r' = c_run_at r" "c_timeout_seconds r' = c_timeout_seconds r"
    "c_max_retries r' = c_max_retries r" "c_created_at r' = c_created_at r"
  using assms by (simp_all add: same_identity_def identity_def)

lemma row_step_identity: "row_step r r' \<Longrightarrow> same_identity r r'"
  by (induction rule: row_step.induct) (auto simp: same_identity_def identity_def)

lemma row_step_lifecycle: "row_step r r' \<Longrightarrow> CanTransition (c_status r) (c_status r')"
  by (induction rule: row_step.induct) (auto simp: CanTransition_iff)

lemma row_step_inv: "row_step r r' \<Longrightarrow> row_inv r \<Longrightarrow> row_inv r'"
proof (induction rule: row_step.induct)
  case (dispatch r now)
  from dispatch(1) show ?case
    using dispatch(2) by (elim disjE) (simp_all add: row_inv_def tasks_check_def tasks_status_check_iff int4_def)
next
  case (claim r wid now)
  then show ?case by (simp add: row_inv_def tasks_check_def tasks_status_check_iff)
next
  case (succeed r now)
  then show ?case by (simp add: row_inv_def tasks_check_def tasks_status_check_iff)
next
  case (fail r msg now)
  then show ?case by (simp add: row_inv_def tasks_check_def tasks_status_check_iff)
next
  case (retry r n t msg now)
  then show ?case by (simp add: row_inv_def tasks_check_def tasks_status_check_iff int4_def)
next
  case (die r n msg now)
  then show ?case by (simp add: row_inv_def tasks_check_def tasks_status_check_iff int4_def)
qed

lemma new_row_inv: "new_row r \<Longrightarrow> tasks_check r \<Longrightarrow> row_inv r"
  by (auto simp: new_row_def row_inv_def)

text \<open>Replacing one row by another with the same key columns keeps the table's constraints.\<close>

lemma table_ok_replace:
  assumes ok: "table_ok (xs @ r # ys)" and same: "same_identity r r'" and chk: "tasks_check r'"
  shows "table_ok (xs @ r' # ys)"
proof -
  have ids: "map c_id (xs @ r' # ys) = map c_id (xs @ r # ys)"
    and keys: "map c_idempotency_key (filter (\<lambda>r. c_idempotency_key r \<noteq> None) (xs @ r' # ys))
      = map c_idempotency_key (filter (\<lambda>r. c_idempotency_key r \<noteq> None) (xs @ r # ys))"
    using same_identityD(1,4) [OF same] by simp_all
  have "\<forall>x \<in> set (xs @ r' # ys). tasks_check x" using ok chk by (simp add: table_ok_def)
  with ok show ?thesis unfolding table_ok_def ids keys by blast
qed

lemma db_step_inv: "db_step t t' \<Longrightarrow> db_inv t \<Longrightarrow> db_inv t'"
proof (induction rule: db_step.induct)
  case (insert r t)
  then have "row_inv r" by (simp add: new_row_inv)
  moreover have "table_ok (t @ [r])" using insert by (auto simp: db_inv_def table_ok_def)
  ultimately show ?case using insert.prems by (simp add: db_inv_def)
next
  case (update r r' xs ys)
  then have r': "row_inv r'" by (auto simp: db_inv_def intro: row_step_inv)
  have "table_ok (xs @ r' # ys)"
    by (rule table_ok_replace [OF _ row_step_identity [OF update.hyps]])
      (use update.prems r' in \<open>auto simp: db_inv_def row_inv_def\<close>)
  with r' update.prems show ?case by (auto simp: db_inv_def)
qed

lemma db_steps_inv: "db_steps t t' \<Longrightarrow> db_inv t \<Longrightarrow> db_inv t'"
  by (induction rule: rtranclp_induct) (auto intro: db_step_inv)

section \<open>What steps cannot do\<close>

text \<open>How one row may look after any number of table steps.\<close>

definition evolves :: "task_row \<Rightarrow> task_row \<Rightarrow> bool" where
  "evolves r r' \<longleftrightarrow> same_identity r r' \<and> lifecycle (c_status r) (c_status r')
     \<and> (IsTerminal (c_status r) \<longrightarrow> r' = r)"

lemma evolves_refl [simp]: "evolves r r"
  by (simp add: evolves_def lifecycle.here)

lemma evolves_trans: "evolves a b \<Longrightarrow> evolves b c \<Longrightarrow> evolves a c"
  by (auto simp: evolves_def intro: same_identity_trans lifecycle_trans)

lemma row_step_evolves: "row_step r r' \<Longrightarrow> evolves r r'"
  by (auto simp: evolves_def dest: row_step_identity row_step_lifecycle CanTransition_not_terminal
      intro: lifecycle_step)

lemma db_step_row:
  assumes "db_step t t'" "distinct (map c_id t)" "row t i = Some r"
  shows "\<exists>r'. row t' i = Some r' \<and> (r' = r \<or> row_step r r')"
  using assms
proof (induction rule: db_step.induct)
  case (insert x t)
  then show ?case by (auto simp: row_def find_append)
next
  case (update x x' xs ys)
  from update.prems have r: "r \<in> set (xs @ x # ys)" "c_id r = i" by (auto simp: row_Some_iff)
  have id: "c_id x' = c_id x" using update.hyps by (auto dest: row_step_identity same_identityD)
  then have d': "distinct (map c_id (xs @ x' # ys))" using update.prems(1) by simp
  show ?case
  proof (cases "c_id x = i")
    case True
    with update.prems r have "r = x" by (auto simp: row_Some_iff)
    then show ?thesis using d' id r update.hyps by (auto simp: row_Some_iff)
  next
    case False
    then show ?thesis using d' r by (auto simp: row_Some_iff)
  qed
qed

lemma db_step_distinct: "db_step t t' \<Longrightarrow> distinct (map c_id t) \<Longrightarrow> distinct (map c_id t')"
proof (induction rule: db_step.induct)
  case (update r r' xs ys)
  then show ?case using same_identityD(1) [OF row_step_identity [OF update.hyps]] by simp
qed auto

lemma db_steps_distinct: "db_steps t t' \<Longrightarrow> distinct (map c_id t) \<Longrightarrow> distinct (map c_id t')"
  by (induction rule: rtranclp_induct) (auto intro: db_step_distinct)

lemma db_steps_row:
  assumes "db_steps t t'" "distinct (map c_id t)" "row t i = Some r"
  shows "\<exists>r'. row t' i = Some r' \<and> evolves r r'"
  using assms
proof (induction rule: rtranclp_induct)
  case (step t' t'')
  then obtain r' where r': "row t' i = Some r'" "evolves r r'" by blast
  have "distinct (map c_id t')" using step by (blast intro: db_steps_distinct)
  with db_step_row [OF step.hyps(2) this r'(1)] r'(2) show ?case
    by (metis evolves_refl evolves_trans row_step_evolves)
qed simp

lemma db_steps_terminal:
  assumes "db_steps t t'" "distinct (map c_id t)" "row t i = Some r" "IsTerminal (c_status r)"
  shows "row t' i = Some r"
  using db_steps_row [OF assms(1-3)] assms(4) by (auto simp: evolves_def)

text \<open>Replacing the one row that a key selects is a table step.\<close>

lemma update_where_key_split:
  assumes "distinct (map k t)" "r \<in> set t"
  obtains xs ys where "t = xs @ r # ys" "update_where (\<lambda>x. k x = k r \<and> q x) f t
      = xs @ (if q r then f r else r) # ys"
proof -
  from assms(2) obtain xs ys where t: "t = xs @ r # ys" by (meson split_list)
  have "k x \<noteq> k r" if "x \<in> set xs \<union> set ys" for x
    using assms(1) that unfolding t by (auto simp: image_iff)
  then have "map (\<lambda>x. if k x = k r \<and> q x then f x else x) zs = zs" if "set zs \<subseteq> set xs \<union> set ys" for zs
    using that by (intro map_idI) auto
  then show thesis by (intro that [OF t]) (auto simp: t update_where_def)
qed

lemma db_steps_update_where:
  assumes d: "distinct (map c_id t)"
    and step: "\<And>r. r \<in> set t \<Longrightarrow> c_id r = i \<Longrightarrow> q r \<Longrightarrow> row_step r (f r)"
  shows "db_steps t (update_where (\<lambda>r. c_id r = i \<and> q r) f t)"
proof (cases "row t i")
  case None
  then have "filter (\<lambda>r. c_id r = i \<and> q r) t = []" by (auto simp: row_None filter_empty_conv)
  then show ?thesis by simp
next
  case (Some r)
  then have r: "r \<in> set t" "c_id r = i" by (auto dest: row_Some_D)
  obtain xs ys where t: "t = xs @ r # ys"
    "update_where (\<lambda>x. c_id x = c_id r \<and> q x) f t = xs @ (if q r then f r else r) # ys"
    using update_where_key_split [OF d r(1), of q f] .
  show ?thesis
  proof (cases "q r")
    case True
    then have "db_step t (xs @ f r # ys)" using step r t(1) by (auto intro: db_step.update)
    then show ?thesis using t r(2) True by auto
  next
    case False
    then show ?thesis using t r(2) by auto
  qed
qed

end
