(* ===== verification/Store.thy ===== *)
theory Store
  imports TableSpec
begin

text \<open>
  The task store of \<open>internal/task/store.go\<close>. Each method sends one SQL statement; the
  statement is a function of the table, written column by column from its text, and \<open>pgExec\<close>
  runs it on the table as the other sessions left it. \<open>Create\<close>, \<open>Get\<close>,
  \<open>Transition\<close>, \<open>MarkFailed\<close> and \<open>CompleteFailure\<close> use \<open>QueryRow\<close>, whose
  scan fails with \<open>pgx.ErrNoRows\<close> when no row comes back; the listing methods use
  \<open>Query\<close>.
\<close>

section \<open>Statements\<close>

text \<open>\<open>QueryRow(\<dots>).Scan\<close>: the first row, or \<open>pgx.ErrNoRows\<close>.\<close>

definition firstRow :: "goerror + 'a list \<Rightarrow> goerror + 'a" where
  "firstRow res = (case res of
     Inl e \<Rightarrow> Inl e
   | Inr [] \<Rightarrow> Inl PgxErrNoRows
   | Inr (x # xs) \<Rightarrow> Inr x)"

text \<open>\<open>if errors.Is(err, pgx.ErrNoRows) { return nil, ErrNotFound }\<close>.\<close>

definition orNotFound :: "goerror + 'a \<Rightarrow> goerror + 'a" where
  "orNotFound res = (case res of
     Inl e \<Rightarrow> if errorsIs e PgxErrNoRows then Inl ErrNotFound else Inl e
   | Inr x \<Rightarrow> Inr x)"

text \<open>
  \<open>UPDATE tasks SET f WHERE p RETURNING \<dots>\<close>: the statement fails as a whole when a new row
  breaks a constraint.
\<close>

definition pgUpdate :: "(task_row \<Rightarrow> bool) \<Rightarrow> (task_row \<Rightarrow> task_row) \<Rightarrow> task_row list
    \<Rightarrow> (goerror + task_row list) \<times> task_row list" where
  "pgUpdate p f t =
     (let updated = map f (filter p t)
      in if list_all tasks_check updated then (Inr updated, update_where p f t)
         else (Inl (External ''check constraint violated''), t))"

text \<open>
  \<open>SELECT \<dots> FROM tasks WHERE p ORDER BY k LIMIT n\<close>. Rows with equal sort keys come in the
  order the planner visits them; a negative limit is refused.
\<close>

definition pgSelect :: "(task_row \<Rightarrow> bool) \<Rightarrow> (task_row \<Rightarrow> 'k::linorder) \<Rightarrow> int \<Rightarrow> pg_call \<Rightarrow> task_row list
    \<Rightarrow> (goerror + task_row list) \<times> task_row list" where
  "pgSelect p k limit c t =
     (if limit < 0 then (Inl (External ''LIMIT must not be negative''), t)
      else (Inr (take (nat limit) (sort_key k (pgScan c (filter p t)))), t))"

section \<open>Methods\<close>

definition newID :: "'r world \<Rightarrow> string \<times> 'r world" where
  "newID w = (case randRead 16 w of (bytes, w1) \<Rightarrow> (''task_'' @ hexEncode bytes, w1))"

text \<open>
  The statement of \<open>Create\<close>. The \<open>INSERT\<close> checks the row, then the unique index on
  \<open>idempotency_key\<close> as it is at that moment (on a conflict it inserts nothing), then the
  primary key. The second branch of the \<open>UNION ALL\<close> reads the statement's snapshot and only
  contributes when nothing was inserted.
\<close>

definition sqlCreate :: "task_row \<Rightarrow> pg_call \<Rightarrow> task_row list
    \<Rightarrow> (goerror + (task_row \<times> bool) list) \<times> task_row list" where
  "sqlCreate r c snapshot =
     (let t = pgLate c snapshot
      in if \<not> tasks_check r then (Inl (External ''check constraint violated''), t)
         else if c_idempotency_key r \<noteq> None \<and> c_idempotency_key r \<in> c_idempotency_key ` set t
         then (Inr (map (\<lambda>x. (x, False))
                 (filter (\<lambda>x. c_idempotency_key x = c_idempotency_key r) snapshot)), t)
         else if c_id r \<in> c_id ` set t then (Inl (External ''duplicate key value''), t)
         else (Inr [(r, True)], t @ [r]))"

text \<open>The row the statement inserts: its nine values, and the defaults of the other columns.\<close>

definition newTaskRow :: "env \<Rightarrow> CreateTaskParams \<Rightarrow> string \<Rightarrow> Status \<Rightarrow> Time \<Rightarrow> task_row" where
  "newTaskRow e params taskID status now =
     \<lparr>c_id = taskID, c_task_type = pType params, c_payload = envJsonb e (pPayload params),
      c_status = status, c_idempotency_key = pIdempotencyKey params,
      c_trace_id = pTraceID params, c_run_at = envTimestamptz e (pRunAt params),
      c_timeout_seconds = pTimeoutSeconds params, c_max_retries = pMaxRetries params,
      c_retry_count = 0, c_next_retry_at = None, c_last_error = None, c_worker_id = None,
      c_started_at = None, c_finished_at = None, c_created_at = now, c_updated_at = now\<rparr>"

definition Create :: "CreateTaskParams \<Rightarrow> 'r world \<Rightarrow> (goerror + Task) \<times> 'r world" where
  "Create params w =
     (case timeNow w of (now, w1) \<Rightarrow>
      let status = (if timeAfter (pRunAt params) now then StatusScheduled else StatusPending)
      in case newID w1 of (taskID, w2) \<Rightarrow>
      case pgExec (\<lambda>c. sqlCreate (newTaskRow (wEnv w2) params taskID status (pgNow c)) c) w2 of (res, w3) \<Rightarrow>
        (map_sum (\<lambda>x. x) scanTaskWithCreationFlag (firstRow res), w3))"

definition Get :: "string \<Rightarrow> 'r world \<Rightarrow> (goerror + Task) \<times> 'r world" where
  "Get i w =
     (case pgExec (\<lambda>c t. (Inr (filter (\<lambda>r. c_id r = i) t), t)) w of (res, w1) \<Rightarrow>
        (orNotFound (map_sum (\<lambda>x. x) scanTask (firstRow res)), w1))"

definition scanRows :: "(goerror + task_row list) \<times> 'r world \<Rightarrow> (goerror + Task list) \<times> 'r world" where
  "scanRows = (\<lambda>(res, w). (map_sum (\<lambda>x. x) (map scanTask) res, w))"

definition dispatchKey :: "task_row \<Rightarrow> Time \<times> Time" where
  "dispatchKey r =
     (case (if c_status r = StatusRetrying then c_next_retry_at r else Some (c_run_at r)) of
        Some t \<Rightarrow> (t, c_created_at r) | None \<Rightarrow> (0, c_created_at r))"

definition dueAt :: "Time \<Rightarrow> Time option \<Rightarrow> bool" where
  "dueAt now t = (case t of None \<Rightarrow> False | Some x \<Rightarrow> x \<le> now)"

definition DueDispatchable :: "Time \<Rightarrow> int \<Rightarrow> 'r world \<Rightarrow> (goerror + Task list) \<times> 'r world" where
  "DueDispatchable now limit w =
     (let n = envTimestamptz (wEnv w) now
      in scanRows (pgExec (pgSelect
           (\<lambda>r. (c_status r = StatusScheduled \<and> c_run_at r \<le> n)
              \<or> (c_status r = StatusRetrying \<and> dueAt n (c_next_retry_at r)))
           dispatchKey limit) w))"

definition DueScheduled :: "Time \<Rightarrow> int \<Rightarrow> 'r world \<Rightarrow> (goerror + Task list) \<times> 'r world" where
  "DueScheduled now limit w = DueDispatchable now limit w"

definition DueRetrying :: "Time \<Rightarrow> int \<Rightarrow> 'r world \<Rightarrow> (goerror + Task list) \<times> 'r world" where
  "DueRetrying now limit w =
     (let n = envTimestamptz (wEnv w) now
      in scanRows (pgExec (pgSelect
           (\<lambda>r. c_status r = StatusRetrying \<and> dueAt n (c_next_retry_at r))
           (\<lambda>r. (case c_next_retry_at r of Some t \<Rightarrow> t | None \<Rightarrow> 0, c_created_at r)) limit) w))"

definition ExpiredRunning :: "Time \<Rightarrow> int \<Rightarrow> 'r world \<Rightarrow> (goerror + Task list) \<times> 'r world" where
  "ExpiredRunning now limit w =
     (let n = envTimestamptz (wEnv w) now
      in scanRows (pgExec (pgSelect
           (\<lambda>r. c_status r = StatusRunning
              \<and> dueAt n (map_option (\<lambda>t. t + c_timeout_seconds r * Second) (c_started_at r)))
           (\<lambda>r. (case c_started_at r of Some t \<Rightarrow> t | None \<Rightarrow> 0, c_created_at r)) limit) w))"

record Snapshot =
  QueueBacklog :: int
  RunningTasks :: int

definition MetricsSnapshot :: "Time \<Rightarrow> 'r world \<Rightarrow> (goerror + Snapshot) \<times> 'r world" where
  "MetricsSnapshot now w =
     (let n = envTimestamptz (wEnv w) now
      in pgExec (\<lambda>c t.
           (Inr \<lparr>QueueBacklog = int (length (filter
                   (\<lambda>r. c_status r = StatusPending
                      \<or> (c_status r = StatusScheduled \<and> c_run_at r \<le> n)
                      \<or> (c_status r = StatusRetrying \<and> dueAt n (c_next_retry_at r))) t)),
                 RunningTasks = int (length (filter (\<lambda>r. c_status r = StatusRunning) t))\<rparr>, t)) w)"

definition CountByStatus :: "'r world \<Rightarrow> (goerror + (Status \<rightharpoonup> int)) \<times> 'r world" where
  "CountByStatus w =
     pgExec (\<lambda>c t. (Inr (\<lambda>s. if s \<in> c_status ` set t
        then Some (int (length (filter (\<lambda>r. c_status r = s) t))) else None), t)) w"

text \<open>\<open>ORDER BY updated_at DESC, created_at DESC\<close>.\<close>

definition recentKey :: "task_row \<Rightarrow> int \<times> int" where
  "recentKey r = (- c_updated_at r, - c_created_at r)"

definition RecentByStatus :: "Status \<Rightarrow> int \<Rightarrow> 'r world \<Rightarrow> (goerror + Task list) \<times> 'r world" where
  "RecentByStatus status limit w =
     scanRows (pgExec (pgSelect (\<lambda>r. c_status r = status) recentKey limit) w)"

definition Recent :: "int \<Rightarrow> 'r world \<Rightarrow> (goerror + Task list) \<times> 'r world" where
  "Recent limit w = scanRows (pgExec (pgSelect (\<lambda>r. True) recentKey limit) w)"

text \<open>The assignments of the \<open>UPDATE\<close> in \<open>Transition\<close>.\<close>

definition setTransition :: "Status \<Rightarrow> string option \<Rightarrow> Time \<Rightarrow> task_row \<Rightarrow> task_row" where
  "setTransition to workerID now r =
     r\<lparr>c_status := to,
       c_worker_id := (if to = StatusRunning then workerID else c_worker_id r),
       c_started_at := (if to = StatusRunning then Some now else c_started_at r),
       c_next_retry_at := (if to = StatusPending then None else c_next_retry_at r),
       c_finished_at := (if to = StatusSuccess \<or> to = StatusDead then Some now else c_finished_at r),
       c_updated_at := now\<rparr>"

definition sqlTransition :: "string \<Rightarrow> Status \<Rightarrow> Status \<Rightarrow> string option \<Rightarrow> pg_call \<Rightarrow> task_row list
    \<Rightarrow> (goerror + task_row list) \<times> task_row list" where
  "sqlTransition i from to workerID c t =
     pgUpdate (\<lambda>r. c_id r = i \<and> c_status r = from) (setTransition to workerID (pgNow c)) t"

definition Transition :: "string \<Rightarrow> Status \<Rightarrow> Status \<Rightarrow> string option \<Rightarrow> 'r world \<Rightarrow> (goerror + Task) \<times> 'r world" where
  "Transition i from to workerID w =
     (if \<not> CanTransition from to
      then (Inl (Wrapf '''' ErrInvalidTransition ('': '' @ from @ '' -> '' @ to)), w)
      else case pgExec (sqlTransition i from to workerID) w of (res, w1) \<Rightarrow>
             (orNotFound (map_sum (\<lambda>x. x) scanTask (firstRow res)), w1))"

definition sqlMarkFailed :: "string \<Rightarrow> string \<Rightarrow> pg_call \<Rightarrow> task_row list
    \<Rightarrow> (goerror + task_row list) \<times> task_row list" where
  "sqlMarkFailed i failure c t =
     pgUpdate (\<lambda>r. c_id r = i \<and> c_status r = StatusRunning)
       (\<lambda>r. r\<lparr>c_status := StatusFailed, c_last_error := Some failure, c_updated_at := pgNow c\<rparr>) t"

definition MarkFailed :: "string \<Rightarrow> string \<Rightarrow> 'r world \<Rightarrow> (goerror + Task) \<times> 'r world" where
  "MarkFailed i failure w =
     (case pgExec (sqlMarkFailed i failure) w of (res, w1) \<Rightarrow>
        (orNotFound (map_sum (\<lambda>x. x) scanTask (firstRow res)), w1))"

definition sqlCompleteFailure :: "string \<Rightarrow> FailureDecision \<Rightarrow> Time option \<Rightarrow> string \<Rightarrow> pg_call \<Rightarrow> task_row list
    \<Rightarrow> (goerror + task_row list) \<times> task_row list" where
  "sqlCompleteFailure i d nextRetryAt failure c t =
     pgUpdate (\<lambda>r. c_id r = i \<and> c_status r = StatusFailed)
       (\<lambda>r. r\<lparr>c_status := dStatus d, c_retry_count := dRetryCount d, c_next_retry_at := nextRetryAt,
              c_last_error := Some failure,
              c_finished_at := (if dStatus d = StatusDead then Some (pgNow c) else c_finished_at r),
              c_updated_at := pgNow c\<rparr>) t"

definition CompleteFailure :: "string \<Rightarrow> FailureDecision \<Rightarrow> string \<Rightarrow> 'r world \<Rightarrow> (goerror + Task) \<times> 'r world" where
  "CompleteFailure i d failure w =
     (if dStatus d \<noteq> StatusRetrying \<and> dStatus d \<noteq> StatusDead
      then (Inl (Wrapf '''' ErrInvalidTransition ('': failed -> '' @ dStatus d)), w)
      else case pgExec (sqlCompleteFailure i d
                  (map_option (envTimestamptz (wEnv w)) (dNextRetryAt d)) failure) w of (res, w1) \<Rightarrow>
             (orNotFound (map_sum (\<lambda>x. x) scanTask (firstRow res)), w1))"

section \<open>Statements on a keyed table\<close>

lemma firstRow_simps [simp]:
  "firstRow (Inl e) = Inl e" "firstRow (Inr []) = Inl PgxErrNoRows" "firstRow (Inr (x # xs)) = Inr x"
  by (simp_all add: firstRow_def)

lemma orNotFound_simps [simp]:
  "orNotFound (Inr x) = Inr x" "orNotFound (Inl PgxErrNoRows) = Inl ErrNotFound"
  "\<not> errorsIs e PgxErrNoRows \<Longrightarrow> orNotFound (Inl e) = Inl e"
  by (simp_all add: orNotFound_def)

lemma orNotFound_Inr [simp]: "orNotFound res = Inr x \<longleftrightarrow> res = Inr x"
  by (auto simp: orNotFound_def split: sum.splits)

lemma map_sum_Inr [simp]: "map_sum f g res = Inr y \<longleftrightarrow> (\<exists>x. res = Inr x \<and> y = g x)"
  by (cases res) auto

lemma map_sum_Inl [simp]: "map_sum f g res = Inl y \<longleftrightarrow> (\<exists>x. res = Inl x \<and> y = f x)"
  by (cases res) auto

lemma firstRow_Inr: "firstRow res = Inr x \<longleftrightarrow> (\<exists>xs. res = Inr (x # xs))"
  by (auto simp: firstRow_def split: sum.splits list.splits)

lemma row_update_where:
  assumes "\<And>r. c_id (f r) = c_id r"
  shows "row (update_where (\<lambda>r. c_id r = i \<and> q r) f t) j =
    (if j = i then map_option (\<lambda>r. if q r then f r else r) (row t i) else row t j)"
proof (cases "row t j")
  case None
  then show ?thesis using assms by (auto simp: row_def find_update_where)
next
  case (Some r)
  then have "c_id r = j" by (auto dest: row_Some_D)
  with Some show ?thesis using assms by (auto simp: row_def find_update_where)
qed

lemma filter_row:
  assumes "distinct (map c_id t)"
  shows "filter (\<lambda>r. c_id r = i \<and> q r) t
    = (case row t i of None \<Rightarrow> [] | Some r \<Rightarrow> if q r then [r] else [])"
  unfolding row_def by (rule filter_key_and_distinct [OF assms])

lemma filter_row_id:
  assumes "distinct (map c_id t)"
  shows "filter (\<lambda>r. c_id r = i) t = (case row t i of None \<Rightarrow> [] | Some r \<Rightarrow> [r])"
  using filter_row [OF assms, of i "\<lambda>_. True"] by (simp split: option.splits)

text \<open>An update by primary key and status: a compare-and-set on one row.\<close>

lemma pgUpdate_row:
  assumes d: "distinct (map c_id t)"
  shows "pgUpdate (\<lambda>r. c_id r = i \<and> q r) f t =
    (case row t i of
       None \<Rightarrow> (Inr [], t)
     | Some r \<Rightarrow>
         if \<not> q r then (Inr [], t)
         else if tasks_check (f r) then (Inr [f r], update_where (\<lambda>r. c_id r = i \<and> q r) f t)
         else (Inl (External ''check constraint violated''), t))"
proof -
  have "update_where (\<lambda>r. c_id r = i \<and> q r) f t = t" if "row t i = None"
    using that by (simp add: filter_row [OF d])
  moreover have "update_where (\<lambda>r. c_id r = i \<and> q r) f t = t" if "row t i = Some r" "\<not> q r" for r
    using that by (simp add: filter_row [OF d])
  ultimately show ?thesis by (simp add: pgUpdate_def filter_row [OF d] split: option.split)
qed

section \<open>One statement in the world\<close>

text \<open>The call a world is about to make, and the table that call finds.\<close>

definition pgNext :: "'r world \<Rightarrow> pg_call" where
  "pgNext w = envPg (wEnv w) (wPgCalls w)"

definition pgTable :: "'r world \<Rightarrow> task_row list" where
  "pgTable w = pgOthers (pgNext w) (wTable w)"

lemma pgExec_NoFault:
  "pgFault (pgNext w) = NoFault \<Longrightarrow> pgExec stmt w =
    (fst (stmt (pgNext w) (pgTable w)),
     w\<lparr>wPgCalls := Suc (wPgCalls w), wTable := snd (stmt (pgNext w) (pgTable w))\<rparr>)"
  by (simp add: pgExec_def pgNext_def pgTable_def Let_def split: prod.split)

text \<open>\<open>w'\<close> differs from \<open>w\<close> in the table and the number of statements only.\<close>

definition db_only :: "'r world \<Rightarrow> 'r world \<Rightarrow> bool" where
  "db_only w w' \<longleftrightarrow> w'\<lparr>wTable := [], wPgCalls := 0\<rparr> = w\<lparr>wTable := [], wPgCalls := 0\<rparr>"

lemma db_only_refl [simp]: "db_only w w"
  by (simp add: db_only_def)

lemma db_only_trans: "db_only a b \<Longrightarrow> db_only b c \<Longrightarrow> db_only a c"
  by (simp add: db_only_def)

lemma db_onlyD:
  assumes "db_only w w'"
  shows "wEnv w' = wEnv w" "wClockReads w' = wClockReads w" "wRandReads w' = wRandReads w"
    "wCtxReads w' = wCtxReads w" "wRedis w' = wRedis w" "wSent w' = wSent w" "wMetrics w' = wMetrics w"
    "wHttp w' = wHttp w"
  using assms unfolding db_only_def
  by (auto dest: arg_cong [where f = wEnv] arg_cong [where f = wClockReads] arg_cong [where f = wRandReads]
      arg_cong [where f = wCtxReads] arg_cong [where f = wRedis] arg_cong [where f = wSent]
      arg_cong [where f = wMetrics] arg_cong [where f = wHttp])

lemma db_only_pgExec: "pgExec stmt w = (res, w') \<Longrightarrow> db_only w w'"
  by (auto simp: pgExec_def db_only_def Let_def split: pg_fault.splits prod.splits)

end
