(* ===== verification/Samples.thy ===== *)
theory Samples
  imports Store
begin

text \<open>
  Concrete worlds for evaluating the model: a quiet database (no other session, no fault), a clock
  that stands at a fixed instant, constant random bytes, and rows in each status.
\<close>

definition calmCall :: pg_call where
  "calmCall = \<lparr>pgOthers = \<lambda>t. t, pgLate = \<lambda>t. t, pgScan = \<lambda>t. t, pgNow = 500, pgFault = NoFault\<rparr>"

definition calmEnv :: env where
  "calmEnv = \<lparr>envPg = \<lambda>_. calmCall, envTimestamptz = \<lambda>t. t, envJsonb = \<lambda>s. s, envClock = \<lambda>_. 500,
     envRand = \<lambda>_ _. 0, envCtxErr = \<lambda>_. None, envQuote = \<lambda>s. s, envToUpper = \<lambda>s. s,
     envParseURL = \<lambda>_. None, envMapOrder = \<lambda>m. m,
     envJsonError = \<lambda>_. External ''invalid JSON'', envParseTime = \<lambda>_. None,
     envDefaultClient = \<lambda>_ _. Inr 204\<rparr>"

definition sampleRow :: "string \<Rightarrow> Status \<Rightarrow> task_row" where
  "sampleRow i st = \<lparr>c_id = i, c_task_type = ''demo.echo'', c_payload = ''{}'', c_status = st,
     c_idempotency_key = None, c_trace_id = Some ''t1'', c_run_at = 100, c_timeout_seconds = 300,
     c_max_retries = 3, c_retry_count = (if st = StatusRetrying then 1 else 0),
     c_next_retry_at = (if st = StatusRetrying then Some 400 else None),
     c_last_error = (if st \<in> {StatusFailed, StatusRetrying, StatusDead} then Some ''boom'' else None),
     c_worker_id = (if st \<in> {StatusScheduled, StatusPending} then None else Some ''w''),
     c_started_at = (if st \<in> {StatusScheduled, StatusPending} then None else Some 200),
     c_finished_at = (if IsTerminal st then Some 300 else None), c_created_at = 100, c_updated_at = 300\<rparr>"

definition calmWorld :: "task_row list \<Rightarrow> 'r \<Rightarrow> 'r world" where
  "calmWorld t r = \<lparr>wEnv = calmEnv, wTable = t, wPgCalls = 0, wClockReads = 0, wRandReads = 0,
     wCtxReads = 0, wRedis = r, wSent = [], wHttp = [], wMetrics = NewRegistry\<rparr>"

lemma calmCall_simps [simp]:
  "pgOthers calmCall t = t" "pgLate calmCall t = t" "pgScan calmCall t = t" "pgNow calmCall = 500"
  "pgFault calmCall = NoFault"
  by (simp_all add: calmCall_def)

lemma calmEnv_simps [simp]:
  "envPg calmEnv n = calmCall" "envTimestamptz calmEnv x = x" "envJsonb calmEnv s = s"
  "envClock calmEnv n = 500" "envRand calmEnv m n = 0" "envCtxErr calmEnv n = None" "envQuote calmEnv s = s"
  "envToUpper calmEnv s = s" "envParseURL calmEnv s = None" "envMapOrder calmEnv hs = hs"
  "envJsonError calmEnv s = External ''invalid JSON''" "envParseTime calmEnv s = None"
  "envDefaultClient calmEnv n q = Inr 204"
  by (simp_all add: calmEnv_def)

lemma calmWorld_simps [simp]:
  "wEnv (calmWorld t r) = calmEnv" "wTable (calmWorld t r) = t" "wPgCalls (calmWorld t r) = 0"
  "wClockReads (calmWorld t r) = 0" "wRandReads (calmWorld t r) = 0" "wCtxReads (calmWorld t r) = 0"
  "wRedis (calmWorld t r) = r" "wSent (calmWorld t r) = []" "wHttp (calmWorld t r) = []" "wMetrics (calmWorld t r) = NewRegistry"
  by (simp_all add: calmWorld_def)

lemma calmWorld_pg [simp]: "pgNext (calmWorld t r) = calmCall" "pgTable (calmWorld t r) = t"
  by (simp_all add: pgNext_def pgTable_def)

lemma sampleRow_simps [simp]:
  "c_id (sampleRow i st) = i" "c_status (sampleRow i st) = st" "c_task_type (sampleRow i st) = ''demo.echo''"
  "c_payload (sampleRow i st) = ''{}''" "c_idempotency_key (sampleRow i st) = None"
  "c_trace_id (sampleRow i st) = Some ''t1''" "c_run_at (sampleRow i st) = 100"
  "c_timeout_seconds (sampleRow i st) = 300" "c_max_retries (sampleRow i st) = 3"
  "c_created_at (sampleRow i st) = 100" "c_updated_at (sampleRow i st) = 300"
  by (simp_all add: sampleRow_def)

lemma sampleRow_inv: "IsValid st \<Longrightarrow> row_inv (sampleRow i st)"
  by (auto simp: row_inv_def tasks_check_def tasks_status_check_iff int4_def sampleRow_def)

lemma sampleRow_check [simp]: "IsValid st \<Longrightarrow> tasks_check (sampleRow i st)"
  using sampleRow_inv [of st i] by (simp add: row_inv_def)

lemma sample_db_inv:
  "distinct is \<Longrightarrow> \<forall>i. IsValid (st i) \<Longrightarrow> db_inv (map (\<lambda>i. sampleRow i (st i)) is)"
  by (auto simp: db_inv_def table_ok_def comp_def sampleRow_inv)

lemma single_db_inv [simp]: "IsValid st \<Longrightarrow> db_inv [sampleRow i st]"
  using sample_db_inv [of "[i]" "\<lambda>_. st"] by simp

lemma single_row [simp]: "row [sampleRow i st] j = (if i = j then Some (sampleRow i st) else None)"
  by (simp add: row_def)

end
