(* ===== verification/StoreProps.thy ===== *)
theory StoreProps
  imports Samples
begin

text \<open>
  The correctness of the task store. First the behaviour of each method on the table its
  statement finds; then, for arbitrary interference by other sessions and arbitrary faults of the
  connection, that every method refines the table specification \<open>db_step\<close>.
\<close>

section \<open>Compare-and-set\<close>

lemma setTransition_id [simp]: "c_id (setTransition to wid now r) = c_id r"
  by (simp add: setTransition_def)

lemma setTransition_status [simp]: "c_status (setTransition to wid now r) = to"
  by (simp add: setTransition_def)

lemma setTransition_check:
  "tasks_check r \<Longrightarrow> IsValid to \<Longrightarrow> tasks_check (setTransition to wid now r)"
  by (simp add: tasks_check_def tasks_status_check_iff setTransition_def)

lemma Transition_exec:
  assumes can: "CanTransition src to" and ok: "table_ok (pgTable w)"
    and nf: "pgFault (pgNext w) = NoFault"
  shows "Transition i src to wid w =
    (let t = pgTable w; f = setTransition to wid (pgNow (pgNext w)) in
     case row t i of
       Some r \<Rightarrow>
         if c_status r = src
         then (Inr (scanTask (f r)),
               w\<lparr>wPgCalls := Suc (wPgCalls w),
                 wTable := update_where (\<lambda>r. c_id r = i \<and> c_status r = src) f t\<rparr>)
         else (Inl ErrNotFound, w\<lparr>wPgCalls := Suc (wPgCalls w), wTable := t\<rparr>)
     | None \<Rightarrow> (Inl ErrNotFound, w\<lparr>wPgCalls := Suc (wPgCalls w), wTable := t\<rparr>))"
proof (cases "row (pgTable w) i")
  case None
  then show ?thesis
    using can by (simp add: Transition_def pgExec_NoFault [OF nf] sqlTransition_def
        pgUpdate_row [OF table_ok_distinct [OF ok]] Let_def)
next
  case (Some r)
  then have "tasks_check r" using ok by (auto dest: row_Some_D table_ok_check)
  then have "tasks_check (setTransition to wid (pgNow (pgNext w)) r)"
    using can by (auto intro: setTransition_check dest: CanTransition_valid)
  with Some show ?thesis
    using can by (simp add: Transition_def pgExec_NoFault [OF nf] sqlTransition_def
        pgUpdate_row [OF table_ok_distinct [OF ok]] Let_def)
qed

text \<open>C7. \<open>Transition\<close> is a compare-and-set on one task. When the status pair is allowed and the
  statement runs, it succeeds exactly if the task exists with the status \<open>src\<close>; then that row
  gets the new status (and start, finish and retry times as the status asks) and the caller gets
  the new row; otherwise the caller gets \<open>ErrNotFound\<close> and no row changes. In both cases all other
  rows stay as they were. A pair outside the table is refused without touching the database.\<close>

theorem Transition_compare_and_set:
  assumes "table_ok (pgTable w)" "pgFault (pgNext w) = NoFault"
  shows "case Transition i src to wid w of (res, w') \<Rightarrow>
     (\<not> CanTransition src to \<longrightarrow> w' = w \<and> (\<exists>e. res = Inl e \<and> errorsIs e ErrInvalidTransition))
   \<and> (CanTransition src to \<longrightarrow>
        (\<forall>j. j \<noteq> i \<longrightarrow> row (wTable w') j = row (pgTable w) j)
      \<and> (if \<exists>r. row (pgTable w) i = Some r \<and> c_status r = src
         then \<exists>r r'. row (pgTable w) i = Some r \<and> r' = setTransition to wid (pgNow (pgNext w)) r
                \<and> c_status r' = to \<and> row (wTable w') i = Some r' \<and> res = Inr (scanTask r')
         else res = Inl ErrNotFound \<and> wTable w' = pgTable w))"
proof (cases "CanTransition src to")
  case False
  then show ?thesis by (simp add: Transition_def)
next
  case True
  show ?thesis
    unfolding Transition_exec [OF True assms]
    by (auto simp: Let_def row_update_where True split: option.splits)
qed

theorem Transition_compare_and_set_witness:
  "(\<exists>r'. row (wTable (snd (Transition ''a'' StatusPending StatusRunning (Some ''w1'')
        (calmWorld [sampleRow ''a'' StatusPending] ())))) ''a'' = Some r' \<and> c_status r' = StatusRunning)
   \<and> fst (Transition ''a'' StatusPending StatusRunning (Some ''w1'')
        (calmWorld [sampleRow ''a'' StatusRunning] ())) = Inl ErrNotFound"
proof -
  have can: "CanTransition StatusPending StatusRunning" by (simp add: CanTransition_iff)
  have ok: "table_ok [sampleRow ''a'' st]" if "IsValid st" for st
    using that by (simp add: db_inv_table_ok)
  show ?thesis
    using Transition_compare_and_set [where w = "calmWorld [sampleRow ''a'' StatusPending] ()" and i = "''a''"
        and src = StatusPending and to = StatusRunning and wid = "Some ''w1''"]
      Transition_compare_and_set [where w = "calmWorld [sampleRow ''a'' StatusRunning] ()" and i = "''a''"
        and src = StatusPending and to = StatusRunning and wid = "Some ''w1''"] can
    by (simp add: ok split: prod.splits)
qed

section \<open>Claiming a task\<close>

text \<open>A pending task can be claimed once. When two workers claim the same pending task one
  after the other (each statement running, with no other step of that row in between), the first
  gets the task and its name is recorded, and the second gets \<open>ErrNotFound\<close> and changes nothing.\<close>

theorem claim_exclusive:
  assumes "table_ok (pgTable w)" "row (pgTable w) i = Some r" "c_status r = StatusPending"
    and "pgFault (pgNext w) = NoFault"
    and "Transition i StatusPending StatusRunning (Some a) w = (res1, w1)"
    and "table_ok (pgTable w1)" "row (pgTable w1) i = row (wTable w1) i" "pgFault (pgNext w1) = NoFault"
    and "Transition i StatusPending StatusRunning (Some b) w1 = (res2, w2)"
  shows "(\<exists>t. res1 = Inr t \<and> ID t = i \<and> WorkerID t = Some a \<and> Status t = StatusRunning)
    \<and> res2 = Inl ErrNotFound \<and> wTable w2 = pgTable w1"
proof -
  have can: "CanTransition StatusPending StatusRunning" by (simp add: CanTransition_iff)
  let ?r = "setTransition StatusRunning (Some a) (pgNow (pgNext w)) r"
  have id: "c_id r = i" using assms(2) by (auto dest: row_Some_D)
  from assms(5) have res1: "res1 = Inr (scanTask ?r)" and row1: "row (wTable w1) i = Some ?r"
    using assms(2,3) by (auto simp: Transition_exec [OF can assms(1,4)] Let_def row_update_where)
  from assms(9) row1 have "res2 = Inl ErrNotFound \<and> wTable w2 = pgTable w1"
    by (auto simp: Transition_exec [OF can assms(6,8)] Let_def assms(7))
  with res1 id show ?thesis by (simp add: setTransition_def)
qed

theorem claim_exclusive_witness:
  "case Transition ''a'' StatusPending StatusRunning (Some ''w1'') (calmWorld [sampleRow ''a'' StatusPending] ())
   of (res1, w1) \<Rightarrow> (case Transition ''a'' StatusPending StatusRunning (Some ''w2'') w1 of (res2, w2) \<Rightarrow>
     res2 = Inl ErrNotFound \<and> wTable w2 = wTable w1)"
proof -
  let ?w = "calmWorld [sampleRow ''a'' StatusPending] ()"
  have can: "CanTransition StatusPending StatusRunning" by (simp add: CanTransition_iff)
  obtain res1 w1 where t1: "Transition ''a'' StatusPending StatusRunning (Some ''w1'') ?w = (res1, w1)"
    by fastforce
  obtain res2 w2 where t2: "Transition ''a'' StatusPending StatusRunning (Some ''w2'') w1 = (res2, w2)"
    by fastforce
  have ok: "table_ok [sampleRow ''a'' StatusPending]" by (simp add: db_inv_table_ok)
  have w1: "w1 = ?w\<lparr>wPgCalls := 1, wTable := [setTransition StatusRunning (Some ''w1'') 500 (sampleRow ''a'' StatusPending)]\<rparr>"
    using t1 by (simp add: Transition_exec [OF can] ok Let_def update_where_def)
  then have pg1: "pgNext w1 = calmCall" "pgTable w1 = wTable w1" by (simp_all add: pgNext_def pgTable_def)
  have ok1: "table_ok (wTable w1)" unfolding w1 by (simp add: table_ok_def setTransition_check)
  show ?thesis
    using claim_exclusive [OF _ _ _ _ t1 _ _ _ t2] t1 t2 pg1 ok1 ok by simp
qed

section \<open>Refinement of the table specification\<close>

text \<open>
  What is assumed of the database session: the other sessions only take steps of the
  specification (they run the same program), the planner visits every selected row once, and an
  error of the connection is not one of the sentinels that the store itself hands out.
\<close>

definition foreign_error :: "goerror \<Rightarrow> bool" where
  "foreign_error e \<longleftrightarrow> \<not> errorsIs e PgxErrNoRows \<and> \<not> errorsIs e ErrNotFound \<and> \<not> errorsIs e ErrInvalidTransition"

definition pg_rely :: "env \<Rightarrow> bool" where
  "pg_rely e \<longleftrightarrow>
     (\<forall>n t. db_inv t \<longrightarrow> db_steps t (pgOthers (envPg e n) t) \<and> db_steps t (pgLate (envPg e n) t))
     \<and> (\<forall>n xs. mset (pgScan (envPg e n) xs) = mset xs)
     \<and> (\<forall>n x. pgFault (envPg e n) = FaultBefore x \<or> pgFault (envPg e n) = FaultAfter x \<longrightarrow> foreign_error x)"

definition sound :: "'r world \<Rightarrow> bool" where
  "sound w \<longleftrightarrow> pg_rely (wEnv w) \<and> db_inv (wTable w)"

definition db_effect :: "'r world \<Rightarrow> 'r world \<Rightarrow> bool" where
  "db_effect w w' \<longleftrightarrow> db_only w w' \<and> db_steps (wTable w) (wTable w')"

lemma db_effect_refl [simp]: "db_effect w w"
  by (simp add: db_effect_def)

lemma db_effect_trans: "db_effect a b \<Longrightarrow> db_effect b c \<Longrightarrow> db_effect a c"
  by (auto simp: db_effect_def intro: db_only_trans)

lemma db_effect_sound: "db_effect w w' \<Longrightarrow> sound w \<Longrightarrow> sound w'"
  by (auto simp: db_effect_def sound_def db_onlyD(1) intro: db_steps_inv)

lemma pg_relyD:
  assumes "pg_rely e"
  shows "db_inv t \<Longrightarrow> db_steps t (pgOthers (envPg e n) t)" "db_inv t \<Longrightarrow> db_steps t (pgLate (envPg e n) t)"
    "mset (pgScan (envPg e n) xs) = mset xs"
    "pgFault (envPg e n) = FaultBefore x \<Longrightarrow> foreign_error x"
    "pgFault (envPg e n) = FaultAfter x \<Longrightarrow> foreign_error x"
  using assms unfolding pg_rely_def by blast+

lemma sound_pgTable: "sound w \<Longrightarrow> db_steps (wTable w) (pgTable w) \<and> db_inv (pgTable w)"
  by (auto simp: sound_def pgTable_def pgNext_def dest: pg_relyD(1) intro: db_steps_inv)

lemma pg_rely_calm [simp]: "pg_rely calmEnv"
  by (simp add: pg_rely_def)

lemma sound_calm [simp]: "db_inv t \<Longrightarrow> sound (calmWorld t r)"
  by (simp add: sound_def)

text \<open>A statement that takes specified steps takes them under interference and faults as well.\<close>

lemma pgExec_effect:
  assumes "sound w" "pgExec stmt w = (res, w')" "\<And>t. db_inv t \<Longrightarrow> db_steps t (snd (stmt (pgNext w) t))"
  shows "db_effect w w'"
proof -
  have "db_steps (wTable w) (pgTable w)" "db_inv (pgTable w)" using sound_pgTable [OF assms(1)] by auto
  moreover from this assms(3) have "db_steps (wTable w) (snd (stmt (pgNext w) (pgTable w)))"
    by (meson rtranclp_trans)
  moreover have "wTable w' \<in> {pgTable w, snd (stmt (pgNext w) (pgTable w))}"
    using assms(2) by (auto simp: pgExec_def pgTable_def pgNext_def Let_def split: pg_fault.splits prod.splits)
  ultimately show ?thesis using db_only_pgExec [OF assms(2)] by (auto simp: db_effect_def)
qed

lemma pgExec_Inr:
  assumes "pgExec stmt w = (Inr x, w')"
  shows "stmt (pgNext w) (pgTable w) = (Inr x, wTable w')" "pgFault (pgNext w) = NoFault"
  using assms by (auto simp: pgExec_def pgTable_def pgNext_def Let_def split: pg_fault.splits prod.splits)

lemma pgExec_Inl:
  assumes "sound w" "pgExec stmt w = (Inl x, w')"
  shows "foreign_error x \<or> stmt (pgNext w) (pgTable w) = (Inl x, wTable w')"
  using assms pg_relyD(4,5)
  by (auto simp: pgExec_def pgTable_def pgNext_def sound_def Let_def split: pg_fault.splits prod.splits)

lemma pgUpdate_effect:
  assumes "db_inv t" "\<And>r. row_inv r \<Longrightarrow> c_id r = i \<Longrightarrow> q r \<Longrightarrow> tasks_check (f r) \<Longrightarrow> row_step r (f r)"
  shows "db_steps t (snd (pgUpdate (\<lambda>r. c_id r = i \<and> q r) f t))"
proof (cases "list_all tasks_check (map f (filter (\<lambda>r. c_id r = i \<and> q r) t))")
  case True
  then have "db_steps t (update_where (\<lambda>r. c_id r = i \<and> q r) f t)"
    using assms by (intro db_steps_update_where) (auto simp: list_all_iff db_inv_def table_ok_def)
  with True show ?thesis by (simp add: pgUpdate_def Let_def)
next
  case False
  then show ?thesis by (simp add: pgUpdate_def Let_def)
qed

text \<open>The row an update by key hands back is the row the table now has.\<close>

lemma pgUpdate_returns:
  assumes "distinct (map c_id t)" "\<And>r. c_id (f r) = c_id r"
    "pgUpdate (\<lambda>r. c_id r = i \<and> q r) f t = (Inr (x # xs), t')"
  shows "row t' i = Some x \<and> (\<exists>r. row t i = Some r \<and> q r \<and> x = f r)"
  using assms(3) unfolding pgUpdate_row [OF assms(1)]
  by (auto simp: row_update_where [OF assms(2)] split: option.splits if_splits)

subsection \<open>The methods\<close>

text \<open>The transitions the program asks for: claim, success and dispatch.\<close>

definition program_transition :: "Status \<Rightarrow> Status \<Rightarrow> string option \<Rightarrow> bool" where
  "program_transition src to wid \<longleftrightarrow>
     src = StatusPending \<and> to = StatusRunning \<and> wid \<noteq> None
     \<or> src = StatusRunning \<and> to = StatusSuccess
     \<or> (src = StatusScheduled \<or> src = StatusRetrying) \<and> to = StatusPending"

text \<open>A decision on a failure: retry with a time and a positive count, or dead with no time.\<close>

definition decision_wf :: "FailureDecision \<Rightarrow> bool" where
  "decision_wf d \<longleftrightarrow>
     dStatus d = StatusRetrying \<and> dNextRetryAt d \<noteq> None \<and> 1 \<le> dRetryCount d
     \<or> dStatus d = StatusDead \<and> dNextRetryAt d = None"

lemma decision_wf_DecideFailure: "0 \<le> rc \<Longrightarrow> rc < maxInt \<Longrightarrow> decision_wf (DecideFailure now rc mr)"
  by (cases "mr \<le> rc") (auto simp: decision_wf_def DecideFailure_dead DecideFailure_retry)

lemma program_transition_can: "program_transition src to wid \<Longrightarrow> CanTransition src to"
  by (auto simp: program_transition_def CanTransition_iff)

lemma setTransition_step:
  assumes "program_transition src to wid" "c_status r = src"
  shows "row_step r (setTransition to wid now r)"
proof -
  from assms(1) consider x where "src = StatusPending" "to = StatusRunning" "wid = Some x"
    | "src = StatusRunning" "to = StatusSuccess"
    | "src = StatusScheduled \<or> src = StatusRetrying" "to = StatusPending"
    by (auto simp: program_transition_def)
  then show ?thesis
  proof cases
    case 1
    then have "setTransition to wid now r =
        r\<lparr>c_status := StatusRunning, c_worker_id := Some x, c_started_at := Some now, c_updated_at := now\<rparr>"
      by (simp add: setTransition_def)
    then show ?thesis using row_step.claim [where r = r and wid = x and now = now] 1 assms(2) by simp
  next
    case 2
    then have "setTransition to wid now r =
        r\<lparr>c_status := StatusSuccess, c_finished_at := Some now, c_updated_at := now\<rparr>"
      by (simp add: setTransition_def)
    then show ?thesis using row_step.succeed [where r = r and now = now] 2 assms(2) by simp
  next
    case 3
    then have "setTransition to wid now r =
        r\<lparr>c_status := StatusPending, c_next_retry_at := None, c_updated_at := now\<rparr>"
      by (simp add: setTransition_def)
    then show ?thesis using row_step.dispatch [where r = r and now = now] 3 assms(2) by simp
  qed
qed

lemma Transition_effect:
  assumes "sound w" "program_transition src to wid" "Transition i src to wid w = (res, w')"
  shows "db_effect w w'"
proof -
  obtain r0 where "pgExec (sqlTransition i src to wid) w = (r0, w')"
    using assms(3) program_transition_can [OF assms(2)] by (auto simp: Transition_def split: prod.splits)
  with assms(1) show ?thesis
    by (rule pgExec_effect)
      (auto simp: sqlTransition_def intro!: pgUpdate_effect setTransition_step [OF assms(2)])
qed

lemma Transition_returns:
  assumes "sound w" "Transition i src to wid w = (Inr t, w')"
  shows "\<exists>r. row (wTable w') i = Some r \<and> t = scanTask r \<and> c_status r = to
    \<and> (to = StatusRunning \<longrightarrow> c_worker_id r = wid)"
proof -
  from assms(2) obtain r xs where "pgExec (sqlTransition i src to wid) w = (Inr (r # xs), w')" "t = scanTask r"
    by (auto simp: Transition_def firstRow_Inr split: if_splits prod.splits)
  note e = pgExec_Inr(1) [OF this(1)] this(2)
  have "distinct (map c_id (pgTable w))" using sound_pgTable [OF assms(1)] by (auto simp: table_ok_distinct)
  from pgUpdate_returns [OF this _ e(1) [unfolded sqlTransition_def]] e(2) show ?thesis
    by (auto simp: setTransition_def)
qed

lemma MarkFailed_effect:
  assumes "sound w" "MarkFailed i failure w = (res, w')"
  shows "db_effect w w'"
proof -
  obtain r0 where "pgExec (sqlMarkFailed i failure) w = (r0, w')"
    using assms(2) by (auto simp: MarkFailed_def split: prod.splits)
  with assms(1) show ?thesis
    by (rule pgExec_effect) (auto simp: sqlMarkFailed_def intro!: pgUpdate_effect row_step.fail)
qed

lemma MarkFailed_returns:
  assumes "sound w" "MarkFailed i failure w = (Inr t, w')"
  shows "\<exists>r. row (wTable w') i = Some r \<and> t = scanTask r \<and> c_status r = StatusFailed
    \<and> c_last_error r = Some failure"
proof -
  from assms(2) obtain r xs where "pgExec (sqlMarkFailed i failure) w = (Inr (r # xs), w')" "t = scanTask r"
    by (auto simp: MarkFailed_def firstRow_Inr split: prod.splits)
  note e = pgExec_Inr(1) [OF this(1)] this(2)
  have "distinct (map c_id (pgTable w))" using sound_pgTable [OF assms(1)] by (auto simp: table_ok_distinct)
  from pgUpdate_returns [OF this _ e(1) [unfolded sqlMarkFailed_def]] e(2) show ?thesis by auto
qed

lemma CompleteFailure_step:
  assumes "decision_wf d" "c_status r = StatusFailed" "row_inv r"
    and r': "r' = r\<lparr>c_status := dStatus d, c_retry_count := dRetryCount d,
           c_next_retry_at := map_option g (dNextRetryAt d), c_last_error := Some failure,
           c_finished_at := (if dStatus d = StatusDead then Some now else c_finished_at r),
           c_updated_at := now\<rparr>" "tasks_check r'"
  shows "row_step r r'"
proof -
  have n: "0 \<le> dRetryCount d" "dRetryCount d \<le> c_max_retries r"
    using r' by (auto simp: tasks_check_def)
  from assms(1) consider t where "dStatus d = StatusRetrying" "dNextRetryAt d = Some t" "1 \<le> dRetryCount d"
    | "dStatus d = StatusDead" "dNextRetryAt d = None" by (auto simp: decision_wf_def)
  then show ?thesis
  proof cases
    case 1
    then have "r' = r\<lparr>c_status := StatusRetrying, c_retry_count := dRetryCount d,
        c_next_retry_at := Some (g t), c_last_error := Some failure, c_updated_at := now\<rparr>"
      using r' by simp
    then show ?thesis using row_step.retry [where r = r and n = "dRetryCount d" and t = "g t" and msg = failure
          and now = now] 1 n assms(2) by simp
  next
    case 2
    then show ?thesis using row_step.die [where r = r and n = "dRetryCount d" and msg = failure and now = now] n assms(2) r' by simp
  qed
qed

lemma CompleteFailure_effect:
  assumes "sound w" "decision_wf d" "CompleteFailure i d failure w = (res, w')"
  shows "db_effect w w'"
proof -
  let ?next = "map_option (envTimestamptz (wEnv w)) (dNextRetryAt d)"
  have "dStatus d = StatusRetrying \<or> dStatus d = StatusDead" using assms(2) by (auto simp: decision_wf_def)
  then obtain r0 where "pgExec (sqlCompleteFailure i d ?next failure) w = (r0, w')"
    using assms(3) by (auto simp: CompleteFailure_def split: prod.splits if_splits)
  with assms(1) show ?thesis
    by (rule pgExec_effect)
      (auto simp: sqlCompleteFailure_def intro!: pgUpdate_effect
        elim!: CompleteFailure_step [OF assms(2), where g = "envTimestamptz (wEnv w)", OF _ _ refl])
qed

lemma CompleteFailure_returns:
  assumes "sound w" "CompleteFailure i d failure w = (Inr t, w')"
  shows "\<exists>r. row (wTable w') i = Some r \<and> t = scanTask r \<and> c_status r = dStatus d
    \<and> c_retry_count r = dRetryCount d \<and> c_last_error r = Some failure"
proof -
  from assms(2) obtain r xs nx where
    "pgExec (sqlCompleteFailure i d nx failure) w = (Inr (r # xs), w')" "t = scanTask r"
    by (auto simp: CompleteFailure_def firstRow_Inr split: if_splits prod.splits)
  note e = pgExec_Inr(1) [OF this(1)] this(2)
  have "distinct (map c_id (pgTable w))" using sound_pgTable [OF assms(1)] by (auto simp: table_ok_distinct)
  from pgUpdate_returns [OF this _ e(1) [unfolded sqlCompleteFailure_def]] e(2) show ?thesis by auto
qed

text \<open>A statement that does not write.\<close>

lemma read_effect:
  assumes "sound w" "pgExec stmt w = (res, w')" "\<And>c t. snd (stmt c t) = t"
  shows "db_effect w w'"
  using assms(1,2) by (rule pgExec_effect) (simp add: assms(3))

lemma Get_effect:
  assumes "sound w" "Get i w = (res, w')"
  shows "db_effect w w'"
proof -
  obtain r0 where "pgExec (\<lambda>c t. (Inr (filter (\<lambda>r. c_id r = i) t), t)) w = (r0, w')"
    using assms(2) by (auto simp: Get_def split: prod.splits)
  with assms(1) show ?thesis by (rule read_effect) simp
qed

lemma Get_returns:
  assumes "sound w" "Get i w = (Inr t, w')"
  shows "\<exists>r. row (wTable w') i = Some r \<and> t = scanTask r"
proof -
  from assms(2) obtain r xs where "pgExec (\<lambda>c t. (Inr (filter (\<lambda>r. c_id r = i) t), t)) w = (Inr (r # xs), w')"
      "t = scanTask r"
    by (auto simp: Get_def firstRow_Inr split: prod.splits)
  note e = pgExec_Inr(1) [OF this(1)] this(2)
  have "distinct (map c_id (pgTable w))" using sound_pgTable [OF assms(1)] by (auto simp: table_ok_distinct)
  with e show ?thesis by (auto simp: filter_row_id split: option.splits)
qed

lemma Get_not_found:
  assumes "sound w" "Get i w = (Inl e, w')" "errorsIs e ErrNotFound"
  shows "row (wTable w') i = None"
proof -
  let ?q = "\<lambda>c t. (Inr (filter (\<lambda>r. c_id r = i) t), t)"
  obtain r0 where r0: "pgExec ?q w = (r0, w')" "orNotFound (map_sum (\<lambda>x. x) scanTask (firstRow r0)) = Inl e"
    using assms(2) by (auto simp: Get_def split: prod.splits)
  show ?thesis
  proof (cases r0)
    case (Inl x)
    with pgExec_Inl [OF assms(1), of ?q] r0 have "foreign_error x" by auto
    with r0 Inl assms(3) show ?thesis by (auto simp: foreign_error_def)
  next
    case (Inr xs)
    with pgExec_Inr(1) [of ?q w] r0 have "xs = filter (\<lambda>r. c_id r = i) (wTable w')" by auto
    moreover have "xs = []" using r0 Inr by (cases xs) auto
    ultimately have "filter (\<lambda>r. c_id r = i) (wTable w') = []" by simp
    then show ?thesis by (auto simp: row_None filter_empty_conv)
  qed
qed

section \<open>Creation\<close>

text \<open>The parameters a row can be made of: positive timeout, retries not negative, both in range.\<close>

definition params_ok :: "CreateTaskParams \<Rightarrow> bool" where
  "params_ok p \<longleftrightarrow> 0 < pTimeoutSeconds p \<and> int4 (pTimeoutSeconds p) \<and> 0 \<le> pMaxRetries p \<and> int4 (pMaxRetries p)"

lemma newTaskRow_check [simp]:
  "IsValid st \<Longrightarrow> tasks_check (newTaskRow e p i st now) \<longleftrightarrow> params_ok p"
  by (auto simp: tasks_check_def tasks_status_check_iff newTaskRow_def params_ok_def int4_def)

lemma newTaskRow_simps [simp]:
  "c_id (newTaskRow e p i st now) = i" "c_status (newTaskRow e p i st now) = st"
  "c_idempotency_key (newTaskRow e p i st now) = pIdempotencyKey p"
  "c_task_type (newTaskRow e p i st now) = pType p" "c_trace_id (newTaskRow e p i st now) = pTraceID p"
  "c_run_at (newTaskRow e p i st now) = envTimestamptz e (pRunAt p)"
  "c_retry_count (newTaskRow e p i st now) = 0"
  by (simp_all add: newTaskRow_def)

lemma newTaskRow_new: "st = StatusPending \<or> st = StatusScheduled \<Longrightarrow> new_row (newTaskRow e p i st now)"
  by (auto simp: new_row_def newTaskRow_def)

text \<open>The identifier and the status \<open>Create\<close> chooses, and the world in which its statement runs.\<close>

definition createID :: "'r world \<Rightarrow> string" where
  "createID w = ''task_'' @ hexEncode (map (envRand (wEnv w) (wRandReads w)) [0..<16])"

definition createStatus :: "CreateTaskParams \<Rightarrow> 'r world \<Rightarrow> Status" where
  "createStatus p w = (if timeAfter (pRunAt p) (envClock (wEnv w) (wClockReads w)) then StatusScheduled else StatusPending)"

definition createWorld :: "'r world \<Rightarrow> 'r world" where
  "createWorld w = w\<lparr>wClockReads := Suc (wClockReads w), wRandReads := Suc (wRandReads w)\<rparr>"

lemma createStatus_cases: "createStatus p w = StatusPending \<or> createStatus p w = StatusScheduled"
  by (simp add: createStatus_def)

lemma createStatus_valid [simp]: "IsValid (createStatus p w)"
  by (simp add: createStatus_def)

lemma Create_eq:
  "Create p w = (case pgExec (\<lambda>c. sqlCreate
       (newTaskRow (wEnv w) p (createID w) (createStatus p w) (pgNow c)) c) (createWorld w) of (res, w') \<Rightarrow>
     (map_sum (\<lambda>x. x) scanTaskWithCreationFlag (firstRow res), w'))"
  by (simp add: Create_def timeNow_def newID_def randRead_def createID_def createStatus_def createWorld_def
      Let_def split: prod.splits)

lemma createWorld_simps [simp]:
  "wEnv (createWorld w) = wEnv w" "wTable (createWorld w) = wTable w" "wPgCalls (createWorld w) = wPgCalls w"
  "wRedis (createWorld w) = wRedis w" "wSent (createWorld w) = wSent w" "wMetrics (createWorld w) = wMetrics w"
  "pgNext (createWorld w) = pgNext w" "pgTable (createWorld w) = pgTable w" "sound (createWorld w) = sound w"
  by (simp_all add: createWorld_def pgNext_def pgTable_def sound_def)

lemma sqlCreate_effect:
  assumes "db_inv t" "db_steps t (pgLate c t)" "new_row r"
  shows "db_steps t (snd (sqlCreate r c t))"
proof -
  have "db_step (pgLate c t) (pgLate c t @ [r])"
    if "tasks_check r" "c_idempotency_key r = None \<or> c_idempotency_key r \<notin> c_idempotency_key ` set (pgLate c t)"
      "c_id r \<notin> c_id ` set (pgLate c t)"
    using assms(3) that by (intro db_step.insert) auto
  with assms(2) show ?thesis
    by (auto simp: sqlCreate_def Let_def intro: rtranclp.rtrancl_into_rtrancl)
qed

lemma Create_effect:
  assumes "sound w" "Create p w = (res, w')"
  shows "db_effect (createWorld w) w'"
proof -
  obtain r0 where r0: "pgExec (\<lambda>c. sqlCreate
       (newTaskRow (wEnv w) p (createID w) (createStatus p w) (pgNow c)) c) (createWorld w) = (r0, w')"
    using assms(2) by (auto simp: Create_eq split: prod.splits)
  have "sound (createWorld w)" using assms(1) by simp
  from this r0 show ?thesis
  proof (rule pgExec_effect)
    fix t assume "db_inv t"
    moreover have "db_steps t (pgLate (pgNext (createWorld w)) t)"
      using assms(1) \<open>db_inv t\<close> pg_relyD(2) by (auto simp: sound_def pgNext_def)
    ultimately show "db_steps t (snd (sqlCreate (newTaskRow (wEnv w) p (createID w) (createStatus p w)
        (pgNow (pgNext (createWorld w)))) (pgNext (createWorld w)) t))"
      by (rule sqlCreate_effect) (rule newTaskRow_new [OF createStatus_cases])
  qed
qed

text \<open>C24. \<open>Create\<close> without a race. With valid parameters, no fault and no insertion by another
  session during the statement: a submission whose idempotency key is already in the table returns
  the task stored under that key, marked as not newly created, and leaves the table as it is; any
  other submission with a fresh identifier appends exactly one row, which is the returned task,
  marked as newly created, and its status is scheduled exactly when the run time lies in the
  future.\<close>

theorem Create_idempotent:
  assumes "table_ok (pgTable w)" "pgFault (pgNext w) = NoFault" "pgLate (pgNext w) (pgTable w) = pgTable w"
    "params_ok p" "createID w \<notin> c_id ` set (pgTable w)"
  shows "case Create p w of (res, w') \<Rightarrow>
     if \<exists>r \<in> set (pgTable w). pIdempotencyKey p \<noteq> None \<and> c_idempotency_key r = pIdempotencyKey p
     then (\<exists>r \<in> set (pgTable w). c_idempotency_key r = pIdempotencyKey p
             \<and> res = Inr ((scanTask r)\<lparr>NewlyCreated := False\<rparr>)) \<and> wTable w' = pgTable w
     else (\<exists>r. res = Inr ((scanTask r)\<lparr>NewlyCreated := True\<rparr>) \<and> wTable w' = pgTable w @ [r]
             \<and> c_id r = createID w \<and> c_idempotency_key r = pIdempotencyKey p
             \<and> c_status r = (if timeAfter (pRunAt p) (envClock (wEnv w) (wClockReads w))
                             then StatusScheduled else StatusPending))"
proof -
  let ?t = "pgTable w" and ?r = "newTaskRow (wEnv w) p (createID w) (createStatus p w) (pgNow (pgNext w))"
  have nf: "pgFault (pgNext (createWorld w)) = NoFault" using assms(2) by simp
  show ?thesis
  proof (cases "pIdempotencyKey p \<noteq> None \<and> pIdempotencyKey p \<in> c_idempotency_key ` set ?t")
    case True
    then obtain r where r: "r \<in> set ?t" "c_idempotency_key r = pIdempotencyKey p" by auto
    then have "filter (\<lambda>x. c_idempotency_key x = pIdempotencyKey p) ?t \<noteq> []" by (auto simp: filter_empty_conv)
    then obtain x xs where x: "filter (\<lambda>x. c_idempotency_key x = pIdempotencyKey p) ?t = x # xs"
      by (cases "filter (\<lambda>x. c_idempotency_key x = pIdempotencyKey p) ?t") auto
    then have "x \<in> set ?t" "c_idempotency_key x = pIdempotencyKey p"
      by (auto simp: filter_eq_Cons_iff)
    with True r x show ?thesis
      using assms(3,4)
      by (auto simp: Create_eq pgExec_NoFault [OF nf] sqlCreate_def Let_def scanTaskWithCreationFlag_eq)
  next
    case False
    then have "Create p w = (Inr (scanTaskWithCreationFlag (?r, True)),
        (createWorld w)\<lparr>wPgCalls := Suc (wPgCalls w), wTable := ?t @ [?r]\<rparr>)"
      using assms(3-5) by (auto simp: Create_eq pgExec_NoFault [OF nf] sqlCreate_def Let_def)
    with False show ?thesis
      by (auto simp: scanTaskWithCreationFlag_eq createStatus_def image_iff intro!: exI [of _ ?r])
  qed
qed

definition sampleParams :: "string option \<Rightarrow> CreateTaskParams" where
  "sampleParams key = \<lparr>pType = ''demo.echo'', pPayload = ''{}'', pIdempotencyKey = key,
     pTraceID = Some ''t1'', pRunAt = 100, pTimeoutSeconds = 300, pMaxRetries = 3\<rparr>"

lemma sampleParams_ok [simp]: "params_ok (sampleParams key)"
  by (simp add: params_ok_def sampleParams_def int4_def)

theorem Create_idempotent_witness:
  "case Create (sampleParams (Some ''k'')) (calmWorld [] ()) of (res, w') \<Rightarrow>
     (\<exists>r. wTable w' = [r] \<and> c_idempotency_key r = Some ''k'' \<and> c_status r = StatusPending)"
  using Create_idempotent [of "calmWorld [] ()" "sampleParams (Some ''k'')"]
  by (auto simp: table_ok_def timeAfter_def split: prod.splits) (auto simp: sampleParams_def)

text \<open>C35. The race that \<open>Create\<close> does not cover. When another session inserts a task with the same
  idempotency key after the statement took its snapshot and before the unique index is checked,
  nothing is inserted and the snapshot has no row to return: the caller gets
  \<open>pgx.ErrNoRows\<close> instead of the task stored under the key.\<close>

theorem Create_concurrent_duplicate:
  assumes "pgFault (pgNext w) = NoFault" "params_ok p" "pIdempotencyKey p = Some k"
    and "Some k \<notin> c_idempotency_key ` set (pgTable w)"
    and "r \<in> set (pgLate (pgNext w) (pgTable w))" "c_idempotency_key r = Some k"
  shows "fst (Create p w) = Inl PgxErrNoRows
    \<and> wTable (snd (Create p w)) = pgLate (pgNext w) (pgTable w)"
proof -
  have nf: "pgFault (pgNext (createWorld w)) = NoFault" using assms(1) by simp
  have none: "filter (\<lambda>x. c_idempotency_key x = Some k) (pgTable w) = []"
    using assms(4) by (force simp: filter_empty_conv)
  have "Some k \<in> c_idempotency_key ` set (pgLate (pgNext w) (pgTable w))"
    using assms(5,6) by force
  then show ?thesis
    using assms(2,3) none by (simp add: Create_eq pgExec_NoFault [OF nf] sqlCreate_def Let_def)
qed

definition rivalCall :: pg_call where
  "rivalCall = calmCall\<lparr>pgLate := \<lambda>t. t @ [(sampleRow ''b'' StatusPending)\<lparr>c_idempotency_key := Some ''k''\<rparr>]\<rparr>"

theorem Create_concurrent_duplicate_witness:
  "fst (Create (sampleParams (Some ''k'')) ((calmWorld [] ())\<lparr>wEnv := calmEnv\<lparr>envPg := \<lambda>_. rivalCall\<rparr>\<rparr>))
     = Inl PgxErrNoRows"
  using Create_concurrent_duplicate [of "(calmWorld [] ())\<lparr>wEnv := calmEnv\<lparr>envPg := \<lambda>_. rivalCall\<rparr>\<rparr>"
      "sampleParams (Some ''k'')" "''k''" "(sampleRow ''b'' StatusPending)\<lparr>c_idempotency_key := Some ''k''\<rparr>"]
  by (simp add: pgNext_def pgTable_def rivalCall_def) (simp add: sampleParams_def)

section \<open>Listings\<close>

text \<open>What \<open>ORDER BY \<dots> LIMIT\<close> returns, whatever the order of the scan.\<close>

definition first_in_order :: "(task_row \<Rightarrow> bool) \<Rightarrow> (task_row \<Rightarrow> 'k::linorder) \<Rightarrow> int \<Rightarrow> task_row list \<Rightarrow> task_row list \<Rightarrow> bool" where
  "first_in_order p k limit t rs \<longleftrightarrow>
     mset rs \<subseteq># mset (filter p t)
     \<and> sorted (map k rs)
     \<and> length rs = min (nat limit) (length (filter p t))
     \<and> (\<forall>x \<in> set rs. \<forall>y \<in> set t. p y \<and> y \<notin> set rs \<longrightarrow> k x \<le> k y)"

lemma pgSelect_first_in_order:
  assumes "\<And>xs. mset (pgScan c xs) = mset xs" "0 \<le> limit"
  shows "\<exists>rs. pgSelect p k limit c t = (Inr rs, t) \<and> first_in_order p k limit t rs"
proof -
  let ?xs = "pgScan c (filter p t)"
  let ?rs = "take (nat limit) (sort_key k ?xs)"
  have m: "mset ?xs = mset (filter p t)" by (rule assms(1))
  then have l: "length ?xs = length (filter p t)" and e: "set ?xs = {x \<in> set t. p x}"
    by (metis size_mset, metis mset_eq_setD set_filter)
  have "mset ?rs \<subseteq># mset (sort_key k ?xs)" by (rule mset_take_subseteq)
  then have "mset ?rs \<subseteq># mset (filter p t)" using m by simp
  moreover have "k x \<le> k y" if "x \<in> set ?rs" "y \<in> set t" "p y" "y \<notin> set ?rs" for x y
    by (rule take_sort_key_least [where xs = ?xs and n = "nat limit"]) (use that e in auto)
  ultimately have "first_in_order p k limit t ?rs"
    unfolding first_in_order_def using sorted_take_sort_key [of k "nat limit" ?xs] l by (auto simp: min.commute)
  then show ?thesis using assms(2) by (auto simp: pgSelect_def)
qed

lemma pgSelect_snd [simp]: "snd (pgSelect p k limit c t) = t"
  by (simp add: pgSelect_def)

lemma scanRows_pgSelect:
  assumes "sound w" "pgFault (pgNext w) = NoFault" "0 \<le> limit"
  shows "\<exists>rs. scanRows (pgExec (pgSelect p k limit) w)
      = (Inr (map scanTask rs), w\<lparr>wPgCalls := Suc (wPgCalls w), wTable := pgTable w\<rparr>)
    \<and> first_in_order p k limit (pgTable w) rs"
proof -
  have "mset (pgScan (pgNext w) xs) = mset xs" for xs
    using assms(1) pg_relyD(3) by (auto simp: sound_def pgNext_def)
  from pgSelect_first_in_order [OF this assms(3)] obtain rs where
    rs: "pgSelect p k limit (pgNext w) (pgTable w) = (Inr rs, pgTable w)" "first_in_order p k limit (pgTable w) rs"
    by blast
  then show ?thesis by (auto simp: pgExec_NoFault [OF assms(2)] scanRows_def)
qed

lemma scanRows_effect:
  assumes "sound w" "scanRows (pgExec (pgSelect p k limit) w) = (res, w')"
  shows "db_effect w w'"
proof -
  obtain r0 where "pgExec (pgSelect p k limit) w = (r0, w')"
    using assms(2) by (auto simp: scanRows_def split: prod.splits)
  with assms(1) show ?thesis by (rule read_effect) simp
qed

lemma scanRows_returns:
  assumes "sound w" "scanRows (pgExec (pgSelect p k limit) w) = (Inr ts, w')"
  shows "\<exists>rs. ts = map scanTask rs \<and> set rs \<subseteq> {r \<in> set (wTable w'). p r} \<and> distinct (map c_id rs)"
proof -
  from assms(2) obtain rs where e: "pgExec (pgSelect p k limit) w = (Inr rs, w')" "ts = map scanTask rs"
    by (auto simp: scanRows_def split: prod.splits)
  have rs: "pgSelect p k limit (pgNext w) (pgTable w) = (Inr rs, wTable w')" by (rule pgExec_Inr(1) [OF e(1)])
  then have "0 \<le> limit" by (auto simp: pgSelect_def split: if_splits)
  moreover have "mset (pgScan (pgNext w) xs) = mset xs" for xs
    using assms(1) pg_relyD(3) by (auto simp: sound_def pgNext_def)
  ultimately have f: "first_in_order p k limit (wTable w') rs"
    using pgSelect_first_in_order [of "pgNext w" limit p k "pgTable w"] rs by auto
  then have sub: "mset rs \<subseteq># mset (filter p (wTable w'))" by (simp add: first_in_order_def)
  have "table_ok (wTable w')" using rs sound_pgTable [OF assms(1)] by (auto simp: pgSelect_def split: if_splits)
  then have "distinct (map c_id (filter p (wTable w')))" by (simp add: table_ok_def distinct_map_filter)
  moreover have "mset (map c_id rs) \<subseteq># mset (map c_id (filter p (wTable w')))"
    using sub by (simp add: image_mset_subseteq_mono)
  ultimately have "distinct (map c_id rs)" by (blast intro: distinct_mset_subseteq)
  moreover have "set rs \<subseteq> {r \<in> set (wTable w'). p r}"
    using set_mset_mono [OF sub] by auto
  ultimately show ?thesis using e(2) by auto
qed

text \<open>The same facts, read off the returned tasks.\<close>

lemma first_in_order_distinct:
  assumes "first_in_order p k limit t rs" "table_ok t"
  shows "distinct (map c_id rs)" "set rs \<subseteq> {r \<in> set t. p r}"
proof -
  have sub: "mset rs \<subseteq># mset (filter p t)" using assms(1) by (simp add: first_in_order_def)
  then have "mset (map c_id rs) \<subseteq># mset (map c_id (filter p t))" by (simp add: image_mset_subseteq_mono)
  moreover have "distinct (map c_id (filter p t))"
    using assms(2) by (simp add: table_ok_def distinct_map_filter)
  ultimately show "distinct (map c_id rs)" by (rule distinct_mset_subseteq)
  show "set rs \<subseteq> {r \<in> set t. p r}" using set_mset_mono [OF sub] by auto
qed

lemma first_in_order_left_out:
  assumes "first_in_order p k limit t rs" "table_ok t" "0 \<le> limit" "r \<in> set t" "p r" "r \<notin> set rs"
  shows "int (length rs) = limit \<and> (\<forall>x \<in> set rs. k x \<le> k r)"
proof -
  have len: "length rs = min (nat limit) (length (filter p t))"
    and least: "\<forall>x \<in> set rs. \<forall>y \<in> set t. p y \<and> y \<notin> set rs \<longrightarrow> k x \<le> k y"
    and sub: "mset rs \<subseteq># mset (filter p t)"
    using assms(1) by (auto simp: first_in_order_def)
  have "length rs \<noteq> length (filter p t)"
  proof
    assume "length rs = length (filter p t)"
    with sub have "mset rs = mset (filter p t)"
      by (metis mset_subset_size size_mset subset_mset.less_le less_irrefl)
    then have "set rs = set (filter p t)" by (rule mset_eq_setD)
    with assms(4-6) show False by simp
  qed
  with len have "length rs = nat limit" by linarith
  with least assms(3-6) show ?thesis by auto
qed

text \<open>C25. \<open>DueRetrying\<close> under interference by other sessions. When its statement runs, it returns
  distinct tasks of the table that are retrying and due, earliest retry time first, at most
  \<open>limit\<close> of them; a due task is left out only when the limit is reached, and then its
  retry time is no earlier than that of any task returned.\<close>

theorem DueRetrying_earliest_first:
  assumes "sound w" "pgFault (pgNext w) = NoFault" "0 \<le> limit"
  shows "\<exists>ts. DueRetrying now limit w
        = (Inr ts, w\<lparr>wPgCalls := Suc (wPgCalls w), wTable := pgTable w\<rparr>)
    \<and> distinct (map ID ts) \<and> int (length ts) \<le> limit
    \<and> sorted (map (\<lambda>t. the (NextRetryAt t)) ts)
    \<and> (\<forall>t \<in> set ts. \<exists>r \<in> set (pgTable w). t = scanTask r \<and> c_status r = StatusRetrying
          \<and> (\<exists>x. c_next_retry_at r = Some x \<and> x \<le> envTimestamptz (wEnv w) now))
    \<and> (\<forall>r \<in> set (pgTable w). \<forall>x. c_status r = StatusRetrying \<and> c_next_retry_at r = Some x
          \<and> x \<le> envTimestamptz (wEnv w) now \<and> scanTask r \<notin> set ts \<longrightarrow>
            int (length ts) = limit \<and> (\<forall>t \<in> set ts. the (NextRetryAt t) \<le> x))"
proof -
  let ?n = "envTimestamptz (wEnv w) now"
  let ?p = "\<lambda>r. c_status r = StatusRetrying \<and> dueAt ?n (c_next_retry_at r)"
  let ?k = "\<lambda>r. (case c_next_retry_at r of Some t \<Rightarrow> t | None \<Rightarrow> 0, c_created_at r)"
  obtain rs where rs: "DueRetrying now limit w
      = (Inr (map scanTask rs), w\<lparr>wPgCalls := Suc (wPgCalls w), wTable := pgTable w\<rparr>)"
    "first_in_order ?p ?k limit (pgTable w) rs"
    using scanRows_pgSelect [OF assms, of ?p ?k] by (auto simp: DueRetrying_def Let_def)
  have ok: "table_ok (pgTable w)" using sound_pgTable [OF assms(1)] by auto
  note d = first_in_order_distinct [OF rs(2) ok]
  have len: "int (length rs) \<le> limit" using rs(2) assms(3) by (auto simp: first_in_order_def)
  have key: "?k r = (the (c_next_retry_at r), c_created_at r)" if "r \<in> set rs" for r
    using d(2) that by (auto simp: dueAt_def split: option.splits)
  have "sorted (map ?k rs)" using rs(2) by (simp add: first_in_order_def)
  then have "sorted (map (\<lambda>r. (the (c_next_retry_at r), c_created_at r)) rs)" using key by (simp cong: map_cong)
  then have sorted: "sorted (map (\<lambda>r. the (c_next_retry_at r)) rs)"
    by (induction rs) (auto simp: less_eq_prod_def)
  have out: "int (length rs) = limit \<and> (\<forall>r' \<in> set rs. the (c_next_retry_at r') \<le> x)"
    if "r \<in> set (pgTable w)" "c_status r = StatusRetrying" "c_next_retry_at r = Some x" "x \<le> ?n" "r \<notin> set rs" for r x
  proof -
    have "int (length rs) = limit \<and> (\<forall>r' \<in> set rs. ?k r' \<le> ?k r)"
      by (rule first_in_order_left_out [OF rs(2) ok assms(3)]) (use that in \<open>auto simp: dueAt_def\<close>)
    then show ?thesis using key that(3) by (auto simp: less_eq_prod_def)
  qed
  show ?thesis
    by (rule exI [of _ "map scanTask rs"])
      (use rs(1) d len sorted out in \<open>auto simp: comp_def image_iff scanTask_inj dueAt_def split: option.splits\<close>)
qed

theorem DueRetrying_earliest_first_witness:
  "\<exists>ts. fst (DueRetrying 450 10 (calmWorld [sampleRow ''a'' StatusRetrying] ())) = Inr ts
     \<and> int (length ts) \<le> 10 \<and> (\<forall>t \<in> set ts. t = scanTask (sampleRow ''a'' StatusRetrying))"
proof -
  let ?w = "calmWorld [sampleRow ''a'' StatusRetrying] ()"
  have "sound ?w" "pgFault (pgNext ?w) = NoFault" "(0::int) \<le> 10" by simp_all
  from DueRetrying_earliest_first [OF this, of 450] show ?thesis
    by (elim exE conjE) (rule exI, intro conjI, simp, simp, simp)
qed


section \<open>Quiet sessions\<close>

text \<open>The next \<open>n\<close> statements run without a fault and no other session writes in between.\<close>

definition quiet :: "nat \<Rightarrow> 'r world \<Rightarrow> bool" where
  "quiet n w \<longleftrightarrow> (\<forall>k < n. pgFault (envPg (wEnv w) (wPgCalls w + k)) = NoFault
     \<and> (\<forall>t. pgOthers (envPg (wEnv w) (wPgCalls w + k)) t = t))"

lemma quiet_now:
  assumes "quiet (Suc n) w"
  shows "pgFault (pgNext w) = NoFault" "pgTable w = wTable w"
  using assms by (auto simp: quiet_def pgNext_def pgTable_def dest: spec [of _ 0])

lemma quiet_later:
  assumes "quiet (Suc n) w" "wEnv w' = wEnv w" "wPgCalls w' = Suc (wPgCalls w)"
  shows "quiet n w'"
  unfolding quiet_def
proof (intro allI impI)
  fix k assume "k < n"
  with assms(1) [unfolded quiet_def, rule_format, of "Suc k"] assms(2,3)
  show "pgFault (envPg (wEnv w') (wPgCalls w' + k)) = NoFault
      \<and> (\<forall>t. pgOthers (envPg (wEnv w') (wPgCalls w' + k)) t = t)" by simp
qed

lemma quiet_same: "quiet n w \<Longrightarrow> wEnv w' = wEnv w \<Longrightarrow> wPgCalls w' = wPgCalls w \<Longrightarrow> quiet n w'"
  by (simp add: quiet_def)

lemma quiet_calm [simp]: "quiet n (calmWorld t r)"
  by (simp add: quiet_def)

lemma Get_quiet:
  assumes "quiet (Suc n) w" "db_inv (wTable w)" "row (wTable w) i = Some r"
  shows "Get i w = (Inr (scanTask r), w\<lparr>wPgCalls := Suc (wPgCalls w)\<rparr>)"
proof -
  have "distinct (map c_id (wTable w))" using assms(2) by (auto simp: table_ok_distinct)
  then have "filter (\<lambda>x. c_id x = i) (wTable w) = [r]" using assms(3) by (simp add: filter_row_id)
  then show ?thesis using quiet_now [OF assms(1)] by (simp add: Get_def pgExec_NoFault)
qed

lemma Get_quiet_missing:
  assumes "quiet (Suc n) w" "row (wTable w) i = None"
  shows "Get i w = (Inl ErrNotFound, w\<lparr>wPgCalls := Suc (wPgCalls w)\<rparr>)"
proof -
  have "filter (\<lambda>x. c_id x = i) (wTable w) = []" using assms(2) by (auto simp: row_def find_None_iff filter_empty_conv)
  then show ?thesis using quiet_now [OF assms(1)] by (simp add: Get_def pgExec_NoFault orNotFound_def)
qed

lemma Transition_quiet:
  assumes "quiet (Suc n) w" "db_inv (wTable w)" "row (wTable w) i = Some r" "c_status r = src" "CanTransition src to"
  shows "Transition i src to wid w = (Inr (scanTask (setTransition to wid (pgNow (pgNext w)) r)),
    w\<lparr>wPgCalls := Suc (wPgCalls w),
      wTable := update_where (\<lambda>r. c_id r = i \<and> c_status r = src) (setTransition to wid (pgNow (pgNext w))) (wTable w)\<rparr>)"
  using quiet_now [OF assms(1)] assms(2-5) by (simp add: Transition_exec db_inv_table_ok Let_def)

lemma MarkFailed_quiet:
  fixes failure :: string
  assumes "quiet (Suc n) w" "db_inv (wTable w)" "row (wTable w) i = Some r" "c_status r = StatusRunning"
  defines "f \<equiv> \<lambda>r. r\<lparr>c_status := StatusFailed, c_last_error := Some failure, c_updated_at := pgNow (pgNext w)\<rparr>"
  shows "MarkFailed i failure w = (Inr (scanTask (f r)),
    w\<lparr>wPgCalls := Suc (wPgCalls w),
      wTable := update_where (\<lambda>r. c_id r = i \<and> c_status r = StatusRunning) f (wTable w)\<rparr>)"
proof -
  have d: "distinct (map c_id (wTable w))" using assms(2) by (auto simp: table_ok_distinct)
  have "tasks_check r" using assms(2,3) by (auto simp: db_inv_def dest: row_Some_D table_ok_check)
  then have "tasks_check (f r)" by (simp add: f_def tasks_check_def tasks_status_check_iff)
  then show ?thesis
    using quiet_now [OF assms(1)] assms(3,4)
    by (simp add: MarkFailed_def pgExec_NoFault sqlMarkFailed_def pgUpdate_row [OF d] f_def)
qed

lemma CompleteFailure_quiet:
  fixes failure :: string
  assumes "quiet (Suc n) w" "db_inv (wTable w)" "row (wTable w) i = Some r" "c_status r = StatusFailed"
    and "decision_wf d" "0 \<le> dRetryCount d" "dRetryCount d \<le> c_max_retries r"
  defines "f \<equiv> \<lambda>r. r\<lparr>c_status := dStatus d, c_retry_count := dRetryCount d,
     c_next_retry_at := map_option (envTimestamptz (wEnv w)) (dNextRetryAt d), c_last_error := Some failure,
     c_finished_at := (if dStatus d = StatusDead then Some (pgNow (pgNext w)) else c_finished_at r),
     c_updated_at := pgNow (pgNext w)\<rparr>"
  shows "CompleteFailure i d failure w = (Inr (scanTask (f r)),
    w\<lparr>wPgCalls := Suc (wPgCalls w),
      wTable := update_where (\<lambda>r. c_id r = i \<and> c_status r = StatusFailed) f (wTable w)\<rparr>)"
proof -
  have d: "distinct (map c_id (wTable w))" using assms(2) by (auto simp: table_ok_distinct)
  have st: "dStatus d = StatusRetrying \<or> dStatus d = StatusDead" using assms(5) by (auto simp: decision_wf_def)
  have "tasks_check r" using assms(2,3) by (auto simp: db_inv_def dest: row_Some_D table_ok_check)
  then have "tasks_check (f r)"
    using st assms(6,7) by (auto simp: f_def tasks_check_def tasks_status_check_iff int4_def)
  then show ?thesis
    using quiet_now [OF assms(1)] assms(3,4) st
    by (auto simp: CompleteFailure_def pgExec_NoFault sqlCompleteFailure_def pgUpdate_row [OF d] f_def)
qed

end
