(* ===== verification/Queue.thy ===== *)
theory Queue
  imports World
begin

text \<open>
  The Redis adapters of \<open>internal/queue\<close>: the stream publisher, the dead-letter publisher, the
  delayed-task sorted set and the stream consumer. Each struct holds the client, whose commands are
  the argument \<open>redis_client\<close>; an error reply is wrapped with the text the source gives it.
\<close>

record TaskMessage =
  mID :: string
  mType :: string
  mTraceID :: string

record DeadTaskMessage =
  dmID :: string
  dmType :: string
  dmTraceID :: string
  dmLastError :: string
  dmRetryCount :: int

record StreamMessage =
  smRedisID :: string
  smTask :: TaskMessage
  smRecovered :: bool

section \<open>Publishing\<close>

record 'r RedisStreamPublisher =
  rspClient :: "'r redis_client"
  rspStreamName :: string

definition NewRedisStreamPublisher :: "'r redis_client \<Rightarrow> string \<Rightarrow> 'r RedisStreamPublisher" where
  "NewRedisStreamPublisher client streamName = \<lparr>rspClient = client, rspStreamName = streamName\<rparr>"

definition taskValues :: "TaskMessage \<Rightarrow> (string \<rightharpoonup> rval)" where
  "taskValues message =
     (let vals = [''task_id'' \<mapsto> RString (mID message), ''task_type'' \<mapsto> RString (mType message)]
      in if mTraceID message \<noteq> '''' then vals(''trace_id'' \<mapsto> RString (mTraceID message)) else vals)"

definition PublishTask :: "'r RedisStreamPublisher \<Rightarrow> TaskMessage \<Rightarrow> 'r world \<Rightarrow> goerror option \<times> 'r world" where
  "PublishTask p message w =
     (case redisXAdd (rspClient p) (rspStreamName p) (taskValues message) w of
        (Inl err, w1) \<Rightarrow> (Some (Wrapf (''publish task '' @ mID message @ '' to redis stream ''
                                  @ rspStreamName p @ '': '') err ''''), w1)
      | (Inr _, w1) \<Rightarrow> (None, w1))"

record 'r RedisDeadStreamPublisher =
  rdpClient :: "'r redis_client"
  rdpStreamName :: string

definition NewRedisDeadStreamPublisher :: "'r redis_client \<Rightarrow> string \<Rightarrow> 'r RedisDeadStreamPublisher" where
  "NewRedisDeadStreamPublisher client streamName = \<lparr>rdpClient = client, rdpStreamName = streamName\<rparr>"

definition deadValues :: "DeadTaskMessage \<Rightarrow> (string \<rightharpoonup> rval)" where
  "deadValues message =
     (let vals = [''task_id'' \<mapsto> RString (dmID message), ''task_type'' \<mapsto> RString (dmType message),
                  ''retry_count'' \<mapsto> RInt (dmRetryCount message)];
          vals1 = (if dmTraceID message \<noteq> '''' then vals(''trace_id'' \<mapsto> RString (dmTraceID message)) else vals)
      in if dmLastError message \<noteq> '''' then vals1(''last_error'' \<mapsto> RString (dmLastError message)) else vals1)"

definition PublishDead :: "'r RedisDeadStreamPublisher \<Rightarrow> DeadTaskMessage \<Rightarrow> 'r world \<Rightarrow> goerror option \<times> 'r world" where
  "PublishDead p message w =
     (case redisXAdd (rdpClient p) (rdpStreamName p) (deadValues message) w of
        (Inl err, w1) \<Rightarrow> (Some (Wrapf (''publish dead task '' @ dmID message @ '' to redis stream ''
                                  @ rdpStreamName p @ '': '') err ''''), w1)
      | (Inr _, w1) \<Rightarrow> (None, w1))"

section \<open>Delayed tasks\<close>

record 'r RedisScheduledQueue =
  rsqClient :: "'r redis_client"
  rsqKey :: string

definition NewRedisScheduledQueue :: "'r redis_client \<Rightarrow> string \<Rightarrow> 'r RedisScheduledQueue" where
  "NewRedisScheduledQueue client key = \<lparr>rsqClient = client, rsqKey = key\<rparr>"

definition ScheduleTask :: "'r RedisScheduledQueue \<Rightarrow> string \<Rightarrow> Time \<Rightarrow> 'r world \<Rightarrow> goerror option \<times> 'r world" where
  "ScheduleTask q taskID runAt w =
     (case redisZAdd (rsqClient q) (rsqKey q) (timeUnix runAt) taskID w of
        (Some err, w1) \<Rightarrow> (Some (Wrapf (''schedule task '' @ taskID @ '' in redis zset '' @ rsqKey q @ '': '') err ''''), w1)
      | (None, w1) \<Rightarrow> (None, w1))"

definition DueTaskIDs :: "'r RedisScheduledQueue \<Rightarrow> Time \<Rightarrow> int \<Rightarrow> 'r world \<Rightarrow> (goerror + string list) \<times> 'r world" where
  "DueTaskIDs q now limit w =
     (if limit \<le> 0 then (Inr [], w)
      else case redisZRangeByScore (rsqClient q) (rsqKey q) ''-inf'' (FormatInt (timeUnix now)) limit w of
        (Inl err, w1) \<Rightarrow> (Inl (Wrapf (''scan due redis zset '' @ rsqKey q @ '': '') err ''''), w1)
      | (Inr ids, w1) \<Rightarrow> (Inr ids, w1))"

definition Remove :: "'r RedisScheduledQueue \<Rightarrow> string \<Rightarrow> 'r world \<Rightarrow> goerror option \<times> 'r world" where
  "Remove q taskID w =
     (case redisZRem (rsqClient q) (rsqKey q) taskID w of
        (Some err, w1) \<Rightarrow> (Some (Wrapf (''remove task '' @ taskID @ '' from redis zset '' @ rsqKey q @ '': '') err ''''), w1)
      | (None, w1) \<Rightarrow> (None, w1))"

section \<open>Consuming\<close>

record 'r RedisStreamConsumer =
  rscClient :: "'r redis_client"
  rscStreamName :: string
  rscGroupName :: string
  rscConsumer :: string
  rscBlock :: Duration

definition NewRedisStreamConsumer :: "'r redis_client \<Rightarrow> string \<Rightarrow> string \<Rightarrow> string \<Rightarrow> Duration
    \<Rightarrow> 'r RedisStreamConsumer" where
  "NewRedisStreamConsumer client streamName groupName consumer block =
     \<lparr>rscClient = client, rscStreamName = streamName, rscGroupName = groupName, rscConsumer = consumer,
      rscBlock = block\<rparr>"

definition isBusyGroup :: "(string \<Rightarrow> string) \<Rightarrow> goerror \<Rightarrow> bool" where
  "isBusyGroup quote err \<longleftrightarrow> HasPrefix (errorText quote err) ''BUSYGROUP''"

definition isNoGroup :: "(string \<Rightarrow> string) \<Rightarrow> goerror \<Rightarrow> bool" where
  "isNoGroup quote err \<longleftrightarrow> HasPrefix (errorText quote err) ''NOGROUP''"

definition EnsureGroup :: "'r RedisStreamConsumer \<Rightarrow> 'r world \<Rightarrow> goerror option \<times> 'r world" where
  "EnsureGroup c w =
     (case redisXGroupCreateMkStream (rscClient c) (rscStreamName c) (rscGroupName c) ''0'' w of
        (Some err, w1) \<Rightarrow>
          if \<not> isBusyGroup (envQuote (wEnv w)) err
          then (Some (Wrapf (''create redis stream consumer group '' @ rscGroupName c @ '' on ''
                        @ rscStreamName c @ '': '') err ''''), w1)
          else (None, w1)
      | (None, w1) \<Rightarrow> (None, w1))"

definition stringValue :: "rval option \<Rightarrow> string \<times> bool" where
  "stringValue v = (case v of
     Some (RString s) \<Rightarrow> (s, True)
   | Some (RBytes s) \<Rightarrow> (s, True)
   | _ \<Rightarrow> ('''', False))"

definition streamMessageFromRedis :: "XMessage \<Rightarrow> bool \<Rightarrow> goerror + StreamMessage" where
  "streamMessageFromRedis message recovered =
     (case stringValue (xmValues message ''task_id'') of (taskID, ok) \<Rightarrow>
      if \<not> ok \<or> taskID = ''''
      then Inl (NewError (''redis message '' @ xmID message @ '' missing task_id''))
      else case stringValue (xmValues message ''task_type'') of (taskType, ok) \<Rightarrow>
      if \<not> ok \<or> taskType = ''''
      then Inl (NewError (''redis message '' @ xmID message @ '' missing task_type''))
      else case stringValue (xmValues message ''trace_id'') of (traceID, _) \<Rightarrow>
        Inr \<lparr>smRedisID = xmID message,
             smTask = \<lparr>mID = taskID, mType = taskType, mTraceID = traceID\<rparr>,
             smRecovered = recovered\<rparr>)"

fun streamMessagesFromRedis :: "XMessage list \<Rightarrow> bool \<Rightarrow> goerror + StreamMessage list" where
  "streamMessagesFromRedis [] recovered = Inr []"
| "streamMessagesFromRedis (redisMessage # rest) recovered =
     (case streamMessageFromRedis redisMessage recovered of
        Inl err \<Rightarrow> Inl err
      | Inr message \<Rightarrow>
          (case streamMessagesFromRedis rest recovered of
             Inl err \<Rightarrow> Inl err
           | Inr messages \<Rightarrow> Inr (message # messages)))"

definition ReadBatch :: "'r RedisStreamConsumer \<Rightarrow> int \<Rightarrow> 'r world \<Rightarrow> (goerror + StreamMessage list) \<times> 'r world" where
  "ReadBatch c cnt0 w =
     (let cnt = (if cnt0 \<le> 0 then 1 else cnt0)
      in case redisXReadGroup (rscClient c) (rscGroupName c) (rscConsumer c) (rscStreamName c) cnt (rscBlock c) w of
        (Inl err, w1) \<Rightarrow>
          if errorsIs err RedisNil then (Inl ErrNoMessages, w1)
          else if isNoGroup (envQuote (wEnv w)) err
          then (case EnsureGroup c w1 of
                  (Some groupErr, w2) \<Rightarrow> (Inl groupErr, w2)
                | (None, w2) \<Rightarrow> (Inl ErrNoMessages, w2))
          else (Inl (Wrapf (''read redis stream '' @ rscStreamName c @ '': '') err ''''), w1)
      | (Inr streams, w1) \<Rightarrow>
          (case streams of
             [] \<Rightarrow> (Inl ErrNoMessages, w1)
           | (_, messages) # _ \<Rightarrow>
               if messages = [] then (Inl ErrNoMessages, w1)
               else (streamMessagesFromRedis messages False, w1)))"

text \<open>\<open>Read\<close> indexes the batch at 0; \<open>None\<close> stands for the panic on an empty slice.\<close>

definition Read :: "'r RedisStreamConsumer \<Rightarrow> 'r world \<Rightarrow> (goerror + StreamMessage) option \<times> 'r world" where
  "Read c w =
     (case ReadBatch c 1 w of
        (Inl err, w1) \<Rightarrow> (Some (Inl err), w1)
      | (Inr messages, w1) \<Rightarrow> (case messages of [] \<Rightarrow> None | m # _ \<Rightarrow> Some (Inr m), w1))"

definition ClaimPending :: "'r RedisStreamConsumer \<Rightarrow> Duration \<Rightarrow> int \<Rightarrow> 'r world \<Rightarrow> (goerror + StreamMessage list) \<times> 'r world" where
  "ClaimPending c minIdle cnt w =
     (case redisXPendingExt (rscClient c) (rscStreamName c) (rscGroupName c) minIdle ''-'' ''+'' cnt w of
        (Inl err, w1) \<Rightarrow>
          if isNoGroup (envQuote (wEnv w)) err
          then (case EnsureGroup c w1 of
                  (Some groupErr, w2) \<Rightarrow> (Inl groupErr, w2)
                | (None, w2) \<Rightarrow> (Inr [], w2))
          else (Inl (Wrapf (''inspect redis stream pending entries on '' @ rscStreamName c @ '': '') err ''''), w1)
      | (Inr ids, w1) \<Rightarrow>
          if ids = [] then (Inr [], w1)
          else (case redisXClaim (rscClient c) (rscStreamName c) (rscGroupName c) (rscConsumer c) minIdle ids w1 of
                  (Inl err, w2) \<Rightarrow>
                    (Inl (Wrapf (''claim redis stream pending entries on '' @ rscStreamName c @ '': '') err ''''), w2)
                | (Inr claimed, w2) \<Rightarrow> (streamMessagesFromRedis claimed True, w2)))"

definition Ack :: "'r RedisStreamConsumer \<Rightarrow> string \<Rightarrow> 'r world \<Rightarrow> goerror option \<times> 'r world" where
  "Ack c redisID w =
     (case redisXAck (rscClient c) (rscStreamName c) (rscGroupName c) redisID w of
        (Some err, w1) \<Rightarrow> (Some (Wrapf (''ack redis message '' @ redisID @ '' on stream '' @ rscStreamName c @ '': '') err ''''), w1)
      | (None, w1) \<Rightarrow> (None, w1))"

section \<open>Frames\<close>

text \<open>\<open>w'\<close> differs from \<open>w\<close> in the Redis server and the record of commands only.\<close>

definition redis_only :: "'r world \<Rightarrow> 'r world \<Rightarrow> bool" where
  "redis_only w w' \<longleftrightarrow> w'\<lparr>wRedis := wRedis w, wSent := []\<rparr> = w\<lparr>wSent := []\<rparr>"

lemma redis_only_refl [simp]: "redis_only w w"
  by (simp add: redis_only_def)

lemma redis_only_trans: "redis_only a b \<Longrightarrow> redis_only b c \<Longrightarrow> redis_only a c"
proof -
  assume ab: "redis_only a b" and bc: "redis_only b c"
  have "c\<lparr>wRedis := wRedis a, wSent := []\<rparr> = (c\<lparr>wRedis := wRedis b, wSent := []\<rparr>)\<lparr>wRedis := wRedis a\<rparr>" by simp
  also have "\<dots> = b\<lparr>wRedis := wRedis a, wSent := []\<rparr>" using bc by (simp add: redis_only_def)
  finally show "redis_only a c" using ab by (simp add: redis_only_def)
qed

lemma redis_onlyD:
  assumes "redis_only w w'"
  shows "wEnv w' = wEnv w" "wTable w' = wTable w" "wPgCalls w' = wPgCalls w" "wClockReads w' = wClockReads w"
    "wRandReads w' = wRandReads w" "wCtxReads w' = wCtxReads w" "wMetrics w' = wMetrics w"
    "wHttp w' = wHttp w"
  using assms unfolding redis_only_def
  by (auto dest: arg_cong [where f = wEnv] arg_cong [where f = wTable] arg_cong [where f = wPgCalls]
      arg_cong [where f = wClockReads] arg_cong [where f = wRandReads]
      arg_cong [where f = wCtxReads] arg_cong [where f = wMetrics] arg_cong [where f = wHttp])

lemma redis_only_cmds:
  "redisXAdd c s v w = (r, w') \<Longrightarrow> redis_only w w'"
  "redisZAdd c k n m w = (e, w') \<Longrightarrow> redis_only w w'"
  "redisZRangeByScore c k a b l w = (rs, w') \<Longrightarrow> redis_only w w'"
  "redisZRem c k m w = (e, w') \<Longrightarrow> redis_only w w'"
  "redisXGroupCreateMkStream c s g i w = (e, w') \<Longrightarrow> redis_only w w'"
  "redisXReadGroup c g cn s l d w = (rb, w') \<Longrightarrow> redis_only w w'"
  "redisXPendingExt c s g d a b l w = (rp, w') \<Longrightarrow> redis_only w w'"
  "redisXClaim c s g cn d ids w = (rc, w') \<Longrightarrow> redis_only w w'"
  "redisXAck c s g i w = (e, w') \<Longrightarrow> redis_only w w'"
  by (auto simp: redis_defs redis_only_def split: prod.splits)

lemma redis_only_methods:
  "PublishTask p m w = (e, w') \<Longrightarrow> redis_only w w'"
  "PublishDead dp dm w = (e, w') \<Longrightarrow> redis_only w w'"
  "ScheduleTask q i t w = (e, w') \<Longrightarrow> redis_only w w'"
  "DueTaskIDs q t n w = (ids, w') \<Longrightarrow> redis_only w w'"
  "Remove q i w = (e, w') \<Longrightarrow> redis_only w w'"
  "EnsureGroup c w = (e, w') \<Longrightarrow> redis_only w w'"
  "Ack c i w = (e, w') \<Longrightarrow> redis_only w w'"
  by (auto simp: PublishTask_def PublishDead_def ScheduleTask_def DueTaskIDs_def Remove_def EnsureGroup_def
      Ack_def dest: redis_only_cmds split: prod.splits sum.splits option.splits if_splits)

lemma redis_only_ReadBatch: "ReadBatch c n w = (res, w') \<Longrightarrow> redis_only w w'"
  by (auto simp: ReadBatch_def Let_def dest!: redis_only_cmds(6) redis_only_methods(6)
      intro: redis_only_trans split: prod.splits sum.splits option.splits if_splits list.splits)

lemma redis_only_ClaimPending: "ClaimPending c d n w = (res, w') \<Longrightarrow> redis_only w w'"
  by (auto simp: ClaimPending_def dest!: redis_only_cmds(7,8) redis_only_methods(6)
      intro: redis_only_trans split: prod.splits sum.splits option.splits if_splits)

section \<open>What the adapters send\<close>

lemma PublishTask_sent:
  "PublishTask p m w = (e, w') \<Longrightarrow>
    wSent w' = wSent w @ [CmdXAdd (rspStreamName p) (taskValues m) (e = None)]"
  by (auto simp: PublishTask_def redisXAdd_def split: prod.splits sum.splits)

lemma PublishDead_sent:
  "PublishDead p m w = (e, w') \<Longrightarrow>
    wSent w' = wSent w @ [CmdXAdd (rdpStreamName p) (deadValues m) (e = None)]"
  by (auto simp: PublishDead_def redisXAdd_def split: prod.splits sum.splits)

lemma ScheduleTask_sent:
  "ScheduleTask q i t w = (e, w') \<Longrightarrow>
    wSent w' = wSent w @ [CmdZAdd (rsqKey q) (timeUnix t) i (e = None)]"
  by (auto simp: ScheduleTask_def redisZAdd_def split: prod.splits option.splits)

lemma Remove_sent:
  "Remove q i w = (e, w') \<Longrightarrow> wSent w' = wSent w @ [CmdZRem (rsqKey q) i (e = None)]"
  by (auto simp: Remove_def redisZRem_def split: prod.splits option.splits)

lemma DueTaskIDs_sent: "DueTaskIDs q t n w = (ids, w') \<Longrightarrow> wSent w' = wSent w"
  by (auto simp: DueTaskIDs_def redisZRangeByScore_def split: prod.splits sum.splits if_splits)

lemma Ack_sent:
  "Ack c i w = (e, w') \<Longrightarrow>
    wSent w' = wSent w @ [CmdXAck (rscStreamName c) (rscGroupName c) i (e = None)]"
  by (auto simp: Ack_def redisXAck_def split: prod.splits option.splits)

section \<open>Messages\<close>

text \<open>C26. Publishing and parsing are inverse. A stream entry whose fields were written by
  \<open>PublishTask\<close> is parsed back to the very message, for every message with an identifier and a
  type, whether it carries a trace identifier or not; a message lacking either is rejected.\<close>

theorem publish_parse_roundtrip:
  "streamMessageFromRedis \<lparr>xmID = i, xmValues = taskValues m\<rparr> recovered =
     (if mID m = '''' then Inl (NewError (''redis message '' @ i @ '' missing task_id''))
      else if mType m = '''' then Inl (NewError (''redis message '' @ i @ '' missing task_type''))
      else Inr \<lparr>smRedisID = i, smTask = m, smRecovered = recovered\<rparr>)"
  by (auto simp: streamMessageFromRedis_def taskValues_def Let_def stringValue_def)

text \<open>An entry that can be parsed.\<close>

definition well_formed_entry :: "XMessage \<Rightarrow> bool" where
  "well_formed_entry x \<longleftrightarrow>
     snd (stringValue (xmValues x ''task_id'')) \<and> fst (stringValue (xmValues x ''task_id'')) \<noteq> ''''
     \<and> snd (stringValue (xmValues x ''task_type'')) \<and> fst (stringValue (xmValues x ''task_type'')) \<noteq> ''''"

lemma streamMessageFromRedis_ok:
  "well_formed_entry x \<longleftrightarrow> (\<exists>m. streamMessageFromRedis x b = Inr m)"
  by (auto simp: streamMessageFromRedis_def well_formed_entry_def split: prod.splits)

lemma streamMessageFromRedis_Inr:
  "streamMessageFromRedis x b = Inr m \<Longrightarrow> smRedisID m = xmID x \<and> smRecovered m = b \<and> mID (smTask m) \<noteq> ''''"
  by (auto simp: streamMessageFromRedis_def split: prod.splits if_splits)

lemma batch_parses:
  assumes "\<forall>x \<in> set xs. well_formed_entry x"
  shows "\<exists>ms. streamMessagesFromRedis xs b = Inr ms \<and> map smRedisID ms = map xmID xs
    \<and> (\<forall>m \<in> set ms. smRecovered m = b)"
  using assms
proof (induction xs)
  case (Cons x xs)
  obtain m where "streamMessageFromRedis x b = Inr m"
    using Cons.prems streamMessageFromRedis_ok [of x b] by auto
  with Cons show ?case by (auto dest: streamMessageFromRedis_Inr)
qed simp

lemma batch_fails:
  assumes "\<forall>x \<in> set ys. well_formed_entry x" "streamMessageFromRedis x b = Inl e"
  shows "streamMessagesFromRedis (ys @ x # zs) b = Inl e"
  using assms
proof (induction ys)
  case (Cons y ys)
  obtain m where "streamMessageFromRedis y b = Inr m"
    using Cons.prems streamMessageFromRedis_ok [of y b] by auto
  with Cons show ?case by simp
qed simp

text \<open>C40. A batch is parsed all or nothing. If every entry is well formed the result has one message
  per entry, in order, each under its entry's identifier and with the given recovery mark; if any
  entry is malformed the result is the error of the first such entry, and the well-formed entries
  around it are not returned.\<close>

theorem batch_all_or_nothing:
  "((\<forall>x \<in> set xs. well_formed_entry x) \<longrightarrow>
     (\<exists>ms. streamMessagesFromRedis xs b = Inr ms \<and> map smRedisID ms = map xmID xs
       \<and> (\<forall>m \<in> set ms. smRecovered m = b)))
   \<and> (\<forall>ys x zs. xs = ys @ x # zs \<and> (\<forall>y \<in> set ys. well_formed_entry y) \<and> \<not> well_formed_entry x \<longrightarrow>
     (\<exists>e. streamMessageFromRedis x b = Inl e \<and> streamMessagesFromRedis xs b = Inl e))"
proof (intro conjI allI impI)
  fix ys x zs
  assume a: "xs = ys @ x # zs \<and> (\<forall>y \<in> set ys. well_formed_entry y) \<and> \<not> well_formed_entry x"
  then obtain e where e: "streamMessageFromRedis x b = Inl e"
    using streamMessageFromRedis_ok [of x b] by (cases "streamMessageFromRedis x b") auto
  with a batch_fails [OF _ e] show "\<exists>e. streamMessageFromRedis x b = Inl e \<and> streamMessagesFromRedis xs b = Inl e"
    by blast
qed (rule batch_parses)

theorem batch_all_or_nothing_witness:
  "\<exists>e. streamMessagesFromRedis
     [\<lparr>xmID = ''1-0'', xmValues = taskValues \<lparr>mID = ''a'', mType = ''t'', mTraceID = ''''\<rparr>\<rparr>,
      \<lparr>xmID = ''2-0'', xmValues = Map.empty\<rparr>,
      \<lparr>xmID = ''3-0'', xmValues = taskValues \<lparr>mID = ''b'', mType = ''t'', mTraceID = ''''\<rparr>\<rparr>] True = Inl e"
proof -
  let ?good = "\<lparr>xmID = ''1-0'', xmValues = taskValues \<lparr>mID = ''a'', mType = ''t'', mTraceID = ''''\<rparr>\<rparr>"
  let ?bad = "\<lparr>xmID = ''2-0'', xmValues = Map.empty\<rparr>"
  have "well_formed_entry ?good" by (simp add: well_formed_entry_def taskValues_def stringValue_def)
  moreover have "\<not> well_formed_entry ?bad" by (simp add: well_formed_entry_def stringValue_def)
  ultimately show ?thesis
    using batch_all_or_nothing [of "[?good, ?bad,
        \<lparr>xmID = ''3-0'', xmValues = taskValues \<lparr>mID = ''b'', mType = ''t'', mTraceID = ''''\<rparr>\<rparr>]" True]
    by (metis append_Cons append_Nil list.set(1) list.set(2) empty_iff insert_iff)
qed

lemma streamMessagesFromRedis_length: "streamMessagesFromRedis xs b = Inr ms \<Longrightarrow> length ms = length xs"
  by (induction xs arbitrary: ms) (auto split: sum.splits)

text \<open>\<open>ReadBatch\<close> never hands out an empty batch: it returns at least one message or an error, so
  \<open>Read\<close>, which takes element 0, never panics.\<close>

theorem Read_never_panics:
  "fst (ReadBatch c n w) \<noteq> Inr [] \<and> fst (Read c w) \<noteq> None"
proof -
  have "fst (ReadBatch c n w) \<noteq> Inr []" for n
    by (auto simp: ReadBatch_def Let_def dest!: streamMessagesFromRedis_length
        split: prod.splits sum.splits option.splits if_splits list.splits)
  from this [of n] this [of 1] show ?thesis
    by (auto simp: Read_def split: prod.splits sum.splits list.splits)
qed

end
