(* ===== verification/Interfaces.thy ===== *)
theory Interfaces
  imports StoreProps Queue
begin

text \<open>
  The Go interfaces through which the components use each other, and what each promises. An
  interface value is a record of its methods (a plain function when it has one method); a locale
  states the laws a client relies on, and the interpretations at the end discharge them for the
  Postgres store and the Redis adapters. The clients, \<open>Service\<close>, \<open>Worker\<close> and
  \<open>Scheduler\<close>, are proved against the locales.
\<close>

section \<open>Interface values\<close>

record 'r TaskStore =
  tsGet :: "string \<Rightarrow> 'r world \<Rightarrow> (goerror + Task) \<times> 'r world"
  tsTransition :: "string \<Rightarrow> Status \<Rightarrow> Status \<Rightarrow> string option \<Rightarrow> 'r world \<Rightarrow> (goerror + Task) \<times> 'r world"
  tsMarkFailed :: "string \<Rightarrow> string \<Rightarrow> 'r world \<Rightarrow> (goerror + Task) \<times> 'r world"
  tsCompleteFailure :: "string \<Rightarrow> FailureDecision \<Rightarrow> string \<Rightarrow> 'r world \<Rightarrow> (goerror + Task) \<times> 'r world"

record 'r SchedulerStore = "'r TaskStore" +
  ssExpiredRunning :: "Time \<Rightarrow> int \<Rightarrow> 'r world \<Rightarrow> (goerror + Task list) \<times> 'r world"
  ssDueRetrying :: "Time \<Rightarrow> int \<Rightarrow> 'r world \<Rightarrow> (goerror + Task list) \<times> 'r world"

record 'r CreatorGetter =
  cgCreate :: "CreateTaskParams \<Rightarrow> 'r world \<Rightarrow> (goerror + Task) \<times> 'r world"
  cgGet :: "string \<Rightarrow> 'r world \<Rightarrow> (goerror + Task) \<times> 'r world"
  cgMetricsSnapshot :: "Time \<Rightarrow> 'r world \<Rightarrow> (goerror + Snapshot) \<times> 'r world"
  cgCountByStatus :: "'r world \<Rightarrow> (goerror + (Status \<rightharpoonup> int)) \<times> 'r world"
  cgRecentByStatus :: "Status \<Rightarrow> int \<Rightarrow> 'r world \<Rightarrow> (goerror + Task list) \<times> 'r world"
  cgRecent :: "int \<Rightarrow> 'r world \<Rightarrow> (goerror + Task list) \<times> 'r world"

type_synonym 'r Publisher = "TaskMessage \<Rightarrow> 'r world \<Rightarrow> goerror option \<times> 'r world"
type_synonym 'r DeadPublisher = "DeadTaskMessage \<Rightarrow> 'r world \<Rightarrow> goerror option \<times> 'r world"
type_synonym 'r TaskScheduler = "string \<Rightarrow> Time \<Rightarrow> 'r world \<Rightarrow> goerror option \<times> 'r world"

record 'r ScheduledQueue =
  sqDueTaskIDs :: "Time \<Rightarrow> int \<Rightarrow> 'r world \<Rightarrow> (goerror + string list) \<times> 'r world"
  sqRemove :: "string \<Rightarrow> 'r world \<Rightarrow> goerror option \<times> 'r world"

record 'r Consumer =
  coEnsureGroup :: "'r world \<Rightarrow> goerror option \<times> 'r world"
  coReadBatch :: "int \<Rightarrow> 'r world \<Rightarrow> (goerror + StreamMessage list) \<times> 'r world"
  coClaimPending :: "Duration \<Rightarrow> int \<Rightarrow> 'r world \<Rightarrow> (goerror + StreamMessage list) \<times> 'r world"
  coAck :: "string \<Rightarrow> 'r world \<Rightarrow> goerror option \<times> 'r world"

text \<open>The implementations that \<open>internal/app\<close> wires in.\<close>

definition pgTaskStore :: "'r SchedulerStore" where
  "pgTaskStore = \<lparr>tsGet = Get, tsTransition = Transition, tsMarkFailed = MarkFailed,
     tsCompleteFailure = CompleteFailure, ssExpiredRunning = ExpiredRunning, ssDueRetrying = DueRetrying\<rparr>"

definition pgWorkerStore :: "'r TaskStore" where
  "pgWorkerStore = \<lparr>tsGet = Get, tsTransition = Transition, tsMarkFailed = MarkFailed,
     tsCompleteFailure = CompleteFailure\<rparr>"

definition pgCreatorGetter :: "'r CreatorGetter" where
  "pgCreatorGetter = \<lparr>cgCreate = Create, cgGet = Get, cgMetricsSnapshot = MetricsSnapshot,
     cgCountByStatus = CountByStatus, cgRecentByStatus = RecentByStatus, cgRecent = Recent\<rparr>"

definition redisScheduledQueue :: "'r RedisScheduledQueue \<Rightarrow> 'r ScheduledQueue" where
  "redisScheduledQueue q = \<lparr>sqDueTaskIDs = DueTaskIDs q, sqRemove = Remove q\<rparr>"

definition redisConsumer :: "'r RedisStreamConsumer \<Rightarrow> 'r Consumer" where
  "redisConsumer c = \<lparr>coEnsureGroup = EnsureGroup c, coReadBatch = ReadBatch c,
     coClaimPending = ClaimPending c, coAck = Ack c\<rparr>"

section \<open>Effects\<close>

text \<open>What every component may do to the world: the table takes specified steps.\<close>

definition evolved :: "'r world \<Rightarrow> 'r world \<Rightarrow> bool" where
  "evolved w w' \<longleftrightarrow> wEnv w' = wEnv w \<and> db_steps (wTable w) (wTable w')"

lemma evolved_refl [simp]: "evolved w w"
  by (simp add: evolved_def)

lemma evolved_trans [trans]: "evolved a b \<Longrightarrow> evolved b c \<Longrightarrow> evolved a c"
  by (auto simp: evolved_def)

lemma evolved_sound: "evolved w w' \<Longrightarrow> sound w \<Longrightarrow> sound w'"
  by (auto simp: evolved_def sound_def intro: db_steps_inv)

lemma db_effect_evolved: "db_effect w w' \<Longrightarrow> evolved w w' \<and> wSent w' = wSent w"
  by (simp add: evolved_def db_effect_def db_onlyD)

lemma redis_only_evolved: "redis_only w w' \<Longrightarrow> evolved w w' \<and> wTable w' = wTable w"
  by (simp add: evolved_def redis_onlyD)

lemma row_unique: "sound w \<Longrightarrow> r \<in> set (wTable w) \<Longrightarrow> row (wTable w) (c_id r) = Some r"
  by (simp add: sound_def db_inv_def table_ok_def row_Some_iff)

section \<open>Contracts\<close>

locale task_store =
  fixes st :: "('r, 'x) TaskStore_scheme"
  assumes get_effect: "sound w \<Longrightarrow> tsGet st i w = (res, w') \<Longrightarrow> db_effect w w'"
    and get_returns: "sound w \<Longrightarrow> tsGet st i w = (Inr t, w') \<Longrightarrow>
      \<exists>r. row (wTable w') i = Some r \<and> t = scanTask r"
    and get_not_found: "sound w \<Longrightarrow> tsGet st i w = (Inl e, w') \<Longrightarrow> errorsIs e ErrNotFound \<Longrightarrow>
      row (wTable w') i = None"
    and transition_effect: "sound w \<Longrightarrow> program_transition src to wid \<Longrightarrow>
      tsTransition st i src to wid w = (res, w') \<Longrightarrow> db_effect w w'"
    and transition_returns: "sound w \<Longrightarrow> tsTransition st i src to wid w = (Inr t, w') \<Longrightarrow>
      \<exists>r. row (wTable w') i = Some r \<and> t = scanTask r \<and> c_status r = to
        \<and> (to = StatusRunning \<longrightarrow> c_worker_id r = wid)"
    and markFailed_effect: "sound w \<Longrightarrow> tsMarkFailed st i failure w = (res, w') \<Longrightarrow> db_effect w w'"
    and markFailed_returns: "sound w \<Longrightarrow> tsMarkFailed st i failure w = (Inr t, w') \<Longrightarrow>
      \<exists>r. row (wTable w') i = Some r \<and> t = scanTask r \<and> c_status r = StatusFailed
        \<and> c_last_error r = Some failure"
    and completeFailure_effect: "sound w \<Longrightarrow> decision_wf d \<Longrightarrow>
      tsCompleteFailure st i d failure w = (res, w') \<Longrightarrow> db_effect w w'"
    and completeFailure_returns: "sound w \<Longrightarrow> tsCompleteFailure st i d failure w = (Inr t, w') \<Longrightarrow>
      \<exists>r. row (wTable w') i = Some r \<and> t = scanTask r \<and> c_status r = dStatus d
        \<and> c_retry_count r = dRetryCount d \<and> c_last_error r = Some failure"

locale scheduler_store = task_store st for st :: "('r, 'x) SchedulerStore_scheme" +
  assumes expired_effect: "sound w \<Longrightarrow> ssExpiredRunning st now n w = (res, w') \<Longrightarrow> db_effect w w'"
    and expired_returns: "sound w \<Longrightarrow> ssExpiredRunning st now n w = (Inr ts, w') \<Longrightarrow> t \<in> set ts \<Longrightarrow>
      \<exists>r \<in> set (wTable w'). t = scanTask r \<and> c_status r = StatusRunning"
    and due_effect: "sound w \<Longrightarrow> ssDueRetrying st now n w = (res, w') \<Longrightarrow> db_effect w w'"
    and due_returns: "sound w \<Longrightarrow> ssDueRetrying st now n w = (Inr ts, w') \<Longrightarrow> t \<in> set ts \<Longrightarrow>
      \<exists>r \<in> set (wTable w'). t = scanTask r \<and> c_status r = StatusRetrying"

locale task_publisher =
  fixes pub :: "'r Publisher" and stream :: string
  assumes pub_only: "pub m w = (e, w') \<Longrightarrow> redis_only w w'"
    and pub_sent: "pub m w = (e, w') \<Longrightarrow> wSent w' = wSent w @ [CmdXAdd stream (taskValues m) (e = None)]"

locale dead_publisher =
  fixes dead :: "'r DeadPublisher" and deadStream :: string
  assumes dead_only: "dead m w = (e, w') \<Longrightarrow> redis_only w w'"
    and dead_sent: "dead m w = (e, w') \<Longrightarrow> wSent w' = wSent w @ [CmdXAdd deadStream (deadValues m) (e = None)]"

locale task_scheduler =
  fixes sched :: "'r TaskScheduler" and zkey :: string
  assumes sched_only: "sched i t w = (e, w') \<Longrightarrow> redis_only w w'"
    and sched_sent: "sched i t w = (e, w') \<Longrightarrow> wSent w' = wSent w @ [CmdZAdd zkey (timeUnix t) i (e = None)]"

locale delayed_queue =
  fixes dq :: "'r ScheduledQueue" and dkey :: string
  assumes due_ids_only: "sqDueTaskIDs dq now n w = (res, w') \<Longrightarrow> redis_only w w' \<and> wSent w' = wSent w"
    and remove_only: "sqRemove dq i w = (e, w') \<Longrightarrow> redis_only w w'"
    and remove_sent: "sqRemove dq i w = (e, w') \<Longrightarrow> wSent w' = wSent w @ [CmdZRem dkey i (e = None)]"

locale message_consumer =
  fixes con :: "'r Consumer" and cstream cgroup :: string
  assumes ack_only: "coAck con i w = (e, w') \<Longrightarrow> redis_only w w'"
    and ack_sent: "coAck con i w = (e, w') \<Longrightarrow> wSent w' = wSent w @ [CmdXAck cstream cgroup i (e = None)]"

section \<open>The implementations keep the contracts\<close>

lemma ExpiredRunning_returns:
  assumes "sound w" "ExpiredRunning now n w = (Inr ts, w')" "t \<in> set ts"
  shows "\<exists>r \<in> set (wTable w'). t = scanTask r \<and> c_status r = StatusRunning"
  using assms(2,3) by (auto simp: ExpiredRunning_def Let_def dest!: scanRows_returns [OF assms(1)]) blast

lemma DueRetrying_returns:
  assumes "sound w" "DueRetrying now n w = (Inr ts, w')" "t \<in> set ts"
  shows "\<exists>r \<in> set (wTable w'). t = scanTask r \<and> c_status r = StatusRetrying"
  using assms(2,3) by (auto simp: DueRetrying_def Let_def dest!: scanRows_returns [OF assms(1)]) blast

lemma listing_effect:
  assumes "sound w"
  shows "ExpiredRunning now n w = (res, w') \<Longrightarrow> db_effect w w'" "DueRetrying now n w = (res, w') \<Longrightarrow> db_effect w w'"
  by (auto simp: ExpiredRunning_def DueRetrying_def Let_def intro: scanRows_effect [OF assms])

interpretation pgs: scheduler_store pgTaskStore
  by unfold_locales
    (simp_all add: pgTaskStore_def Get_effect Get_returns Get_not_found Transition_effect Transition_returns
      MarkFailed_effect MarkFailed_returns CompleteFailure_effect CompleteFailure_returns
      ExpiredRunning_returns DueRetrying_returns listing_effect)

interpretation pgw: task_store pgWorkerStore
  by unfold_locales
    (simp_all add: pgWorkerStore_def Get_effect Get_returns Get_not_found Transition_effect Transition_returns
      MarkFailed_effect MarkFailed_returns CompleteFailure_effect CompleteFailure_returns)

interpretation rsp: task_publisher "PublishTask p" "rspStreamName p" for p
  by unfold_locales (auto intro: redis_only_methods PublishTask_sent)

interpretation rdp: dead_publisher "PublishDead p" "rdpStreamName p" for p
  by unfold_locales (auto intro: redis_only_methods PublishDead_sent)

interpretation rts: task_scheduler "ScheduleTask q" "rsqKey q" for q
  by unfold_locales (auto intro: redis_only_methods ScheduleTask_sent)

interpretation rdq: delayed_queue "redisScheduledQueue q" "rsqKey q" for q
  by unfold_locales (auto simp: redisScheduledQueue_def intro: redis_only_methods DueTaskIDs_sent Remove_sent)

interpretation rmc: message_consumer "redisConsumer c" "rscStreamName c" "rscGroupName c" for c
  by unfold_locales (auto simp: redisConsumer_def intro: redis_only_methods Ack_sent)

end
