(* ===== verification/Service.thy ===== *)
theory Service
  imports Interfaces
begin

text \<open>
  The task service of \<open>internal/task/service.go\<close>: it creates the task in the store and hands
  it on, a pending task to the stream, a delayed one to the sorted set.
\<close>

record 'r Service =
  svStore :: "'r CreatorGetter"
  svPublisher :: "'r Publisher"
  svScheduler :: "'r TaskScheduler"
  svMetrics :: bool

definition NewService :: "'r CreatorGetter \<Rightarrow> 'r Publisher \<Rightarrow> 'r TaskScheduler \<Rightarrow> 'r Service" where
  "NewService store publisher scheduler =
     \<lparr>svStore = store, svPublisher = publisher, svScheduler = scheduler, svMetrics = False\<rparr>"

definition ServiceWithMetrics :: "bool \<Rightarrow> 'r Service \<Rightarrow> 'r Service" where
  "ServiceWithMetrics registry s = s\<lparr>svMetrics := registry\<rparr>"

definition derefString :: "string option \<Rightarrow> string" where
  "derefString value = (case value of None \<Rightarrow> '''' | Some s \<Rightarrow> s)"

definition newTraceID :: "'r world \<Rightarrow> string \<times> 'r world" where
  "newTraceID w = (case randRead 8 w of (bytes, w1) \<Rightarrow> (''trace_'' @ hexEncode bytes, w1))"

text \<open>The trace identifier that \<open>Create\<close> puts into the parameters.\<close>

definition withTraceID :: "CreateTaskParams \<Rightarrow> 'r world \<Rightarrow> CreateTaskParams \<times> 'r world" where
  "withTraceID params w =
     (case pTraceID params of
        Some traceID \<Rightarrow>
          if TrimSpace traceID = ''''
          then (case newTraceID w of (generated, w1) \<Rightarrow> (params\<lparr>pTraceID := Some generated\<rparr>, w1))
          else (params\<lparr>pTraceID := Some (TrimSpace traceID)\<rparr>, w)
      | None \<Rightarrow> (case newTraceID w of (generated, w1) \<Rightarrow> (params\<lparr>pTraceID := Some generated\<rparr>, w1)))"

definition ServiceCreate :: "'r Service \<Rightarrow> CreateTaskParams \<Rightarrow> 'r world \<Rightarrow> (goerror + Task) \<times> 'r world" where
  "ServiceCreate s params0 w0 =
     (case withTraceID params0 w0 of (params, w) \<Rightarrow>
      case cgCreate (svStore s) params w of
        (Inl err, w1) \<Rightarrow> (Inl err, w1)
      | (Inr task, w1) \<Rightarrow>
          if \<not> NewlyCreated task then (Inr task, w1)
          else if Status task \<noteq> StatusPending
          then (if Status task = StatusScheduled
                then (case svScheduler s (ID task) (RunAt task) w1 of
                        (Some err, w2) \<Rightarrow> (Inl (Wrapf ''schedule created task: '' err ''''), w2)
                      | (None, w2) \<Rightarrow> (Inr task, withMetrics (svMetrics s) TaskSubmitted w2))
                else (Inr task, withMetrics (svMetrics s) TaskSubmitted w1))
          else (case svPublisher s \<lparr>mID = ID task, mType = Type task, mTraceID = derefString (TraceID task)\<rparr> w1 of
                  (Some err, w2) \<Rightarrow> (Inl (Wrapf ''publish created task: '' err ''''), w2)
                | (None, w2) \<Rightarrow> (Inr task, withMetrics (svMetrics s) TaskSubmitted w2)))"

text \<open>The remaining methods forward to the store.\<close>

definition ServiceGet :: "'r Service \<Rightarrow> string \<Rightarrow> 'r world \<Rightarrow> (goerror + Task) \<times> 'r world" where
  "ServiceGet s i w = cgGet (svStore s) i w"

definition ServiceMetricsSnapshot :: "'r Service \<Rightarrow> Time \<Rightarrow> 'r world \<Rightarrow> (goerror + Snapshot) \<times> 'r world" where
  "ServiceMetricsSnapshot s now w = cgMetricsSnapshot (svStore s) now w"

definition ServiceCountByStatus :: "'r Service \<Rightarrow> 'r world \<Rightarrow> (goerror + (Status \<rightharpoonup> int)) \<times> 'r world" where
  "ServiceCountByStatus s w = cgCountByStatus (svStore s) w"

definition ServiceRecentByStatus :: "'r Service \<Rightarrow> Status \<Rightarrow> int \<Rightarrow> 'r world \<Rightarrow> (goerror + Task list) \<times> 'r world" where
  "ServiceRecentByStatus s status limit w = cgRecentByStatus (svStore s) status limit w"

definition ServiceRecent :: "'r Service \<Rightarrow> int \<Rightarrow> 'r world \<Rightarrow> (goerror + Task list) \<times> 'r world" where
  "ServiceRecent s limit w = cgRecent (svStore s) limit w"

section \<open>The service against its interfaces\<close>

text \<open>What a store's \<open>Create\<close> promises the service.\<close>

locale creating_store =
  fixes cg :: "('r, 'x) CreatorGetter_scheme"
  assumes create_frame: "cgCreate cg p w = (res, w') \<Longrightarrow>
      wSent w' = wSent w \<and> wRedis w' = wRedis w \<and> wMetrics w' = wMetrics w \<and> wEnv w' = wEnv w"
    and create_effect: "sound w \<Longrightarrow> cgCreate cg p w = (res, w') \<Longrightarrow> db_steps (wTable w) (wTable w')"
    and create_returns: "sound w \<Longrightarrow> cgCreate cg p w = (Inr t, w') \<Longrightarrow> NewlyCreated t \<Longrightarrow>
      \<exists>r \<in> set (wTable w'). t = (scanTask r)\<lparr>NewlyCreated := True\<rparr> \<and> new_row r \<and> c_trace_id r = pTraceID p"

lemma Create_frame:
  "Create p w = (res, w') \<Longrightarrow>
    wSent w' = wSent w \<and> wRedis w' = wRedis w \<and> wMetrics w' = wMetrics w \<and> wEnv w' = wEnv w"
  by (auto simp: Create_eq split: prod.splits dest!: db_only_pgExec dest: db_onlyD)

lemma Create_returns_new:
  assumes "Create p w = (Inr t, w')" "NewlyCreated t"
  shows "\<exists>r \<in> set (wTable w'). t = (scanTask r)\<lparr>NewlyCreated := True\<rparr> \<and> new_row r \<and> c_trace_id r = pTraceID p"
proof -
  let ?r = "newTaskRow (wEnv w) p (createID w) (createStatus p w) (pgNow (pgNext w))"
  from assms(1) obtain x xs where
    e: "pgExec (\<lambda>c. sqlCreate (newTaskRow (wEnv w) p (createID w) (createStatus p w) (pgNow c)) c) (createWorld w)
      = (Inr (x # xs), w')" and t: "t = scanTaskWithCreationFlag x"
    by (auto simp: Create_eq firstRow_Inr split: prod.splits)
  have s: "sqlCreate ?r (pgNext w) (pgTable w) = (Inr (x # xs), wTable w')"
    using pgExec_Inr(1) [OF e] by simp
  have "snd x" using t assms(2) by (cases x) (simp add: scanTaskWithCreationFlag_def)
  with s have "x = (?r, True) \<and> wTable w' = pgLate (pgNext w) (pgTable w) @ [?r]"
    by (auto simp: sqlCreate_def Let_def split: if_splits)
  then show ?thesis
    using t newTaskRow_new [OF createStatus_cases] by (auto simp: scanTaskWithCreationFlag_eq)
qed

interpretation pgc: creating_store pgCreatorGetter
  by unfold_locales
    (auto simp: pgCreatorGetter_def Create_frame db_effect_def intro: Create_returns_new
      dest!: Create_effect)

locale service_deps = creating_store cg + task_publisher pub stream + task_scheduler sched zkey
  for cg :: "'r CreatorGetter" and pub :: "'r Publisher" and stream :: string
    and sched :: "'r TaskScheduler" and zkey :: string
begin

lemma withTraceID_frame:
  "withTraceID p w = (p', w') \<Longrightarrow> wSent w' = wSent w \<and> wMetrics w' = wMetrics w \<and> wTable w' = wTable w \<and> sound w' = sound w"
  by (auto simp: withTraceID_def newTraceID_def randRead_def sound_def split: option.splits if_splits)

text \<open>What a successful submission sends to Redis.\<close>

lemma create_handover:
  assumes s: "s = \<lparr>svStore = cg, svPublisher = pub, svScheduler = sched, svMetrics = mx\<rparr>"
    and w: "sound w" and c: "ServiceCreate s p w = (Inr t, w')"
  shows "wSent w' = wSent w @
     (if \<not> NewlyCreated t then []
      else if Status t = StatusScheduled then [CmdZAdd zkey (timeUnix (RunAt t)) (ID t) True]
      else [CmdXAdd stream (taskValues \<lparr>mID = ID t, mType = Type t, mTraceID = derefString (TraceID t)\<rparr>) True])
    \<and> wMetrics w' = (if NewlyCreated t \<and> svMetrics s then TaskSubmitted (wMetrics w) else wMetrics w)"
proof -
  obtain p1 w1 where p1: "withTraceID p w = (p1, w1)" by fastforce
  note f1 = withTraceID_frame [OF p1]
  have w1: "sound w1" using f1 w by simp
  from c p1 s obtain w2 where c2: "cgCreate cg p1 w1 = (Inr t, w2)"
    by (auto simp: ServiceCreate_def split: prod.splits sum.splits option.splits if_splits)
  note f2 = create_frame [OF c2]
  have st: "Status t = StatusPending \<or> Status t = StatusScheduled" if "NewlyCreated t"
    using create_returns [OF w1 c2 that] by (auto simp: new_row_def)
  show ?thesis
  proof (cases "NewlyCreated t")
    case False
    then show ?thesis using c p1 c2 s f1 f2 by (simp add: ServiceCreate_def)
  next
    case True
    from st [OF this] show ?thesis
    proof
      assume p: "Status t = StatusPending"
      let ?m = "\<lparr>mID = ID t, mType = Type t, mTraceID = derefString (TraceID t)\<rparr>"
      from c p1 c2 s True p obtain w3 where "pub ?m w2 = (None, w3)"
        "w' = withMetrics (svMetrics s) TaskSubmitted w3"
        by (auto simp: ServiceCreate_def split: prod.splits option.splits)
      with pub_sent [OF this(1)] pub_only [OF this(1)] True p f1 f2 show ?thesis
        by (auto simp: withMetrics_def redis_onlyD)
    next
      assume p: "Status t = StatusScheduled"
      from c p1 c2 s True p obtain w3 where "sched (ID t) (RunAt t) w2 = (None, w3)"
        "w' = withMetrics (svMetrics s) TaskSubmitted w3"
        by (auto simp: ServiceCreate_def split: prod.splits option.splits)
      with sched_sent [OF this(1)] sched_only [OF this(1)] True p f1 f2 show ?thesis
        by (auto simp: withMetrics_def redis_onlyD)
    qed
  qed
qed

text \<open>A submission only takes specified steps on the table, whatever fails.\<close>

lemma create_steps:
  assumes s: "s = \<lparr>svStore = cg, svPublisher = pub, svScheduler = sched, svMetrics = mx\<rparr>"
    and w: "sound w" and c: "ServiceCreate s p w = (res, w')"
  shows "db_steps (wTable w) (wTable w')"
proof -
  obtain p1 w1 where p1: "withTraceID p w = (p1, w1)" by fastforce
  note f1 = withTraceID_frame [OF p1]
  obtain r2 w2 where c2: "cgCreate cg p1 w1 = (r2, w2)" by fastforce
  have "db_steps (wTable w1) (wTable w2)" using create_effect [OF _ c2] f1 w by simp
  moreover have "wTable w' = wTable w2"
    using c p1 c2 s
    by (auto simp: ServiceCreate_def withMetrics_def split: prod.splits sum.splits option.splits if_splits
        dest!: pub_only sched_only dest: redis_onlyD)
  ultimately show ?thesis using f1 by simp
qed

end

text \<open>The service as the application assembles it.\<close>

definition appService :: "'r RedisStreamPublisher \<Rightarrow> 'r RedisScheduledQueue \<Rightarrow> 'r Service" where
  "appService p q = \<lparr>svStore = pgCreatorGetter, svPublisher = PublishTask p, svScheduler = ScheduleTask q, svMetrics = True\<rparr>"

interpretation svd: service_deps pgCreatorGetter "PublishTask p" "rspStreamName p" "ScheduleTask q" "rsqKey q" for p q
  by unfold_locales

section \<open>Properties of the assembled service\<close>

text \<open>A Redis that accepts everything and one that refuses everything, for evaluation.\<close>

definition obligingRedis :: "unit redis_client" where
  "obligingRedis = \<lparr>rcXAdd = \<lambda>_ _ r. (Inr ''1-0'', r), rcZAdd = \<lambda>_ _ _ r. (None, r),
     rcZRangeByScore = \<lambda>_ _ _ _ r. (Inr [], r), rcZRem = \<lambda>_ _ r. (None, r),
     rcXGroupCreateMkStream = \<lambda>_ _ _ r. (None, r), rcXReadGroup = \<lambda>_ _ _ _ _ r. (Inl RedisNil, r),
     rcXPendingExt = \<lambda>_ _ _ _ _ _ r. (Inr [], r), rcXClaim = \<lambda>_ _ _ _ _ r. (Inr [], r),
     rcXAck = \<lambda>_ _ _ r. (None, r)\<rparr>"

definition refusingRedis :: "unit redis_client" where
  "refusingRedis = obligingRedis\<lparr>rcXAdd := \<lambda>_ _ r. (Inl (External ''down''), r)\<rparr>"

definition sampleService :: "unit redis_client \<Rightarrow> unit Service" where
  "sampleService c = appService \<lparr>rspClient = c, rspStreamName = ''tasks:stream''\<rparr>
     \<lparr>rsqClient = c, rsqKey = ''tasks:scheduled''\<rparr>"

text \<open>C11. A submission that succeeds hands the task over exactly once. A newly created delayed task is
  added to the sorted set under the second of its run time, any other newly created task is
  published to the stream with its identifier, type and trace identifier, and a repeated submission
  sends nothing; the submission counter moves exactly for newly created tasks. The table only takes
  specified steps.\<close>

theorem submission_handed_over_once:
  assumes "sound w" "ServiceCreate (appService p q) params w = (Inr t, w')"
  shows "wSent w' = wSent w @
     (if \<not> NewlyCreated t then []
      else if Status t = StatusScheduled then [CmdZAdd (rsqKey q) (timeUnix (RunAt t)) (ID t) True]
      else [CmdXAdd (rspStreamName p)
              (taskValues \<lparr>mID = ID t, mType = Type t, mTraceID = derefString (TraceID t)\<rparr>) True])
    \<and> wMetrics w' = (if NewlyCreated t then TaskSubmitted (wMetrics w) else wMetrics w)
    \<and> db_steps (wTable w) (wTable w')"
  using svd.create_handover [OF appService_def assms] svd.create_steps [OF appService_def assms]
  by (simp add: appService_def)

lemma sampleCreate:
  "ServiceCreate (sampleService c) (sampleParams key) (calmWorld [] ()) =
     (let r = newTaskRow calmEnv (sampleParams key) (createID (calmWorld [] ())) StatusPending 500;
          t = (scanTask r)\<lparr>NewlyCreated := True\<rparr>
      in case PublishTask \<lparr>rspClient = c, rspStreamName = ''tasks:stream''\<rparr>
           \<lparr>mID = ID t, mType = Type t, mTraceID = derefString (TraceID t)\<rparr>
           ((createWorld (calmWorld [] ()))\<lparr>wPgCalls := 1, wTable := [r]\<rparr>) of
           (Some err, w) \<Rightarrow> (Inl (Wrapf ''publish created task: '' err ''''), w)
         | (None, w) \<Rightarrow> (Inr t, withMetrics True TaskSubmitted w))"
proof -
  have nb: "TrimSpace ''t1'' = ''t1''" by code_simp
  have st: "createStatus (sampleParams key) (calmWorld [] ()) = StatusPending"
    by (simp add: createStatus_def timeAfter_def sampleParams_def)
  have tr: "withTraceID (sampleParams key) w = (sampleParams key, w)" for w :: "unit world"
    by (simp add: withTraceID_def sampleParams_def nb)
  have nf: "pgFault (pgNext (createWorld (calmWorld [] ()))) = NoFault" by simp
  have "Create (sampleParams key) (calmWorld [] ()) =
      (Inr ((scanTask (newTaskRow calmEnv (sampleParams key) (createID (calmWorld [] ())) StatusPending 500))\<lparr>NewlyCreated := True\<rparr>),
       (createWorld (calmWorld [] ()))\<lparr>wPgCalls := 1,
          wTable := [newTaskRow calmEnv (sampleParams key) (createID (calmWorld [] ())) StatusPending 500]\<rparr>)"
    by (simp add: Create_eq pgExec_NoFault [OF nf] st sqlCreate_def Let_def scanTaskWithCreationFlag_eq)
  then show ?thesis
    by (simp add: ServiceCreate_def tr sampleService_def appService_def pgCreatorGetter_def Let_def
        split: prod.split option.split)
qed

theorem submission_handed_over_once_witness:
  "\<exists>t w' v. ServiceCreate (sampleService obligingRedis) (sampleParams None) (calmWorld [] ()) = (Inr t, w')
     \<and> wSent w' = [CmdXAdd ''tasks:stream'' v True]"
proof -
  obtain t w' where c: "ServiceCreate (sampleService obligingRedis) (sampleParams None) (calmWorld [] ()) = (Inr t, w')"
    and t: "NewlyCreated t" "Status t = StatusPending"
    by (simp add: sampleCreate PublishTask_def redisXAdd_def obligingRedis_def Let_def)
  have "sound (calmWorld [] ())" by simp
  from submission_handed_over_once [OF this c [unfolded sampleService_def]] c t show ?thesis by auto
qed

text \<open>Submitting again under a key that is in the table changes nothing: the caller gets the stored
  task, no command goes to Redis, the table and the metrics stay as they are. (Valid parameters, no
  fault, no insertion by another session during the statement.)\<close>

theorem resubmission_changes_nothing:
  assumes "table_ok (pgTable w)" "pgFault (pgNext w) = NoFault" "pgLate (pgNext w) (pgTable w) = pgTable w"
    and "params_ok params" "pIdempotencyKey params = Some k" "pTraceID params = Some tr" "TrimSpace tr \<noteq> ''''"
    and "r \<in> set (pgTable w)" "c_idempotency_key r = Some k"
    and "createID w \<notin> c_id ` set (pgTable w)"
  shows "\<exists>w'. ServiceCreate (appService p q) params w = (Inr (scanTask r), w')
    \<and> wSent w' = wSent w \<and> wMetrics w' = wMetrics w \<and> wTable w' = pgTable w"
proof -
  let ?p = "params\<lparr>pTraceID := Some (TrimSpace tr)\<rparr>"
  have tr: "withTraceID params w = (?p, w)" using assms(6,7) by (simp add: withTraceID_def)
  have ok: "params_ok ?p" using assms(4) by (simp add: params_ok_def)
  obtain res w' where c: "Create ?p w = (res, w')" by fastforce
  have nf: "pgFault (pgNext (createWorld w)) = NoFault" using assms(2) by simp
  have "filter (\<lambda>x. c_idempotency_key x = Some k) (pgTable w) \<noteq> []"
    using assms(8,9) by (auto simp: filter_empty_conv)
  then obtain x xs where x: "filter (\<lambda>x. c_idempotency_key x = Some k) (pgTable w) = x # xs"
    by (cases "filter (\<lambda>x. c_idempotency_key x = Some k) (pgTable w)") auto
  then have "x \<in> set (pgTable w)" "c_idempotency_key x = Some k" by (auto simp: filter_eq_Cons_iff)
  then have "x = r" using table_ok_unique_key [OF assms(1)] assms(8,9) by blast
  moreover have "Some k \<in> c_idempotency_key ` set (pgTable w)" using assms(8,9) by force
  ultimately have "Create ?p w = (Inr (scanTask r), (createWorld w)\<lparr>wPgCalls := Suc (wPgCalls w), wTable := pgTable w\<rparr>)"
    using assms(3,5) ok x
    by (simp add: Create_eq pgExec_NoFault [OF nf] sqlCreate_def Let_def scanTaskWithCreationFlag_eq scanTask_def)
  then show ?thesis
    by (simp add: ServiceCreate_def tr appService_def pgCreatorGetter_def)
qed

theorem resubmission_changes_nothing_witness:
  "\<exists>w'. ServiceCreate (sampleService obligingRedis) (sampleParams (Some ''k''))
       (calmWorld [(sampleRow ''a'' StatusPending)\<lparr>c_idempotency_key := Some ''k''\<rparr>] ())
     = (Inr (scanTask ((sampleRow ''a'' StatusPending)\<lparr>c_idempotency_key := Some ''k''\<rparr>)), w') \<and> wSent w' = []"
proof -
  let ?r = "(sampleRow ''a'' StatusPending)\<lparr>c_idempotency_key := Some ''k''\<rparr>"
  let ?w = "calmWorld [?r] ()"
  have "tasks_check ?r" by (simp add: tasks_check_def tasks_status_check_iff int4_def sampleRow_def)
  then have "table_ok (pgTable ?w)" by (simp add: table_ok_def)
  moreover have "createID ?w \<notin> c_id ` set (pgTable ?w)" by (simp add: createID_def)
  moreover have "TrimSpace ''t1'' \<noteq> ''''" by code_simp
  moreover have "pIdempotencyKey (sampleParams (Some ''k'')) = Some ''k''" "pTraceID (sampleParams (Some ''k'')) = Some ''t1''"
    by (simp_all add: sampleParams_def)
  ultimately show ?thesis
    using resubmission_changes_nothing [of ?w "sampleParams (Some ''k'')" "''k''" "''t1''" ?r]
    unfolding sampleService_def by (fastforce simp: sampleParams_ok)
qed

text \<open>The trace identifier changes nothing the store looks at.\<close>

lemma withTraceID_pg:
  assumes "withTraceID params w = (p1, w1)"
  shows "pgNext w1 = pgNext w" "pgTable w1 = pgTable w" "wEnv w1 = wEnv w" "wClockReads w1 = wClockReads w" "wSent w1 = wSent w"
    "wTable w1 = wTable w" "sound w1 = sound w" "params_ok p1 = params_ok params" "pIdempotencyKey p1 = pIdempotencyKey params" "pRunAt p1 = pRunAt params"
  using assms
  by (auto simp: withTraceID_def newTraceID_def randRead_def pgNext_def pgTable_def sound_def params_ok_def
      split: option.splits if_splits)

text \<open>A statement that runs without a fault, and without another session writing before or during it.\<close>

definition undisturbed_call :: "'r world \<Rightarrow> bool" where
  "undisturbed_call w \<longleftrightarrow> pgFault (pgNext w) = NoFault \<and> pgTable w = wTable w \<and> pgLate (pgNext w) (wTable w) = wTable w"

lemma ServiceCreate_known_key:
  assumes "undisturbed_call w" "table_ok (wTable w)" "params_ok params" "pIdempotencyKey params = Some k"
    and "r \<in> set (wTable w)" "c_idempotency_key r = Some k"
  shows "\<exists>w'. ServiceCreate (appService p q) params w = (Inr (scanTask r), w') \<and> wTable w' = wTable w \<and> wSent w' = wSent w"
proof -
  obtain p1 w1 where p1: "withTraceID params w = (p1, w1)" by fastforce
  note f = withTraceID_pg [OF p1]
  have nf: "pgFault (pgNext (createWorld w1)) = NoFault" using assms(1) by (simp add: undisturbed_call_def f)
  have "filter (\<lambda>x. c_idempotency_key x = Some k) (wTable w) \<noteq> []" using assms(5,6) by (auto simp: filter_empty_conv)
  then obtain x xs where x: "filter (\<lambda>x. c_idempotency_key x = Some k) (wTable w) = x # xs"
    by (cases "filter (\<lambda>x. c_idempotency_key x = Some k) (wTable w)") auto
  then have "x \<in> set (wTable w)" "c_idempotency_key x = Some k" by (auto simp: filter_eq_Cons_iff)
  then have "x = r" using table_ok_unique_key [OF assms(2)] assms(5,6) by blast
  moreover have "Some k \<in> c_idempotency_key ` set (wTable w)" using assms(5,6) by force
  ultimately have "\<exists>w2. Create p1 w1 = (Inr (scanTask r), w2) \<and> wTable w2 = wTable w \<and> wSent w2 = wSent w"
    using assms(1,3,4) x
    by (simp add: Create_eq pgExec_NoFault [OF nf] sqlCreate_def Let_def scanTaskWithCreationFlag_eq scanTask_def undisturbed_call_def f)
  then show ?thesis using p1 by (auto simp: ServiceCreate_def appService_def pgCreatorGetter_def)
qed

text \<open>A task without a stored key: the statement appends its row.\<close>

lemma Create_undisturbed_new:
  fixes p :: CreateTaskParams and w :: "'r world"
  defines "r \<equiv> newTaskRow (wEnv w) p (createID w) (createStatus p w) (pgNow (pgNext w))"
  assumes "undisturbed_call w" "params_ok p" "createID w \<notin> c_id ` set (wTable w)"
    and "pIdempotencyKey p = None \<or> pIdempotencyKey p \<notin> c_idempotency_key ` set (wTable w)"
  shows "Create p w = (Inr ((scanTask r)\<lparr>NewlyCreated := True\<rparr>),
    (createWorld w)\<lparr>wPgCalls := Suc (wPgCalls w), wTable := wTable w @ [r]\<rparr>)"
proof -
  have nf: "pgFault (pgNext (createWorld w)) = NoFault" using assms(2) by (simp add: undisturbed_call_def)
  have key: "\<not> (pIdempotencyKey p \<noteq> None \<and> pIdempotencyKey p \<in> c_idempotency_key ` set (wTable w))" using assms(5) by auto
  show ?thesis
    using assms(2-4) key unfolding r_def
    by (auto simp: Create_eq pgExec_NoFault [OF nf] sqlCreate_def Let_def scanTaskWithCreationFlag_eq undisturbed_call_def)
qed

text \<open>Every way \<open>Create\<close> can succeed: with a row of the table the statement sees, under the key, or with the row it appends.\<close>

lemma Create_Inr:
  assumes "Create p w = (Inr t, w')"
  shows "\<exists>r. t = (scanTask r)\<lparr>NewlyCreated := NewlyCreated t\<rparr> \<and> c_idempotency_key r = pIdempotencyKey p
    \<and> (if NewlyCreated t
        then r = newTaskRow (wEnv w) p (createID w) (createStatus p w) (pgNow (pgNext w)) \<and> new_row r
          \<and> wTable w' = pgLate (pgNext w) (pgTable w) @ [r]
        else pIdempotencyKey p \<noteq> None \<and> r \<in> set (pgTable w) \<and> wTable w' = pgLate (pgNext w) (pgTable w))"
proof -
  let ?r = "newTaskRow (wEnv w) p (createID w) (createStatus p w) (pgNow (pgNext w))"
  from assms obtain r b xs where
    e: "pgExec (\<lambda>c. sqlCreate (newTaskRow (wEnv w) p (createID w) (createStatus p w) (pgNow c)) c) (createWorld w)
      = (Inr ((r, b) # xs), w')" and t: "t = (scanTask r)\<lparr>NewlyCreated := b\<rparr>"
    by (auto simp: Create_eq firstRow_Inr scanTaskWithCreationFlag_eq split: prod.splits)
  have "sqlCreate ?r (pgNext w) (pgTable w) = (Inr ((r, b) # xs), wTable w')"
    using pgExec_Inr(1) [OF e] by simp
  then have "if b then r = ?r \<and> wTable w' = pgLate (pgNext w) (pgTable w) @ [?r]
    else pIdempotencyKey p \<noteq> None \<and> r \<in> set (pgTable w) \<and> c_idempotency_key r = pIdempotencyKey p
      \<and> wTable w' = pgLate (pgNext w) (pgTable w)"
    by (auto simp: sqlCreate_def Let_def map_eq_Cons_conv filter_eq_Cons_iff split: if_splits)
  moreover have "new_row ?r" by (rule newTaskRow_new [OF createStatus_cases])
  ultimately show ?thesis using t by (intro exI [of _ r]) (auto split: if_splits)
qed

text \<open>The same for the service: the hand-over leaves the table alone.\<close>

lemma ServiceCreate_Inr:
  assumes "sound w" "ServiceCreate (appService p q) params w = (Inr t, w')"
  shows "sound w' \<and> (\<exists>r. t = (scanTask r)\<lparr>NewlyCreated := NewlyCreated t\<rparr> \<and> c_idempotency_key r = pIdempotencyKey params
    \<and> (if NewlyCreated t
        then new_row r \<and> c_task_type r = pType params \<and> (\<exists>bs. bs \<noteq> [] \<and> c_id r = ''task_'' @ hexEncode bs)
          \<and> wTable w' = pgLate (pgNext w) (pgTable w) @ [r]
        else pIdempotencyKey params \<noteq> None \<and> r \<in> set (pgTable w) \<and> wTable w' = pgLate (pgNext w) (pgTable w)))"
proof -
  obtain p1 w1 where p1: "withTraceID params w = (p1, w1)" by fastforce
  note f = withTraceID_pg [OF p1]
  have ty: "pType p1 = pType params" using p1 by (auto simp: withTraceID_def newTraceID_def split: option.splits if_splits prod.splits)
  from assms(2) p1 obtain w2 where c2: "Create p1 w1 = (Inr t, w2)"
    by (auto simp: ServiceCreate_def appService_def pgCreatorGetter_def split: prod.splits sum.splits option.splits if_splits)
  have "wTable w' = wTable w2 \<and> wEnv w' = wEnv w2"
    using assms(2) p1 c2
    by (auto simp: ServiceCreate_def appService_def pgCreatorGetter_def withMetrics_def
        split: prod.splits sum.splits option.splits if_splits dest!: redis_only_methods(1,3) dest: redis_onlyD)
  moreover have "sound w2" by (rule db_effect_sound [OF Create_effect [OF _ c2]]) (use assms(1) f in simp_all)
  moreover have "\<exists>bs. bs \<noteq> [] \<and> createID w1 = ''task_'' @ hexEncode bs"
    by (rule exI [of _ "map (envRand (wEnv w1) (wRandReads w1)) [0..<16]"]) (simp add: createID_def)
  moreover from Create_Inr [OF c2] obtain r where t: "t = (scanTask r)\<lparr>NewlyCreated := NewlyCreated t\<rparr>"
    and r: "c_idempotency_key r = pIdempotencyKey p1" "if NewlyCreated t
        then r = newTaskRow (wEnv w1) p1 (createID w1) (createStatus p1 w1) (pgNow (pgNext w1)) \<and> new_row r
          \<and> wTable w2 = pgLate (pgNext w1) (pgTable w1) @ [r]
        else pIdempotencyKey p1 \<noteq> None \<and> r \<in> set (pgTable w1) \<and> wTable w2 = pgLate (pgNext w1) (pgTable w1)" by blast
  have new: "new_row r \<and> c_id r = createID w1 \<and> c_task_type r = pType params \<and> wTable w2 = pgLate (pgNext w) (pgTable w) @ [r]"
    if n: "NewlyCreated t"
  proof -
    have e: "r = newTaskRow (wEnv w1) p1 (createID w1) (createStatus p1 w1) (pgNow (pgNext w1))"
      "new_row r \<and> wTable w2 = pgLate (pgNext w) (pgTable w) @ [r]"
      using r(2) n unfolding f by argo+
    moreover have "c_id r = createID w1 \<and> c_task_type r = pType p1" unfolding e(1) by (simp add: newTaskRow_def)
    ultimately show ?thesis using ty by simp
  qed
  have old: "pIdempotencyKey params \<noteq> None \<and> r \<in> set (pgTable w) \<and> wTable w2 = pgLate (pgNext w) (pgTable w)"
    if "\<not> NewlyCreated t" using r(2) that by (simp add: f)
  ultimately have "sound w'" "if NewlyCreated t
        then new_row r \<and> c_task_type r = pType params \<and> (\<exists>bs. bs \<noteq> [] \<and> c_id r = ''task_'' @ hexEncode bs)
          \<and> wTable w' = pgLate (pgNext w) (pgTable w) @ [r]
        else pIdempotencyKey params \<noteq> None \<and> r \<in> set (pgTable w) \<and> wTable w' = pgLate (pgNext w) (pgTable w)"
    using new by (simp_all add: sound_def)
  with t r(1) f(9) show ?thesis by metis
qed

text \<open>C36. What a failed hand-over leaves behind. In an undisturbed session a client submits a new task that is due, and
  Redis answers the entry with an error. Then the client gets an error, although the row is already committed: the table has
  grown by exactly this row, pending and never claimed, and its one entry was refused. When the client submits again under
  its key, it gets this task as if all were well, and still no entry is offered to the stream.\<close>

theorem publish_failure_leaves_pending_row:
  assumes "sound w" "undisturbed_call w" "params_ok params" "\<not> timeAfter (pRunAt params) (envClock (wEnv w) (wClockReads w))"
    and "pIdempotencyKey params = None \<or> pIdempotencyKey params \<notin> c_idempotency_key ` set (wTable w)"
    and "createID (snd (withTraceID params w)) \<notin> c_id ` set (wTable w)"
    and "\<forall>vals rs. \<exists>e rs'. rcXAdd (rspClient p) (rspStreamName p) vals rs = (Inl e, rs')"
  shows "\<exists>r e w'. ServiceCreate (appService p q) params w = (Inl (Wrapf ''publish created task: '' e []), w')
    \<and> wTable w' = wTable w @ [r] \<and> new_row r \<and> c_status r = StatusPending \<and> c_idempotency_key r = pIdempotencyKey params
    \<and> wSent w' = wSent w @ [CmdXAdd (rspStreamName p)
        (taskValues \<lparr>mID = c_id r, mType = c_task_type r, mTraceID = derefString (c_trace_id r)\<rparr>) False]
    \<and> (\<forall>v. pIdempotencyKey params \<noteq> None \<and> wTable v = wTable w' \<and> undisturbed_call v \<longrightarrow>
         (\<exists>v'. ServiceCreate (appService p q) params v = (Inr (scanTask r), v') \<and> wTable v' = wTable v \<and> wSent v' = wSent v))"
proof -
  obtain p1 w1 where p1: "withTraceID params w = (p1, w1)" by fastforce
  note f = withTraceID_pg [OF p1]
  let ?r = "newTaskRow (wEnv w1) p1 (createID w1) StatusPending (pgNow (pgNext w1))"
  have st: "createStatus p1 w1 = StatusPending" using assms(4) by (simp add: createStatus_def f)
  have "undisturbed_call w1" using assms(2) by (simp add: undisturbed_call_def f)
  moreover have "createID w1 \<notin> c_id ` set (wTable w1)" using assms(6) p1 by (simp add: f)
  ultimately have "Create p1 w1 = (Inr ((scanTask ?r)\<lparr>NewlyCreated := True\<rparr>),
      (createWorld w1)\<lparr>wPgCalls := Suc (wPgCalls w1), wTable := wTable w1 @ [?r]\<rparr>)"
    using Create_undisturbed_new [of w1 p1] assms(3,5) by (simp add: f st)
  then obtain w2 where c: "Create p1 w1 = (Inr ((scanTask ?r)\<lparr>NewlyCreated := True\<rparr>), w2)"
    "wTable w2 = wTable w @ [?r]" "wSent w2 = wSent w" by (simp add: f)
  let ?m = "\<lparr>mID = c_id ?r, mType = c_task_type ?r, mTraceID = derefString (c_trace_id ?r)\<rparr>"
  obtain res w3 where pub: "PublishTask p ?m w2 = (res, w3)" by fastforce
  moreover obtain e where "res = Some e" using pub assms(7) [rule_format, of "taskValues ?m" "wRedis w2"]
    by (auto simp: PublishTask_def redisXAdd_def split: prod.splits sum.splits)
  ultimately have s: "ServiceCreate (appService p q) params w = (Inl (Wrapf ''publish created task: '' e []), w3)"
    and sent: "wSent w3 = wSent w @ [CmdXAdd (rspStreamName p) (taskValues ?m) False]" and tb: "wTable w3 = wTable w @ [?r]"
    using p1 c PublishTask_sent [OF pub] redis_only_methods(1) [OF pub]
    by (auto simp: ServiceCreate_def appService_def pgCreatorGetter_def redis_onlyD)
  have "sound w2" by (rule db_effect_sound [OF Create_effect [OF _ c(1)]]) (use assms(1) f in simp_all)
  then have ok: "table_ok (wTable w3)" using c(2) tb by (auto simp: sound_def)
  have "\<exists>v'. ServiceCreate (appService p q) params v = (Inr (scanTask ?r), v') \<and> wTable v' = wTable v \<and> wSent v' = wSent v"
    if "pIdempotencyKey params \<noteq> None" "wTable v = wTable w3" "undisturbed_call v" for v
    using ServiceCreate_known_key [OF that(3) _ assms(3), of _ ?r p q] that ok tb f(9) by auto
  then show ?thesis
    using s sent tb newTaskRow_new [of StatusPending] f(9) by (intro exI [of _ ?r] exI [of _ e] exI [of _ w3]) simp
qed

theorem publish_failure_leaves_pending_row_witness:
  "\<exists>e w' r. ServiceCreate (sampleService refusingRedis) (sampleParams (Some ''k'')) (calmWorld [] ()) = (Inl e, w')
     \<and> wTable w' = [r] \<and> c_status r = StatusPending"
proof -
  have "undisturbed_call (calmWorld [] ())" "\<not> timeAfter (pRunAt (sampleParams (Some ''k''))) 500"
    by (simp_all add: undisturbed_call_def sampleParams_def timeAfter_def)
  then show ?thesis
    using publish_failure_leaves_pending_row [of "calmWorld [] ()" "sampleParams (Some ''k'')" "\<lparr>rspClient = refusingRedis, rspStreamName = ''tasks:stream''\<rparr>"
        "\<lparr>rsqClient = refusingRedis, rsqKey = ''tasks:scheduled''\<rparr>"]
    by (fastforce simp: sampleService_def refusingRedis_def)
qed

end
