(* ===== verification/Handlers.thy ===== *)
theory Handlers
  imports Samples
begin

text \<open>
  The task handlers of \<open>internal/worker\<close>: the error classes of \<open>errors.go\<close>, the registry
  of \<open>handler.go\<close>, and the two handlers that ship, \<open>demo_echo.go\<close> and
  \<open>webhook_deliver.go\<close>. A handler is a function of the task and the world; \<open>None\<close> is a nil
  error.
\<close>

section \<open>Error classes\<close>

definition Retryable :: "goerror option \<Rightarrow> goerror option" where
  "Retryable err = (case err of None \<Rightarrow> None | Some e \<Rightarrow> Some (RetryableError e))"

definition NonRetryable :: "goerror option \<Rightarrow> goerror option" where
  "NonRetryable err = (case err of None \<Rightarrow> None | Some e \<Rightarrow> Some (NonRetryableError e))"

text \<open>\<open>errors.As(err, &target)\<close> for the type \<open>NonRetryableError\<close>: some error of the chain has it.\<close>

fun asNonRetryable :: "goerror \<Rightarrow> bool" where
  "asNonRetryable (NonRetryableError e) = True"
| "asNonRetryable (Wrapf p e q) = asNonRetryable e"
| "asNonRetryable (RetryableError e) = asNonRetryable e"
| "asNonRetryable _ = False"

definition IsNonRetryable :: "goerror option \<Rightarrow> bool" where
  "IsNonRetryable err = (case err of None \<Rightarrow> False | Some e \<Rightarrow> asNonRetryable e)"

section \<open>The registry\<close>

type_synonym 'r Handler = "Task \<Rightarrow> 'r world \<Rightarrow> goerror option \<times> 'r world"

text \<open>\<open>HandlerFunc.Handle\<close>: a function is a handler.\<close>

definition HandlerFunc :: "(Task \<Rightarrow> 'r world \<Rightarrow> goerror option \<times> 'r world) \<Rightarrow> 'r Handler" where
  "HandlerFunc f = (\<lambda>taskModel w. f taskModel w)"

type_synonym 'r HandlerRegistry = "string \<rightharpoonup> 'r Handler"

definition NewHandlerRegistry :: "'r HandlerRegistry" where
  "NewHandlerRegistry = Map.empty"

text \<open>A nil handler is \<open>None\<close>. The lock makes the check and the insertion one step.\<close>

definition Register :: "(string \<Rightarrow> string) \<Rightarrow> string \<Rightarrow> 'r Handler option \<Rightarrow> 'r HandlerRegistry
    \<Rightarrow> goerror option \<times> 'r HandlerRegistry" where
  "Register quote taskType handler r =
     (let normalizedTaskType = TrimSpace taskType
      in if normalizedTaskType = '''' then (Some (NewError ''task_type is required''), r)
         else case handler of
           None \<Rightarrow> (Some (NewError (''handler for task_type '' @ quote normalizedTaskType @ '' is nil'')), r)
         | Some h \<Rightarrow>
             if r normalizedTaskType \<noteq> None
             then (Some (NewError (''handler already registered for task_type '' @ quote normalizedTaskType)), r)
             else (None, r(normalizedTaskType \<mapsto> h)))"

definition RegistryHandle :: "'r HandlerRegistry \<Rightarrow> Task option \<Rightarrow> 'r world \<Rightarrow> goerror option \<times> 'r world" where
  "RegistryHandle r taskModel w =
     (case taskModel of
        None \<Rightarrow> (Some (NewError ''task is nil''), w)
      | Some t \<Rightarrow>
          (case r (TrimSpace (Type t)) of
             None \<Rightarrow> (NonRetryable (Some (UnknownTaskTypeError (Type t))), w)
           | Some handler \<Rightarrow> handler t w))"

section \<open>The handlers\<close>

text \<open>\<open>DemoEchoHandler\<close> only logs.\<close>

definition DemoEchoHandle :: "'r Handler" where
  "DemoEchoHandle taskModel w = (None, w)"

record WebhookDeliverHandler =
  whClient :: "http_client option"
  whTimeout :: Duration

definition defaultWebhookTimeout :: Duration where
  "defaultWebhookTimeout = wrap64 (10 * Second)"

text \<open>\<open>json.Unmarshal\<close> into the payload: unknown fields are ignored, a \<open>null\<close> among the headers gives the
  empty text, and a body keeps its text, \<open>null\<close> included.\<close>

fun storeHeaders :: "(string \<times> string \<times> json) list \<Rightarrow> (string \<times> string) list \<Rightarrow> (string \<times> string) list option" where
  "storeHeaders [] hs = Some hs"
| "storeHeaders ((key, _, v) # ms) hs =
     (case storeString v '''' of None \<Rightarrow> None | Some x \<Rightarrow> storeHeaders ms (AList.update key x hs))"

definition storeWebhook :: "string \<Rightarrow> string \<times> string \<times> json \<Rightarrow> webhookDeliverPayload \<Rightarrow> webhookDeliverPayload option" where
  "storeWebhook field = (\<lambda>(_, raw, v) p.
     if field = ''url'' then map_option (\<lambda>x. p\<lparr>URL := x\<rparr>) (storeString v (URL p))
     else if field = ''method'' then map_option (\<lambda>x. p\<lparr>Method := x\<rparr>) (storeString v (Method p))
     else if field = ''headers'' then
       (case v of
          JObject ms \<Rightarrow> map_option (\<lambda>hs. p\<lparr>Headers := hs\<rparr>) (storeHeaders ms (Headers p))
        | JNull \<Rightarrow> Some (p\<lparr>Headers := []\<rparr>)
        | _ \<Rightarrow> None)
     else Some (p\<lparr>Body := Some raw\<rparr>))"

definition unmarshalWebhook :: "env \<Rightarrow> string \<Rightarrow> goerror + webhookDeliverPayload" where
  "unmarshalWebhook e raw =
     (case unmarshalValue raw of
        None \<Rightarrow> Inl (envJsonError e raw)
      | Some v \<Rightarrow>
          (case decodeStruct storeWebhook [''url'', ''method'', ''headers'', ''body''] False
                  \<lparr>URL = '''', Method = '''', Headers = [], Body = None\<rparr> v of
             None \<Rightarrow> Inl (envJsonError e raw)
           | Some p \<Rightarrow> Inr p))"

definition parseWebhookDeliverPayload :: "env \<Rightarrow> string \<Rightarrow> goerror + webhookDeliverPayload" where
  "parseWebhookDeliverPayload e raw =
     (if raw = '''' then Inl (NonRetryableError (NewError ''webhook payload is required''))
      else case unmarshalWebhook e raw of
        Inl err \<Rightarrow> Inl (NonRetryableError (Wrapf ''decode webhook payload: '' err ''''))
      | Inr payload0 \<Rightarrow>
          let payload1 = payload0\<lparr>URL := TrimSpace (URL payload0),
                                  Method := ToUpper (envToUpper e) (TrimSpace (Method payload0))\<rparr>;
              payload2 = (if Method payload1 = '''' then payload1\<lparr>Method := ''POST''\<rparr> else payload1)
          in if URL payload2 = '''' then Inl (NonRetryableError (NewError ''webhook payload url is required''))
             else Inr (if Body payload2 = None then payload2\<lparr>Body := Some ''null''\<rparr> else payload2))"

text \<open>\<open>net/http\<close>: the characters of a token, the canonical spelling of a header key, and the
  checks of \<open>http.NewRequestWithContext\<close>.\<close>

definition isTokenChar :: "char \<Rightarrow> bool" where
  "isTokenChar c \<longleftrightarrow>
     (let n = of_char c :: nat
      in 48 \<le> n \<and> n \<le> 57 \<or> 65 \<le> n \<and> n \<le> 90 \<or> 97 \<le> n \<and> n \<le> 122) \<or> c \<in> set ''!#$%&*+-.^_|~'' \<or> c = CHR 0x27 \<or> c = CHR 0x60"

fun canonicalize :: "bool \<Rightarrow> string \<Rightarrow> string" where
  "canonicalize upper [] = []"
| "canonicalize upper (c # cs) = (if upper then asciiUpper c else asciiLower c) # canonicalize (c = CHR ''-'') cs"

definition CanonicalHeaderKey :: "string \<Rightarrow> string" where
  "CanonicalHeaderKey s = (if list_all isTokenChar s then canonicalize True s else s)"

definition validMethod :: "string \<Rightarrow> bool" where
  "validMethod s \<longleftrightarrow> s \<noteq> '''' \<and> list_all isTokenChar s"

definition NewRequest :: "env \<Rightarrow> string \<Rightarrow> string \<Rightarrow> string \<Rightarrow> goerror + HttpRequest" where
  "NewRequest e method url body =
     (if \<not> validMethod method then Inl (NewError (''net/http: invalid method '' @ envQuote e method))
      else case envParseURL e url of
        Some err \<Rightarrow> Inl err
      | None \<Rightarrow> Inr \<lparr>rqMethod = method, rqURL = url, rqHeader = [], rqBody = body\<rparr>)"

definition headerSet :: "string \<times> string \<Rightarrow> HttpRequest \<Rightarrow> HttpRequest" where
  "headerSet = (\<lambda>(key, value) req. req\<lparr>rqHeader := AList.update (CanonicalHeaderKey key) value (rqHeader req)\<rparr>)"

text \<open>The classification of the status code.\<close>

definition webhookResult :: "int \<Rightarrow> goerror option" where
  "webhookResult code =
     (if code \<ge> 200 \<and> code < 300 then None
      else if code \<ge> 400 \<and> code < 500
      then NonRetryable (Some (NewError (''webhook returned non-retryable status '' @ FormatInt code)))
      else if code \<ge> 500
      then Retryable (Some (NewError (''webhook returned retryable status '' @ FormatInt code)))
      else Retryable (Some (NewError (''webhook returned unexpected status '' @ FormatInt code))))"

definition WebhookDeliverHandle :: "WebhookDeliverHandler \<Rightarrow> 'r Handler" where
  "WebhookDeliverHandle h taskModel w =
     (case parseWebhookDeliverPayload (wEnv w) (Payload taskModel) of
        Inl err \<Rightarrow> (Some err, w)
      | Inr payload \<Rightarrow>
          let timeout = (if whTimeout h \<le> 0 then defaultWebhookTimeout else whTimeout h)
          in case NewRequest (wEnv w) (Method payload) (URL payload)
                    (case Body payload of None \<Rightarrow> '''' | Some b \<Rightarrow> b) of
               Inl err \<Rightarrow> (Some (Wrapf ''create webhook request: '' err ''''), w)
             | Inr req0 \<Rightarrow>
                 let req = fold headerSet (envMapOrder (wEnv w) (Headers payload)) req0;
                     client = (case whClient h of None \<Rightarrow> envDefaultClient (wEnv w) | Some c \<Rightarrow> c)
                 in case httpDo client req w of
                      (Inl err, w1) \<Rightarrow>
                        (case ctxErr w1 of (cerr, w2) \<Rightarrow>
                           if errIs cerr DeadlineExceeded
                           then (Retryable (Some (NewError (''webhook request timed out after '' @ durationString timeout))), w2)
                           else (Retryable (Some (Wrapf ''webhook request failed: '' err '''')), w2))
                    | (Inr code, w1) \<Rightarrow> (webhookResult code, w1))"


text \<open>The registry as \<open>internal/app\<close> fills it; an error of a registration ends the start-up.\<close>

definition appHandlerRegistry :: "(string \<Rightarrow> string) \<Rightarrow> goerror + 'r HandlerRegistry" where
  "appHandlerRegistry quote =
     (case Register quote ''demo.echo'' (Some DemoEchoHandle) NewHandlerRegistry of
        (Some err, r) \<Rightarrow> Inl err
      | (None, r) \<Rightarrow>
          (case Register quote ''webhook.deliver''
                  (Some (WebhookDeliverHandle \<lparr>whClient = None, whTimeout = 0\<rparr>)) r of
             (Some err, r1) \<Rightarrow> Inl err
           | (None, r1) \<Rightarrow> Inr r1))"

section \<open>Frames\<close>

text \<open>\<open>w'\<close> differs from \<open>w\<close> only in what a handler may do: read the clock, random bytes and the
  state of its context, and send HTTP requests.\<close>

definition outside_only :: "'r world \<Rightarrow> 'r world \<Rightarrow> bool" where
  "outside_only w w' \<longleftrightarrow> w'\<lparr>wClockReads := 0, wRandReads := 0, wCtxReads := 0, wHttp := []\<rparr>
     = w\<lparr>wClockReads := 0, wRandReads := 0, wCtxReads := 0, wHttp := []\<rparr>"

lemma outside_only_refl [simp]: "outside_only w w"
  by (simp add: outside_only_def)

lemma outside_only_trans: "outside_only a b \<Longrightarrow> outside_only b c \<Longrightarrow> outside_only a c"
  by (simp add: outside_only_def)

lemma outside_onlyD:
  assumes "outside_only w w'"
  shows "wEnv w' = wEnv w" "wTable w' = wTable w" "wPgCalls w' = wPgCalls w" "wRedis w' = wRedis w"
    "wSent w' = wSent w" "wMetrics w' = wMetrics w"
  using assms unfolding outside_only_def
  by (auto dest: arg_cong [where f = wEnv] arg_cong [where f = wTable] arg_cong [where f = wPgCalls]
      arg_cong [where f = wRedis] arg_cong [where f = wSent] arg_cong [where f = wMetrics])

lemma outside_only_reads [simp]:
  "outside_only w (snd (timeNow w))" "outside_only w (snd (randRead n w))" "outside_only w (snd (ctxErr w))"
  "outside_only w (snd (httpDo c q w))"
  by (simp_all add: outside_only_def timeNow_def randRead_def ctxErr_def httpDo_def)

lemma WebhookDeliverHandle_outside: "WebhookDeliverHandle h t w = (e, w') \<Longrightarrow> outside_only w w'"
  by (auto simp: WebhookDeliverHandle_def Let_def httpDo_def ctxErr_def outside_only_def
      split: sum.splits prod.splits if_splits)

text \<open>What the worker relies on: a handler does not touch the table, Redis or the metrics.\<close>

locale task_handlers =
  fixes reg :: "'r HandlerRegistry"
  assumes handler_outside: "reg ty = Some h \<Longrightarrow> h t w = (e, w') \<Longrightarrow> outside_only w w'"
begin

lemma registry_outside: "RegistryHandle reg t w = (e, w') \<Longrightarrow> outside_only w w'"
  by (auto simp: RegistryHandle_def split: option.splits dest: handler_outside)

end

lemma appHandlerRegistry_eq:
  "appHandlerRegistry quote = Inr [''demo.echo'' \<mapsto> DemoEchoHandle,
     ''webhook.deliver'' \<mapsto> WebhookDeliverHandle \<lparr>whClient = None, whTimeout = 0\<rparr>]"
proof -
  have "TrimSpace ''demo.echo'' = ''demo.echo''" "TrimSpace ''webhook.deliver'' = ''webhook.deliver''"
    by code_simp+
  then show ?thesis by (simp add: appHandlerRegistry_def Register_def NewHandlerRegistry_def)
qed

definition shippedHandlers :: "'r HandlerRegistry" where
  "shippedHandlers = (case appHandlerRegistry (\<lambda>s. s) of Inl _ \<Rightarrow> Map.empty | Inr r \<Rightarrow> r)"

interpretation shh: task_handlers shippedHandlers
  by unfold_locales
    (auto simp: shippedHandlers_def appHandlerRegistry_eq DemoEchoHandle_def WebhookDeliverHandle_outside
      split: if_splits)

section \<open>Properties\<close>

lemma parseWebhook_ok:
  "parseWebhookDeliverPayload e raw = Inr p \<Longrightarrow> URL p \<noteq> '''' \<and> Method p \<noteq> '''' \<and> Body p \<noteq> None"
  by (auto simp: parseWebhookDeliverPayload_def Let_def split: sum.splits if_splits)

lemma fold_headerSet [simp]:
  "rqMethod (fold headerSet hs q) = rqMethod q" "rqURL (fold headerSet hs q) = rqURL q"
  "rqBody (fold headerSet hs q) = rqBody q"
  by (induction hs arbitrary: q) (auto simp: headerSet_def)

lemma webhookResult_cases:
  "webhookResult code = None \<longleftrightarrow> 200 \<le> code \<and> code < 300"
  "IsNonRetryable (webhookResult code) \<longleftrightarrow> 400 \<le> code \<and> code < 500"
  by (auto simp: webhookResult_def NonRetryable_def Retryable_def IsNonRetryable_def)

text \<open>C27. A webhook task is delivered by one call of \<open>client.Do\<close> at most (which may follow redirects inside), and the
  answer decides its fate. If no
  request goes out the handler reports an error. If one goes out it carries the payload's address
  and a method, and the handler succeeds exactly on a 2xx answer, gives up for good exactly on a 4xx
  answer, and asks for a retry on every other answer and on every transport error.\<close>

theorem webhook_delivery_classified:
  assumes "WebhookDeliverHandle h t w = (res, w')"
    and "client = (case whClient h of None \<Rightarrow> envDefaultClient (wEnv w) | Some c \<Rightarrow> c)"
    and "\<forall>n q e. client n q = Inl e \<longrightarrow> \<not> asNonRetryable e"
  shows "(wHttp w' = wHttp w \<and> res \<noteq> None)
    \<or> (\<exists>p req. parseWebhookDeliverPayload (wEnv w) (Payload t) = Inr p
        \<and> wHttp w' = wHttp w @ [req] \<and> rqURL req = URL p \<and> rqURL req \<noteq> ''''
        \<and> rqMethod req = Method p \<and> validMethod (rqMethod req) \<and> Some (rqBody req) = Body p
        \<and> (case client (length (wHttp w)) req of
             Inl e \<Rightarrow> res \<noteq> None \<and> \<not> IsNonRetryable res
           | Inr code \<Rightarrow> (res = None \<longleftrightarrow> 200 \<le> code \<and> code < 300)
               \<and> (IsNonRetryable res \<longleftrightarrow> 400 \<le> code \<and> code < 500)))"
proof (cases "parseWebhookDeliverPayload (wEnv w) (Payload t)")
  case (Inl e)
  with assms(1) show ?thesis by (auto simp: WebhookDeliverHandle_def)
next
  case (Inr p)
  note p = parseWebhook_ok [OF this]
  then obtain b where b: "Body p = Some b" by auto
  show ?thesis
  proof (cases "NewRequest (wEnv w) (Method p) (URL p) b")
    case (Inl e)
    with assms(1) Inr b show ?thesis by (auto simp: WebhookDeliverHandle_def)
  next
    case q: (Inr q)
    let ?req = "fold headerSet (envMapOrder (wEnv w) (Headers p)) q"
    have v: "rqMethod q = Method p \<and> rqURL q = URL p \<and> rqBody q = b \<and> validMethod (Method p)"
      using q by (auto simp: NewRequest_def split: if_splits option.splits)
    have r: "case client (length (wHttp w)) ?req of
        Inl e \<Rightarrow> wHttp w' = wHttp w @ [?req] \<and> res \<noteq> None \<and> \<not> IsNonRetryable res
      | Inr code \<Rightarrow> wHttp w' = wHttp w @ [?req] \<and> res = webhookResult code"
      using assms(1) Inr q b unfolding assms(2)
      by (auto simp: WebhookDeliverHandle_def httpDo_def ctxErr_def Let_def Retryable_def IsNonRetryable_def
          assms(3) [unfolded assms(2), rule_format] split: sum.splits if_splits)
    show ?thesis
      by (intro disjI2 exI [of _ p] exI [of _ ?req]) (use r v p b Inr in \<open>auto simp: webhookResult_cases split: sum.splits\<close>)
  qed
qed

theorem webhook_delivery_classified_witness:
  "\<exists>res w'. WebhookDeliverHandle \<lparr>whClient = Some (\<lambda>_ _. Inr 404), whTimeout = 0\<rparr>
       ((scanTask (sampleRow ''a'' StatusRunning))\<lparr>Payload := ''{\"url\":\"u\"}''\<rparr>) (calmWorld [] ()) = (res, w')
     \<and> IsNonRetryable res \<and> length (wHttp w') = 1"
proof -
  let ?h = "\<lparr>whClient = Some (\<lambda>_ _. Inr 404), whTimeout = 0\<rparr>"
  let ?t = "(scanTask (sampleRow ''a'' StatusRunning))\<lparr>Payload := ''{\"url\":\"u\"}''\<rparr>"
  obtain res w' where e: "WebhookDeliverHandle ?h ?t (calmWorld [] ()) = (res, w')" by fastforce
  have "unmarshalWebhook calmEnv ''{\"url\":\"u\"}'' = Inr \<lparr>URL = ''u'', Method = '''', Headers = [], Body = None\<rparr>"
    by code_simp
  moreover have "TrimSpace ''u'' = ''u''" "TrimSpace '''' = ''''" "ToUpper (\<lambda>s. s) '''' = ''''" "validMethod ''POST''" by code_simp+
  ultimately have "wHttp w' \<noteq> []" using e
    by (auto simp: WebhookDeliverHandle_def parseWebhookDeliverPayload_def NewRequest_def httpDo_def Let_def
        ToUpper_def)
  with webhook_delivery_classified [OF e refl] e show ?thesis by auto
qed


text \<open>Registration is write-once and dispatch goes by the trimmed type. After a successful
  registration every task whose type trims to the registered name runs that handler, tasks of other
  types are dispatched as before, and no later registration under that name succeeds or changes the
  registry. A task no handler is registered for fails with a non-retryable error and has no effect.\<close>

theorem registered_handler_dispatched:
  assumes "Register quote ty (Some h) r = (None, r')"
  shows "(\<forall>t w. RegistryHandle r' (Some t) w =
            (if TrimSpace (Type t) = TrimSpace ty then h t w else RegistryHandle r (Some t) w))
    \<and> (\<forall>ty' h'. TrimSpace ty' = TrimSpace ty \<longrightarrow> (\<exists>e. Register quote ty' h' r' = (Some e, r')))
    \<and> (\<forall>t w. r' (TrimSpace (Type t)) = None \<longrightarrow>
         (\<exists>e. RegistryHandle r' (Some t) w = (Some e, w) \<and> IsNonRetryable (Some e)))"
proof -
  from assms have ne: "TrimSpace ty \<noteq> ''''" and r': "r' = r(TrimSpace ty \<mapsto> h)"
    by (auto simp: Register_def Let_def split: if_splits)
  have "\<exists>e. Register quote ty' h' r' = (Some e, r')" if "TrimSpace ty' = TrimSpace ty" for ty' h'
    using that ne by (cases h') (auto simp: Register_def Let_def r')
  then show ?thesis
    by (auto simp: RegistryHandle_def r' NonRetryable_def IsNonRetryable_def split: option.split)
qed

theorem registered_handler_dispatched_witness:
  "RegistryHandle (snd (Register (\<lambda>s. s) '' demo.echo '' (Some DemoEchoHandle) NewHandlerRegistry))
     (Some (scanTask (sampleRow ''a'' StatusRunning))) (calmWorld [] ()) = (None, calmWorld [] ())"
proof -
  have t: "TrimSpace '' demo.echo '' = ''demo.echo''" "TrimSpace ''demo.echo'' = ''demo.echo''" by code_simp+
  obtain r' :: "unit HandlerRegistry" where r': "Register (\<lambda>s. s) '' demo.echo '' (Some DemoEchoHandle) NewHandlerRegistry = (None, r')"
    by (simp add: Register_def t NewHandlerRegistry_def)
  show ?thesis
    using registered_handler_dispatched [OF r'] by (simp add: r' t DemoEchoHandle_def)
qed

end
