(* ===== verification/Worker.thy ===== *)
theory Worker
  imports Service Handlers
begin

text \<open>
  The worker of \<open>internal/worker/worker.go\<close>, as far as one message goes: claiming the task,
  executing it under a deadline, recording the outcome and acknowledging the message. The main loop
  and the pool of goroutines are in \<open>WorkerPool\<close>.
\<close>

section \<open>The worker\<close>

record 'r Worker =
  wkConsumer :: "'r Consumer"
  wkStore :: "'r TaskStore"
  wkHandlers :: "'r HandlerRegistry"
  wkName :: string
  wkMetrics :: bool
  wkDeadPublisher :: "'r DeadPublisher option"
  wkConcurrency :: int
  wkBatchSize :: int
  wkSem :: int
  wkPendingMinIdle :: Duration
  wkPendingClaimBatch :: int
  wkPendingRecoveryTick :: Duration
  wkLastPendingRecovery :: Time

definition defaultWorkerConcurrency :: int where "defaultWorkerConcurrency = 4"
definition defaultWorkerBatchSize :: int where "defaultWorkerBatchSize = 10"

definition WorkerNew :: "'r Consumer \<Rightarrow> 'r TaskStore \<Rightarrow> string \<Rightarrow> 'r Worker" where
  "WorkerNew consumer store name =
     \<lparr>wkConsumer = consumer, wkStore = store, wkHandlers = NewHandlerRegistry, wkName = name,
      wkMetrics = False, wkDeadPublisher = None, wkConcurrency = defaultWorkerConcurrency,
      wkBatchSize = defaultWorkerBatchSize, wkSem = defaultWorkerConcurrency,
      wkPendingMinIdle = wrap64 (30 * Second), wkPendingClaimBatch = 10,
      wkPendingRecoveryTick = wrap64 (5 * Second), wkLastPendingRecovery = 0\<rparr>"

definition WithConcurrency :: "int \<Rightarrow> 'r Worker \<Rightarrow> 'r Worker" where
  "WithConcurrency n wk = (if n > 0 then wk\<lparr>wkConcurrency := n, wkSem := n\<rparr> else wk)"

definition WithBatchSize :: "int \<Rightarrow> 'r Worker \<Rightarrow> 'r Worker" where
  "WithBatchSize n wk = (if n > 0 then wk\<lparr>wkBatchSize := n\<rparr> else wk)"

definition WithHandlerRegistry :: "'r HandlerRegistry option \<Rightarrow> 'r Worker \<Rightarrow> 'r Worker" where
  "WithHandlerRegistry registry wk = (case registry of None \<Rightarrow> wk | Some r \<Rightarrow> wk\<lparr>wkHandlers := r\<rparr>)"

definition WithPendingRecovery :: "Duration \<Rightarrow> int \<Rightarrow> Duration \<Rightarrow> 'r Worker \<Rightarrow> 'r Worker" where
  "WithPendingRecovery minIdle batch tick wk =
     wk\<lparr>wkPendingMinIdle := minIdle, wkPendingClaimBatch := batch, wkPendingRecoveryTick := tick\<rparr>"

definition WithMetrics :: "bool \<Rightarrow> 'r Worker \<Rightarrow> 'r Worker" where
  "WithMetrics present wk = wk\<lparr>wkMetrics := present\<rparr>"

definition WithDeadPublisher :: "'r DeadPublisher option \<Rightarrow> 'r Worker \<Rightarrow> 'r Worker" where
  "WithDeadPublisher publisher wk = wk\<lparr>wkDeadPublisher := publisher\<rparr>"

definition RegisterHandler :: "(string \<Rightarrow> string) \<Rightarrow> string \<Rightarrow> 'r Handler option \<Rightarrow> 'r Worker
    \<Rightarrow> goerror option \<times> 'r Worker" where
  "RegisterHandler quote taskType handler wk =
     (case Register quote taskType handler (wkHandlers wk) of (err, r) \<Rightarrow> (err, wk\<lparr>wkHandlers := r\<rparr>))"

section \<open>One message\<close>

text \<open>\<open>if w.metrics != nil { w.metrics.f(time.Since(start)) }\<close>.\<close>

definition observeSince :: "bool \<Rightarrow> (Duration \<Rightarrow> Registry \<Rightarrow> Registry) \<Rightarrow> Time \<Rightarrow> 'r world \<Rightarrow> 'r world" where
  "observeSince present f start w =
     (if present then case timeNow w of (now, w1) \<Rightarrow> w1\<lparr>wMetrics := f (timeSub now start) (wMetrics w1)\<rparr> else w)"

definition executeWithTimeout :: "'r Worker \<Rightarrow> Task \<Rightarrow> 'r world \<Rightarrow> goerror option \<times> 'r world" where
  "executeWithTimeout wk runningTask w =
     (let timeout0 = secondsDuration (TimeoutSeconds runningTask);
          timeout = (if timeout0 \<le> 0 then wrap64 (300 * Second) else timeout0)
      in case RegistryHandle (wkHandlers wk) (Some runningTask) w of (err, w1) \<Rightarrow>
         case ctxErr w1 of (cerr, w2) \<Rightarrow>
           if errIs cerr DeadlineExceeded
           then (Some (NewError (''task execution timed out after '' @ durationString timeout)), w2)
           else (err, w2))"

text \<open>\<open>case task.StatusRetrying: \<dots> case task.StatusDead: \<dots>\<close>\<close>

definition countFinal :: "Status \<Rightarrow> Registry \<Rightarrow> Registry" where
  "countFinal st r = (if st = StatusRetrying then TaskRetried r else if st = StatusDead then TaskDead r else r)"

text \<open>Lines 308 to 314.\<close>

definition failureDecision :: "goerror \<Rightarrow> Time \<Rightarrow> Task \<Rightarrow> FailureDecision" where
  "failureDecision executionErr now failedTask =
     (if IsNonRetryable (Some executionErr)
      then \<lparr>dStatus = StatusDead, dRetryCount = RetryCount failedTask, dNextRetryAt = None\<rparr>
      else DecideFailure now (RetryCount failedTask) (MaxRetries failedTask))"

definition handleExecutionFailure :: "'r Worker \<Rightarrow> Task \<Rightarrow> string \<Rightarrow> goerror \<Rightarrow> 'r world \<Rightarrow> goerror option \<times> 'r world" where
  "handleExecutionFailure wk runningTask traceID executionErr w =
     (let failure = errorText (envQuote (wEnv w)) executionErr
      in case tsMarkFailed (wkStore wk) (ID runningTask) failure w of
        (Inl err, w1) \<Rightarrow> (Some err, w1)
      | (Inr failedTask, w1) \<Rightarrow>
          case timeNow w1 of (now, w2) \<Rightarrow>
          case tsCompleteFailure (wkStore wk) (ID failedTask) (failureDecision executionErr now failedTask) failure w2 of
            (Inl err, w3) \<Rightarrow> (Some err, w3)
          | (Inr finalTask, w3) \<Rightarrow>
              let w4 = withMetrics (wkMetrics wk) (countFinal (Status finalTask)) w3
              in if Status finalTask = StatusDead
                 then case wkDeadPublisher wk of
                   None \<Rightarrow> (None, w4)
                 | Some publishDead \<Rightarrow>
                     (case publishDead \<lparr>dmID = ID runningTask, dmType = Type runningTask, dmTraceID = traceID,
                         dmLastError = failure, dmRetryCount = RetryCount finalTask\<rparr> w4 of (_, w5) \<Rightarrow> (None, w5))
                 else (None, w4))"

text \<open>Lines 236 to 250: the task this worker is going to execute.\<close>

definition claimTask :: "'r Worker \<Rightarrow> StreamMessage \<Rightarrow> Task \<Rightarrow> 'r world \<Rightarrow> (goerror + Task) \<times> 'r world" where
  "claimTask wk message currentTask w =
     (if smRecovered message \<and> Status currentTask = StatusRunning
      then (Inr currentTask, observeSince (wkMetrics wk) TaskStarted (CreatedAt currentTask) w)
      else case tsTransition (wkStore wk) (mID (smTask message)) StatusPending StatusRunning (Some (wkName wk)) w of
             (Inl err, w1) \<Rightarrow> (Inl err, w1)
           | (Inr runningTask, w1) \<Rightarrow>
               (Inr runningTask, observeSince (wkMetrics wk) TaskStarted (CreatedAt runningTask) w1))"

text \<open>Lines 253 to 278: execution, the record of its outcome and the acknowledgement.\<close>

definition runTask :: "'r Worker \<Rightarrow> StreamMessage \<Rightarrow> string \<Rightarrow> Task \<Rightarrow> 'r world \<Rightarrow> goerror option \<times> 'r world" where
  "runTask wk message traceID runningTask w =
     (case timeNow w of (executionStartedAt, w1) \<Rightarrow>
      case executeWithTimeout wk runningTask w1 of
        (Some err, w2) \<Rightarrow>
          (case handleExecutionFailure wk runningTask traceID err w2 of
             (Some failureErr, w3) \<Rightarrow> (Some failureErr, w3)
           | (None, w3) \<Rightarrow> coAck (wkConsumer wk) (smRedisID message)
               (observeSince (wkMetrics wk) TaskFailed executionStartedAt w3))
      | (None, w2) \<Rightarrow>
          (case tsTransition (wkStore wk) (mID (smTask message)) StatusRunning StatusSuccess (Some (wkName wk)) w2 of
             (Inl err, w3) \<Rightarrow> (Some err, w3)
           | (Inr _, w3) \<Rightarrow> coAck (wkConsumer wk) (smRedisID message)
               (observeSince (wkMetrics wk) TaskSucceeded executionStartedAt w3)))"

definition handleMessage :: "'r Worker \<Rightarrow> StreamMessage \<Rightarrow> 'r world \<Rightarrow> goerror option \<times> 'r world" where
  "handleMessage wk message w =
     (case tsGet (wkStore wk) (mID (smTask message)) w of
        (Inl err, w1) \<Rightarrow> (Some err, w1)
      | (Inr currentTask, w1) \<Rightarrow>
          let traceID = (if mTraceID (smTask message) = '''' \<and> TraceID currentTask \<noteq> None
                         then the (TraceID currentTask) else mTraceID (smTask message))
          in if IsTerminal (Status currentTask) then coAck (wkConsumer wk) (smRedisID message) w1
             else case claimTask wk message currentTask w1 of
               (Inl err, w2) \<Rightarrow> (Some err, w2)
             | (Inr runningTask, w2) \<Rightarrow> runTask wk message traceID runningTask w2)"

definition shouldRecoverPending :: "Time \<Rightarrow> 'r Worker \<Rightarrow> bool \<times> 'r Worker" where
  "shouldRecoverPending now wk =
     (if wkPendingMinIdle wk \<le> 0 \<or> wkPendingClaimBatch wk \<le> 0 \<or> wkPendingRecoveryTick wk \<le> 0 then (False, wk)
      else if timeIsZero (wkLastPendingRecovery wk)
           \<or> timeSub now (wkLastPendingRecovery wk) \<ge> wkPendingRecoveryTick wk
      then (True, wk\<lparr>wkLastPendingRecovery := now\<rparr>)
      else (False, wk))"


section \<open>The worker against its interfaces\<close>

lemma outside_only_evolved: "outside_only w w' \<Longrightarrow> evolved w w' \<and> wTable w' = wTable w \<and> wSent w' = wSent w"
  by (simp add: evolved_def outside_onlyD)

lemma observeSince_frame [simp]:
  "wTable (observeSince p f s w) = wTable w" "wSent (observeSince p f s w) = wSent w"
  "wEnv (observeSince p f s w) = wEnv w" "evolved a (observeSince p f s w) = evolved a w"
  "evolved (observeSince p f s w) b = evolved w b"
  by (simp_all add: observeSince_def timeNow_def evolved_def)

lemma timeNow_frame:
  "timeNow w = (t, w') \<Longrightarrow> wTable w' = wTable w \<and> wSent w' = wSent w \<and> wEnv w' = wEnv w \<and> evolved w w'"
  by (auto simp: timeNow_def evolved_def)

lemma withMetrics_frame [simp]:
  "wTable (withMetrics p f w) = wTable w" "wSent (withMetrics p f w) = wSent w"
  "wEnv (withMetrics p f w) = wEnv w" "evolved w (withMetrics p f w)"
  by (simp_all add: withMetrics_def evolved_def)

lemma row_inv_retry_bounds: "row_inv r \<Longrightarrow> 0 \<le> c_retry_count r \<and> c_retry_count r < maxInt"
  by (simp add: row_inv_def tasks_check_def int4_def maxInt_def)

text \<open>The dead-letter entry of a task that died.\<close>

definition deadEntry :: "Task \<Rightarrow> string \<Rightarrow> string \<Rightarrow> int \<Rightarrow> (string \<rightharpoonup> rval)" where
  "deadEntry t traceID failure n = deadValues \<lparr>dmID = ID t, dmType = Type t, dmTraceID = traceID,
     dmLastError = failure, dmRetryCount = n\<rparr>"

text \<open>A failure that was recorded: the row waits for a retry, or it is dead and one dead-letter
  entry was offered to the stream.\<close>

definition failure_recorded :: "string \<Rightarrow> Task \<Rightarrow> string \<Rightarrow> string \<Rightarrow> 'r world \<Rightarrow> 'r world \<Rightarrow> bool" where
  "failure_recorded deadStream t traceID failure w w' \<longleftrightarrow>
     (\<exists>r. row (wTable w') (ID t) = Some r \<and> c_last_error r = Some failure
       \<and> (c_status r = StatusRetrying \<and> wSent w' = wSent w
         \<or> c_status r = StatusDead
           \<and> (\<exists>ok. wSent w' = wSent w @ [CmdXAdd deadStream (deadEntry t traceID failure (c_retry_count r)) ok])))"

locale worker_deps =
  task_store "wkStore wk" + message_consumer "wkConsumer wk" cstream cgroup + task_handlers "wkHandlers wk"
    + dead_publisher dead deadStream
  for wk :: "'r Worker" and cstream cgroup :: string and dead :: "'r DeadPublisher" and deadStream :: string +
  assumes dead_wired: "wkDeadPublisher wk = Some dead"
begin

lemma execute_outside: "executeWithTimeout wk t w = (e, w') \<Longrightarrow> outside_only w w'"
  by (auto simp: executeWithTimeout_def Let_def ctxErr_def split: prod.splits if_splits dest!: registry_outside)
    (auto simp: outside_only_def)

lemma failure_outcome:
  assumes w: "sound w" and h: "handleExecutionFailure wk t tr err w = (res, w')"
  shows "evolved w w' \<and> (res \<noteq> None \<longrightarrow> wSent w' = wSent w)
    \<and> (res = None \<longrightarrow> failure_recorded deadStream t tr (errorText (envQuote (wEnv w)) err) w w')"
proof -
  let ?f = "errorText (envQuote (wEnv w)) err"
  obtain r1 w1 where m: "tsMarkFailed (wkStore wk) (ID t) ?f w = (r1, w1)" by fastforce
  note e1 = db_effect_evolved [OF markFailed_effect [OF w m]]
  note s1 = evolved_sound [OF conjunct1 [OF e1] w]
  show ?thesis
  proof (cases r1)
    case (Inl x)
    with h m e1 show ?thesis by (auto simp: handleExecutionFailure_def Let_def)
  next
    case (Inr ft)
    obtain r where r: "row (wTable w1) (ID t) = Some r" "ft = scanTask r"
      using markFailed_returns [OF w m [unfolded Inr]] by blast
    have id: "ID ft = ID t" using r by (auto dest: row_Some_D)
    obtain now w2 where n: "timeNow w1 = (now, w2)" by fastforce
    note f2 = timeNow_frame [OF n]
    have s2: "sound w2" using f2 s1 by (simp add: sound_def)
    define d where "d = failureDecision err now ft"
    have "row_inv r" using s1 r(1) by (auto simp: sound_def dest: row_Some_D db_inv_row)
    then have d: "decision_wf d"
      using row_inv_retry_bounds [of r] decision_wf_DecideFailure by (simp add: d_def failureDecision_def decision_wf_def r(2))
    obtain r3 w3 where c: "tsCompleteFailure (wkStore wk) (ID t) d ?f w2 = (r3, w3)" by fastforce
    note e3 = db_effect_evolved [OF completeFailure_effect [OF s2 d c]]
    have ev: "evolved w w3" using e1 f2 e3 by (blast intro: evolved_trans)
    show ?thesis
    proof (cases r3)
      case x: (Inl x)
      with h m Inr n c e1 e3 f2 id ev show ?thesis by (auto simp: handleExecutionFailure_def Let_def d_def)
    next
      case ft3: (Inr ft3)
      obtain r' where r': "row (wTable w3) (ID t) = Some r'" "ft3 = scanTask r'" "c_status r' = dStatus d"
        "c_last_error r' = Some ?f"
        using completeFailure_returns [OF s2 c [unfolded ft3]] by blast
      have st: "c_status r' \<in> {StatusRetrying, StatusDead}" using d r'(3) by (auto simp: decision_wf_def)
      let ?w4 = "withMetrics (wkMetrics wk) (countFinal (Status ft3)) w3"
      let ?m = "\<lparr>dmID = ID t, dmType = Type t, dmTraceID = tr, dmLastError = ?f, dmRetryCount = RetryCount ft3\<rparr>"
      obtain e5 w5 where p: "dead ?m ?w4 = (e5, w5)" by fastforce
      note f5 = redis_only_evolved [OF dead_only [OF p]] dead_sent [OF p]
      have ev5: "evolved w w5" using ev f5(1) by (meson evolved_trans withMetrics_frame(4))
      have ev4: "evolved w ?w4" using ev by (meson evolved_trans withMetrics_frame(4))
      have "(res, w') = (if Status ft3 = StatusDead then (None, w5) else (None, ?w4))"
        using h m Inr n c ft3 id p by (simp add: handleExecutionFailure_def Let_def d_def dead_wired split: if_splits)
      then show ?thesis
        using st r' e1 e3 f2 f5 ev4 ev5
        by (auto simp: failure_recorded_def deadEntry_def split: if_splits)
    qed
  qed
qed

end


text \<open>A message that was dealt with for good: the task is terminal or waits for its retry, at most a
  dead-letter entry of this task went out before, and the last command is the acknowledgement.\<close>

definition message_settled :: "string \<Rightarrow> string \<Rightarrow> string \<Rightarrow> StreamMessage \<Rightarrow> goerror option \<Rightarrow> 'r world \<Rightarrow> 'r world \<Rightarrow> bool" where
  "message_settled deadStream cstream cgroup m res w w' \<longleftrightarrow>
     (\<exists>r dl. row (wTable w') (mID (smTask m)) = Some r
       \<and> (IsTerminal (c_status r) \<or> c_status r = StatusRetrying)
       \<and> wSent w' = wSent w @ dl @ [CmdXAck cstream cgroup (smRedisID m) (res = None)]
       \<and> (dl = [] \<or> c_status r = StatusDead \<and>
            (\<exists>t tr f ok. ID t = mID (smTask m) \<and> dl = [CmdXAdd deadStream (deadEntry t tr f (c_retry_count r)) ok])))"

context worker_deps
begin

lemma claim_outcome:
  assumes w: "sound w" and cur: "\<exists>r. row (wTable w) (mID (smTask m)) = Some r \<and> t0 = scanTask r"
    and c: "claimTask wk m t0 w = (res, w')"
  shows "evolved w w' \<and> wSent w' = wSent w \<and> (\<forall>t. res = Inr t \<longrightarrow> ID t = mID (smTask m))"
proof (cases "smRecovered m \<and> Status t0 = StatusRunning")
  case True
  with c cur show ?thesis by (auto simp: claimTask_def dest: row_Some_D)
next
  case False
  obtain r1 w1 where t: "tsTransition (wkStore wk) (mID (smTask m)) StatusPending StatusRunning (Some (wkName wk)) w = (r1, w1)"
    by fastforce
  have e: "evolved w w1 \<and> wSent w1 = wSent w"
    by (rule db_effect_evolved, rule transition_effect [OF w _ t]) (simp add: program_transition_def)
  have "ID x = mID (smTask m)" if "r1 = Inr x" for x
    using transition_returns [OF w t [unfolded that]] by (auto dest: row_Some_D)
  with False c t e show ?thesis
    by (auto simp: claimTask_def split: sum.splits intro: evolved_trans)
qed

lemma ack_settles:
  assumes a: "coAck (wkConsumer wk) (smRedisID m) w1 = (res, w')"
    and r: "row (wTable w1) (mID (smTask m)) = Some r" "IsTerminal (c_status r) \<or> c_status r = StatusRetrying"
    and s: "wSent w1 = wSent w @ dl"
    and dl: "dl = [] \<or> c_status r = StatusDead \<and>
            (\<exists>t tr f ok. ID t = mID (smTask m) \<and> dl = [CmdXAdd deadStream (deadEntry t tr f (c_retry_count r)) ok])"
  shows "evolved w1 w' \<and> message_settled deadStream cstream cgroup m res w w'"
  using redis_only_evolved [OF ack_only [OF a]] ack_sent [OF a] r s dl
  unfolding message_settled_def by (metis append_assoc)

text \<open>The shape of every outcome: an error with nothing sent, or a settled message.\<close>

lemma failed_run:
  assumes w: "sound w" and id: "ID t = mID (smTask m)"
    and f: "handleExecutionFailure wk t tr err w = (r1, w1)"
    and run: "(res, w') = (case r1 of Some x \<Rightarrow> (Some x, w1)
        | None \<Rightarrow> coAck (wkConsumer wk) (smRedisID m) (observeSince (wkMetrics wk) g st w1))"
  shows "evolved w w' \<and> (res \<noteq> None \<and> wSent w' = wSent w \<or> message_settled deadStream cstream cgroup m res w w')"
proof (cases r1)
  case (Some x)
  with run failure_outcome [OF w f] show ?thesis by auto
next
  case None
  with run have a: "coAck (wkConsumer wk) (smRedisID m) (observeSince (wkMetrics wk) g st w1) = (res, w')" by simp
  have fr: "failure_recorded deadStream t tr (errorText (envQuote (wEnv w)) err) w w1" and ev: "evolved w w1"
    using None failure_outcome [OF w f] by auto
  from fr obtain r dl where "row (wTable w1) (mID (smTask m)) = Some r" "IsTerminal (c_status r) \<or> c_status r = StatusRetrying"
    and "wSent w1 = wSent w @ dl" "dl = [] \<or> c_status r = StatusDead \<and>
        (\<exists>t tr f ok. ID t = mID (smTask m) \<and> dl = [CmdXAdd deadStream (deadEntry t tr f (c_retry_count r)) ok])"
    using id by (fastforce simp: failure_recorded_def)
  with ack_settles [OF a, of r w dl] ev show ?thesis by (auto intro: evolved_trans)
qed

lemma successful_run:
  assumes w: "sound w"
    and f: "tsTransition (wkStore wk) (mID (smTask m)) StatusRunning StatusSuccess wid w = (r1, w1)"
    and run: "(res, w') = (case r1 of Inl x \<Rightarrow> (Some x, w1)
        | Inr _ \<Rightarrow> coAck (wkConsumer wk) (smRedisID m) (observeSince (wkMetrics wk) g st w1))"
  shows "evolved w w' \<and> (res \<noteq> None \<and> wSent w' = wSent w \<or> message_settled deadStream cstream cgroup m res w w')"
proof -
  have e: "evolved w w1 \<and> wSent w1 = wSent w"
    by (rule db_effect_evolved, rule transition_effect [OF w _ f]) (simp add: program_transition_def)
  show ?thesis
  proof (cases r1)
    case (Inl x)
    with run e show ?thesis by auto
  next
    case (Inr t)
    with run have a: "coAck (wkConsumer wk) (smRedisID m) (observeSince (wkMetrics wk) g st w1) = (res, w')" by simp
    obtain r where "row (wTable w1) (mID (smTask m)) = Some r" "c_status r = StatusSuccess"
      using transition_returns [OF w f [unfolded Inr]] by blast
    with ack_settles [OF a, of r w "[]"] e show ?thesis by (auto intro: evolved_trans)
  qed
qed

lemma run_outcome:
  assumes w: "sound w" and id: "ID t = mID (smTask m)" and h: "runTask wk m tr t w = (res, w')"
  shows "evolved w w' \<and> (res \<noteq> None \<and> wSent w' = wSent w \<or> message_settled deadStream cstream cgroup m res w w')"
proof -
  obtain st w1 where n: "timeNow w = (st, w1)" by fastforce
  obtain r2 w2 where x: "executeWithTimeout wk t w1 = (r2, w2)" by fastforce
  have ev: "evolved w w2" and sent: "wSent w2 = wSent w"
    using timeNow_frame [OF n] outside_only_evolved [OF execute_outside [OF x]] by (auto intro: evolved_trans)
  note s2 = evolved_sound [OF ev w]
  have "evolved w2 w' \<and> (res \<noteq> None \<and> wSent w' = wSent w2 \<or> message_settled deadStream cstream cgroup m res w2 w')"
  proof (cases r2)
    case (Some err)
    obtain r3 w3 where f: "handleExecutionFailure wk t tr err w2 = (r3, w3)" by fastforce
    show ?thesis
      by (rule failed_run [OF s2 id f, where g = TaskFailed and st = st]) (use h n x Some f in \<open>auto simp: runTask_def split: option.splits\<close>)
  next
    case None
    obtain r3 w3 where f: "tsTransition (wkStore wk) (mID (smTask m)) StatusRunning StatusSuccess (Some (wkName wk)) w2 = (r3, w3)"
      by fastforce
    show ?thesis
      by (rule successful_run [OF s2 f, where g = TaskSucceeded and st = st]) (use h n x None f in \<open>auto simp: runTask_def split: sum.splits\<close>)
  qed
  with ev sent show ?thesis by (auto simp: message_settled_def intro: evolved_trans)
qed

lemma message_outcome:
  assumes w: "sound w" and h: "handleMessage wk m w = (res, w')"
  shows "evolved w w' \<and> (res \<noteq> None \<and> wSent w' = wSent w \<or> message_settled deadStream cstream cgroup m res w w')"
proof -
  let ?i = "mID (smTask m)"
  obtain r1 w1 where g: "tsGet (wkStore wk) ?i w = (r1, w1)" by fastforce
  note e1 = db_effect_evolved [OF get_effect [OF w g]]
  note s1 = evolved_sound [OF conjunct1 [OF e1] w]
  show ?thesis
  proof (cases r1)
    case (Inl x)
    with h g e1 show ?thesis by (auto simp: handleMessage_def)
  next
    case (Inr t0)
    obtain r0 where r0: "row (wTable w1) ?i = Some r0" "t0 = scanTask r0"
      using get_returns [OF w g [unfolded Inr]] by blast
    show ?thesis
    proof (cases "IsTerminal (Status t0)")
      case True
      with h g Inr have "coAck (wkConsumer wk) (smRedisID m) w1 = (res, w')" by (simp add: handleMessage_def)
      from ack_settles [OF this r0(1), of w "[]"] True r0 e1 show ?thesis by (auto intro: evolved_trans)
    next
      case nt: False
      obtain r2 w2 where c: "claimTask wk m t0 w1 = (r2, w2)" by fastforce
      have e2: "evolved w1 w2 \<and> wSent w2 = wSent w1 \<and> (\<forall>t. r2 = Inr t \<longrightarrow> ID t = ?i)"
        using claim_outcome [OF s1 _ c] r0 by blast
      then have s2: "sound w2" using s1 by (blast intro: evolved_sound)
      show ?thesis
      proof (cases r2)
        case x: (Inl x)
        with h g Inr nt c e1 e2 show ?thesis by (auto simp: handleMessage_def Let_def intro: evolved_trans)
      next
        case t: (Inr t)
        then have id: "ID t = ?i" using e2 by simp
        from h g Inr nt c t obtain tr where "runTask wk m tr t w2 = (res, w')"
          by (auto simp: handleMessage_def Let_def split: if_splits)
        from run_outcome [OF s2 id this] e1 e2 show ?thesis
          by (auto simp: message_settled_def intro: evolved_trans)
      qed
    qed
  qed
qed

end


text \<open>The worker as \<open>internal/app\<close> assembles it.\<close>

definition appWorker :: "'r RedisStreamConsumer \<Rightarrow> 'r RedisDeadStreamPublisher \<Rightarrow> int \<Rightarrow> int \<Rightarrow> 'r Worker" where
  "appWorker c dp concurrency batch =
     WithDeadPublisher (Some (PublishDead dp)) (WithMetrics True (WithBatchSize batch (WithConcurrency concurrency
       (WithHandlerRegistry (Some shippedHandlers) (WorkerNew (redisConsumer c) pgWorkerStore (rscConsumer c))))))"

lemma appWorker_simps [simp]:
  "wkConsumer (appWorker c dp n b) = redisConsumer c" "wkStore (appWorker c dp n b) = pgWorkerStore"
  "wkHandlers (appWorker c dp n b) = shippedHandlers" "wkDeadPublisher (appWorker c dp n b) = Some (PublishDead dp)"
  "wkMetrics (appWorker c dp n b) = True" "wkName (appWorker c dp n b) = rscConsumer c"
  by (simp_all add: appWorker_def WithDeadPublisher_def WithMetrics_def WithBatchSize_def WithConcurrency_def
      WithHandlerRegistry_def WorkerNew_def)

interpretation wkd: worker_deps "appWorker c dp n b" "rscStreamName c" "rscGroupName c" "PublishDead dp" "rdpStreamName dp"
  for c dp n b
  by unfold_locales
    (simp_all add: rmc.ack_only rmc.ack_sent shh.handler_outside rdp.dead_only rdp.dead_sent
      pgw.get_effect pgw.get_returns pgw.get_not_found pgw.transition_effect pgw.transition_returns
      pgw.markFailed_effect pgw.markFailed_returns pgw.completeFailure_effect pgw.completeFailure_returns)

section \<open>Properties of the assembled worker\<close>

text \<open>C2. A message is acknowledged only when its task is settled. Whatever the other sessions do and
  whichever call fails, handling a message either sends nothing to Redis and reports an error, so that
  the message stays pending for a later delivery, or it ends with the acknowledgement of this very
  message, and then the table holds the task in a terminal status or waiting for its retry; the only
  other command is a dead-letter entry, sent when the task is dead. The table takes specified steps
  only.\<close>

theorem worker_acks_only_settled_tasks:
  assumes "sound w" "handleMessage (appWorker c dp n b) m w = (res, w')"
  shows "db_steps (wTable w) (wTable w')
    \<and> (wSent w' = wSent w \<and> res \<noteq> None
      \<or> (\<exists>r dl. row (wTable w') (mID (smTask m)) = Some r
          \<and> (IsTerminal (c_status r) \<or> c_status r = StatusRetrying)
          \<and> wSent w' = wSent w @ dl @ [CmdXAck (rscStreamName c) (rscGroupName c) (smRedisID m) (res = None)]
          \<and> (dl = [] \<or> c_status r = StatusDead \<and> (\<exists>v ok. dl = [CmdXAdd (rdpStreamName dp) v ok]
               \<and> v ''task_id'' = Some (RString (mID (smTask m)))))))"
proof -
  have v: "deadEntry t tr f k ''task_id'' = Some (RString (ID t))" for t tr f k
    by (simp add: deadEntry_def deadValues_def Let_def)
  have o: "evolved w w' \<and> (res \<noteq> None \<and> wSent w' = wSent w
      \<or> message_settled (rdpStreamName dp) (rscStreamName c) (rscGroupName c) m res w w')"
    by (rule wkd.message_outcome [OF assms])
  then have "db_steps (wTable w) (wTable w')" by (simp add: evolved_def)
  moreover from o consider "res \<noteq> None \<and> wSent w' = wSent w"
    | "message_settled (rdpStreamName dp) (rscStreamName c) (rscGroupName c) m res w w'" by blast
  then show ?thesis
  proof cases
    case 1
    with calculation show ?thesis by simp
  next
    case 2
    with calculation show ?thesis unfolding message_settled_def using v by metis
  qed
qed

definition sampleConsumer :: "unit redis_client \<Rightarrow> unit RedisStreamConsumer" where
  "sampleConsumer c = \<lparr>rscClient = c, rscStreamName = ''tasks:stream'', rscGroupName = ''workers'', rscConsumer = ''w1'',
     rscBlock = 0\<rparr>"

definition sampleWorker :: "unit redis_client \<Rightarrow> unit Worker" where
  "sampleWorker c = appWorker (sampleConsumer c) \<lparr>rdpClient = c, rdpStreamName = ''tasks:dead''\<rparr> 4 10"

definition sampleMessage :: "string \<Rightarrow> bool \<Rightarrow> StreamMessage" where
  "sampleMessage i recovered =
     \<lparr>smRedisID = ''1-0'', smTask = \<lparr>mID = i, mType = ''demo.echo'', mTraceID = ''''\<rparr>, smRecovered = recovered\<rparr>"

lemma sampleMessage_simps [simp]:
  "smRedisID (sampleMessage i b) = ''1-0''" "mID (smTask (sampleMessage i b)) = i" "smRecovered (sampleMessage i b) = b"
  "mTraceID (smTask (sampleMessage i b)) = ''''"
  by (simp_all add: sampleMessage_def)

theorem worker_acks_only_settled_tasks_witness:
  "\<exists>res w' r. handleMessage (sampleWorker obligingRedis) (sampleMessage ''a'' False)
       (calmWorld [sampleRow ''a'' StatusSuccess] ()) = (res, w')
     \<and> wSent w' = [CmdXAck ''tasks:stream'' ''workers'' ''1-0'' True] \<and> row (wTable w') ''a'' = Some r"
proof -
  let ?w = "calmWorld [sampleRow ''a'' StatusSuccess] ()"
  have s: "sound ?w" by simp
  have "Get ''a'' ?w = (Inr (scanTask (sampleRow ''a'' StatusSuccess)), ?w\<lparr>wPgCalls := Suc (wPgCalls ?w)\<rparr>)"
    by (rule Get_quiet [where n = 0]) simp_all
  then obtain w' where h: "handleMessage (sampleWorker obligingRedis) (sampleMessage ''a'' False) ?w = (None, w')"
    by (simp add: handleMessage_def sampleWorker_def pgWorkerStore_def redisConsumer_def Ack_def redisXAck_def
        sampleConsumer_def obligingRedis_def)
  from worker_acks_only_settled_tasks [OF s h [unfolded sampleWorker_def]] h show ?thesis
    by (auto simp: sampleConsumer_def dest!: db_steps_terminal [where i = "''a''" and r = "sampleRow ''a'' StatusSuccess"])
qed


subsection \<open>What becomes of a failed execution\<close>

text \<open>The row and the commands a recorded failure leaves, with \<open>now\<close> the worker's clock.\<close>

definition failure_row :: "env \<Rightarrow> Time \<Rightarrow> goerror \<Rightarrow> task_row \<Rightarrow> task_row \<Rightarrow> bool" where
  "failure_row e now err r r' \<longleftrightarrow>
     same_identity r r' \<and> c_last_error r' = Some (errorText (envQuote e) err)
     \<and> (if IsNonRetryable (Some err)
        then c_status r' = StatusDead \<and> c_retry_count r' = c_retry_count r \<and> c_next_retry_at r' = None
        else if c_retry_count r < c_max_retries r
        then c_status r' = StatusRetrying \<and> c_retry_count r' = c_retry_count r + 1
           \<and> c_next_retry_at r' = Some (envTimestamptz e (now + BackoffDelay (c_retry_count r + 1)))
        else c_status r' = StatusDead \<and> c_retry_count r' = c_max_retries r \<and> c_next_retry_at r' = None)"

lemma update_where_db_inv:
  assumes "db_inv t" "\<And>r. c_id r = i \<Longrightarrow> q r \<Longrightarrow> row_step r (f r)"
  shows "db_inv (update_where (\<lambda>r. c_id r = i \<and> q r) f t)"
  using assms by (intro db_steps_inv [OF db_steps_update_where]) (auto simp: table_ok_distinct)

lemma failureDecision_cases:
  assumes inv: "row_inv r" and rc: "RetryCount ft = c_retry_count r" "MaxRetries ft = c_max_retries r"
  shows "failureDecision err now ft = (if IsNonRetryable (Some err) \<or> \<not> c_retry_count r < c_max_retries r
      then \<lparr>dStatus = StatusDead, dRetryCount = c_retry_count r, dNextRetryAt = None\<rparr>
      else \<lparr>dStatus = StatusRetrying, dRetryCount = c_retry_count r + 1,
             dNextRetryAt = Some (now + BackoffDelay (c_retry_count r + 1))\<rparr>)"
proof -
  have "0 \<le> c_retry_count r" "c_retry_count r < maxInt" "c_retry_count r \<le> c_max_retries r"
    using inv row_inv_retry_bounds [OF inv] by (auto simp: row_inv_def tasks_check_def)
  then show ?thesis by (auto simp: failureDecision_def rc DecideFailure_dead DecideFailure_retry)
qed

lemma failureDecision_wf:
  assumes inv: "row_inv r" and rc: "RetryCount ft = c_retry_count r" "MaxRetries ft = c_max_retries r"
  shows "decision_wf (failureDecision err now ft)" "0 \<le> dRetryCount (failureDecision err now ft)"
    "dRetryCount (failureDecision err now ft) \<le> c_max_retries r"
  using inv unfolding failureDecision_cases [OF assms]
  by (auto simp: decision_wf_def row_inv_def tasks_check_def)

text \<open>The two statements of a recorded failure, in a quiet session.\<close>

lemma quiet_marked:
  assumes "db_inv (wTable w)" "quiet (Suc n) w" "row (wTable w) i = Some r" "c_status r = StatusRunning"
  obtains w1 r1 where "MarkFailed i f w = (Inr (scanTask r1), w1)" "db_only w w1" "quiet n w1" "db_inv (wTable w1)"
    "row (wTable w1) i = Some r1" "c_status r1 = StatusFailed" "same_identity r r1" "c_retry_count r1 = c_retry_count r"
    "\<And>j. j \<noteq> i \<Longrightarrow> row (wTable w1) j = row (wTable w) j" "c_worker_id r1 = c_worker_id r" "c_started_at r1 = c_started_at r"
proof -
  let ?g = "\<lambda>r. r\<lparr>c_status := StatusFailed, c_last_error := Some f, c_updated_at := pgNow (pgNext w)\<rparr>"
  let ?w1 = "w\<lparr>wPgCalls := Suc (wPgCalls w),
      wTable := update_where (\<lambda>r. c_id r = i \<and> c_status r = StatusRunning) ?g (wTable w)\<rparr>"
  have inv: "db_inv (update_where (\<lambda>r. c_id r = i \<and> c_status r = StatusRunning) ?g (wTable w))"
    by (rule update_where_db_inv [OF assms(1)]) (rule row_step.fail)
  show thesis
  proof (rule that [of "?g r" ?w1])
    show "MarkFailed i f w = (Inr (scanTask (?g r)), ?w1)" by (rule MarkFailed_quiet [OF assms(2,1,3,4)])
    show "quiet n ?w1" by (rule quiet_later [OF assms(2)]) simp_all
  qed (use assms(3,4) inv in \<open>simp_all add: row_update_where db_only_def same_identity_def identity_def\<close>)
qed

lemma quiet_completed:
  assumes "db_inv (wTable w)" "quiet (Suc n) w" "row (wTable w) i = Some r" "c_status r = StatusFailed"
    and "decision_wf d" "0 \<le> dRetryCount d" "dRetryCount d \<le> c_max_retries r"
  obtains w1 r1 where "CompleteFailure i d f w = (Inr (scanTask r1), w1)" "db_only w w1"
    "row (wTable w1) i = Some r1" "c_status r1 = dStatus d" "same_identity r r1" "c_retry_count r1 = dRetryCount d"
    "c_next_retry_at r1 = map_option (envTimestamptz (wEnv w)) (dNextRetryAt d)" "c_last_error r1 = Some f"
    "\<And>j. j \<noteq> i \<Longrightarrow> row (wTable w1) j = row (wTable w) j" "c_worker_id r1 = c_worker_id r" "c_started_at r1 = c_started_at r"
proof -
  let ?g = "\<lambda>r. r\<lparr>c_status := dStatus d, c_retry_count := dRetryCount d,
     c_next_retry_at := map_option (envTimestamptz (wEnv w)) (dNextRetryAt d), c_last_error := Some f,
     c_finished_at := (if dStatus d = StatusDead then Some (pgNow (pgNext w)) else c_finished_at r),
     c_updated_at := pgNow (pgNext w)\<rparr>"
  let ?w1 = "w\<lparr>wPgCalls := Suc (wPgCalls w),
      wTable := update_where (\<lambda>r. c_id r = i \<and> c_status r = StatusFailed) ?g (wTable w)\<rparr>"
  show thesis
  proof (rule that [of "?g r" ?w1])
    show "CompleteFailure i d f w = (Inr (scanTask (?g r)), ?w1)"
      by (rule CompleteFailure_quiet [OF assms(2,1,3,4,5,6,7)])
  qed (use assms(3,4) in \<open>simp_all add: row_update_where db_only_def same_identity_def identity_def\<close>)
qed

lemma quiet_failure_full:
  assumes "db_inv (wTable w)" "quiet 2 w" "row (wTable w) (ID t) = Some r" "c_status r = StatusRunning"
    and "handleExecutionFailure (appWorker c dp n b) t tr err w = (res, w')"
  shows "res = None \<and> (\<exists>r'. row (wTable w') (ID t) = Some r'
    \<and> failure_row (wEnv w) (envClock (wEnv w) (wClockReads w)) err r r'
    \<and> (\<forall>j. j \<noteq> ID t \<longrightarrow> row (wTable w') j = row (wTable w) j)
    \<and> (if c_status r' = StatusDead
       then \<exists>ok. wSent w' = wSent w @ [CmdXAdd (rdpStreamName dp)
              (deadEntry t tr (errorText (envQuote (wEnv w)) err) (c_retry_count r')) ok]
       else wSent w' = wSent w)
    \<and> c_worker_id r' = c_worker_id r \<and> c_started_at r' = c_started_at r) \<and> wHttp w' = wHttp w"
proof -
  let ?f = "errorText (envQuote (wEnv w)) err" and ?i = "ID t" and ?now = "envClock (wEnv w) (wClockReads w)"
  have q: "quiet (Suc (Suc 0)) w" using assms(2) by (simp add: numeral_2_eq_2)
  obtain w1 r1 where m: "MarkFailed ?i ?f w = (Inr (scanTask r1), w1)" "db_only w w1" "quiet (Suc 0) w1"
      "db_inv (wTable w1)" "row (wTable w1) ?i = Some r1" "c_status r1 = StatusFailed" "same_identity r r1"
      "c_retry_count r1 = c_retry_count r" "\<And>j. j \<noteq> ?i \<Longrightarrow> row (wTable w1) j = row (wTable w) j"
      "c_worker_id r1 = c_worker_id r" "c_started_at r1 = c_started_at r"
    using quiet_marked [OF assms(1) q assms(3,4), where f = ?f] by blast
  define w2 where "w2 = w1\<lparr>wClockReads := Suc (wClockReads w)\<rparr>"
  have tn: "timeNow w1 = (?now, w2)" using db_onlyD [OF m(2)] by (simp add: timeNow_def w2_def)
  have inv1: "row_inv r1" using m(4,5) by (auto dest: row_Some_D db_inv_row)
  have id: "c_id r1 = ?i" using m(5) by (auto dest: row_Some_D)
  define d where "d = failureDecision err ?now (scanTask r1)"
  note dc = failureDecision_cases [OF inv1, of "scanTask r1" err ?now, simplified, folded d_def]
  note dw = failureDecision_wf [OF inv1, of "scanTask r1" err ?now, simplified, folded d_def]
  have q1: "quiet (Suc 0) w2" by (rule quiet_same [OF m(3)]) (simp_all add: w2_def)
  have tb: "wTable w2 = wTable w1" "wEnv w2 = wEnv w" using db_onlyD [OF m(2)] by (simp_all add: w2_def)
  obtain w3 r3 where k: "CompleteFailure ?i d ?f w2 = (Inr (scanTask r3), w3)" "db_only w2 w3"
      "row (wTable w3) ?i = Some r3" "c_status r3 = dStatus d" "same_identity r1 r3" "c_retry_count r3 = dRetryCount d"
      "c_next_retry_at r3 = map_option (envTimestamptz (wEnv w2)) (dNextRetryAt d)" "c_last_error r3 = Some ?f"
      "\<And>j. j \<noteq> ?i \<Longrightarrow> row (wTable w3) j = row (wTable w2) j"
      "c_worker_id r3 = c_worker_id r1" "c_started_at r3 = c_started_at r1"
    using quiet_completed [OF _ q1 _ m(6) dw, of ?i ?f] m(4,5) unfolding tb by metis
  obtain e5 w5 where p: "PublishDead dp \<lparr>dmID = ?i, dmType = Type t, dmTraceID = tr, dmLastError = ?f,
      dmRetryCount = c_retry_count r3\<rparr> (withMetrics True (countFinal (c_status r3)) w3) = (e5, w5)" by fastforce
  note p5 = redis_only_evolved [OF redis_only_methods(2) [OF p]] PublishDead_sent [OF p]
  have run: "(res, w') = (if c_status r3 = StatusDead then (None, w5) else (None, withMetrics True (countFinal (c_status r3)) w3))"
    using assms(5) m(1) tn k(1) p id
    by (simp add: handleExecutionFailure_def pgWorkerStore_def d_def [symmetric] Let_def split: if_splits)
  have mr: "c_max_retries r1 = c_max_retries r" by (rule same_identityD(8) [OF m(7)])
  have le: "c_retry_count r \<le> c_max_retries r" using inv1 m(8) mr by (simp add: row_inv_def tasks_check_def)
  have "wSent w3 = wSent w" "wHttp w3 = wHttp w" using db_onlyD [OF k(2)] db_onlyD [OF m(2)] by (simp_all add: w2_def)
  moreover have "failure_row (wEnv w) ?now err r r3"
    using same_identity_trans [OF m(7) k(5)] le
    by (simp add: failure_row_def k(4,6,7,8) dc m(8) mr tb)
  ultimately show ?thesis
    using run k(3,9-11) m(9-11) p5 tb by (auto simp: deadEntry_def redis_onlyD [OF redis_only_methods(2) [OF p]] withMetrics_def split: if_splits)
qed

lemma quiet_failure:
  assumes "db_inv (wTable w)" "quiet 2 w" "row (wTable w) (ID t) = Some r" "c_status r = StatusRunning"
    and "handleExecutionFailure (appWorker c dp n b) t tr err w = (res, w')"
  shows "res = None \<and> (\<exists>r'. row (wTable w') (ID t) = Some r'
    \<and> failure_row (wEnv w) (envClock (wEnv w) (wClockReads w)) err r r'
    \<and> (\<forall>j. j \<noteq> ID t \<longrightarrow> row (wTable w') j = row (wTable w) j)
    \<and> (if c_status r' = StatusDead
       then \<exists>ok. wSent w' = wSent w @ [CmdXAdd (rdpStreamName dp)
              (deadEntry t tr (errorText (envQuote (wEnv w)) err) (c_retry_count r')) ok]
       else wSent w' = wSent w))"
  using quiet_failure_full [OF assms] by blast

text \<open>C9. What a failed execution records. In a quiet session the failure of a running task is always
  recorded: a non-retryable error kills the task and leaves its retry count as it is; otherwise the
  task waits for one more retry, due after the backoff of that retry, as long as retries are left, and
  is dead when none is left. Its error text is stored, every other row stays as it was, and exactly a
  dead task is offered to the dead-letter stream, once, whether that publication succeeds or not.\<close>

theorem failed_execution_recorded:
  assumes "db_inv (wTable w)" "quiet 2 w" "row (wTable w) (ID t) = Some r" "c_status r = StatusRunning"
    and "handleExecutionFailure (appWorker c dp n b) t tr err w = (res, w')"
  shows "res = None \<and> (\<exists>r'. row (wTable w') (ID t) = Some r'
    \<and> failure_row (wEnv w) (envClock (wEnv w) (wClockReads w)) err r r'
    \<and> (\<forall>j. j \<noteq> ID t \<longrightarrow> row (wTable w') j = row (wTable w) j)
    \<and> (if c_status r' = StatusDead
       then \<exists>ok. wSent w' = wSent w @ [CmdXAdd (rdpStreamName dp)
              (deadEntry t tr (errorText (envQuote (wEnv w)) err) (c_retry_count r')) ok]
       else wSent w' = wSent w))"
  using quiet_failure [OF assms] .

theorem failed_execution_recorded_witness:
  "\<exists>w' r'. handleExecutionFailure (sampleWorker refusingRedis) (scanTask (sampleRow ''a'' StatusRunning)) ''''
       (NonRetryableError (NewError ''boom'')) (calmWorld [sampleRow ''a'' StatusRunning] ()) = (None, w')
     \<and> row (wTable w') ''a'' = Some r' \<and> c_status r' = StatusDead"
proof -
  let ?w = "calmWorld [sampleRow ''a'' StatusRunning] ()"
  obtain res w' where h: "handleExecutionFailure (sampleWorker refusingRedis) (scanTask (sampleRow ''a'' StatusRunning)) ''''
       (NonRetryableError (NewError ''boom'')) ?w = (res, w')" by fastforce
  show ?thesis
    using failed_execution_recorded [OF _ _ _ _ h [unfolded sampleWorker_def]] h
    by (auto simp: failure_row_def IsNonRetryable_def)
qed

subsection \<open>A task that succeeds, and a task that is taken over\<close>

lemma Ack_frame:
  assumes "coAck (redisConsumer c) i w = (e, w')"
  shows "wTable w' = wTable w" "wSent w' = wSent w @ [CmdXAck (rscStreamName c) (rscGroupName c) i (e = None)]"
    "wMetrics w' = wMetrics w" "wHttp w' = wHttp w"
  using rmc.ack_only [OF assms] rmc.ack_sent [OF assms] by (simp_all add: redis_onlyD)

lemma observeSince_pg [simp]:
  "wPgCalls (observeSince p f s w) = wPgCalls w" "pgNext (observeSince p f s w) = pgNext w"
  by (simp_all add: observeSince_def timeNow_def pgNext_def)

lemma execute_frame:
  assumes "executeWithTimeout (appWorker c dp n b) t w = (e, w')"
  shows "wTable w' = wTable w" "wEnv w' = wEnv w" "wPgCalls w' = wPgCalls w" "wSent w' = wSent w"
  using outside_onlyD [OF wkd.execute_outside [OF assms]] by simp_all

text \<open>What an execution gives depends on the type and the payload of the task, and on what the outside answers: not on the table,
  Redis, the clock or the metrics.\<close>

lemma webhook_local:
  assumes "Payload t' = Payload t" "wEnv v = wEnv w" "wHttp v = wHttp w" "wCtxReads v = wCtxReads w"
  shows "fst (WebhookDeliverHandle h t' v) = fst (WebhookDeliverHandle h t w)"
    "wCtxReads (snd (WebhookDeliverHandle h t' v)) = wCtxReads (snd (WebhookDeliverHandle h t w))"
    "wHttp (snd (WebhookDeliverHandle h t' v)) = wHttp (snd (WebhookDeliverHandle h t w))"
  unfolding WebhookDeliverHandle_def httpDo_def ctxErr_def Let_def assms by (simp_all add: assms split: sum.split)

lemma registry_local:
  assumes "Type t' = Type t" "Payload t' = Payload t" "wEnv v = wEnv w" "wHttp v = wHttp w" "wCtxReads v = wCtxReads w"
  shows "fst (RegistryHandle shippedHandlers (Some t') v) = fst (RegistryHandle shippedHandlers (Some t) w)"
    "wCtxReads (snd (RegistryHandle shippedHandlers (Some t') v)) = wCtxReads (snd (RegistryHandle shippedHandlers (Some t) w))"
    "wHttp (snd (RegistryHandle shippedHandlers (Some t') v)) = wHttp (snd (RegistryHandle shippedHandlers (Some t) w))"
  using assms webhook_local [OF assms(2-5)]
  by (simp_all add: RegistryHandle_def shippedHandlers_def appHandlerRegistry_eq DemoEchoHandle_def)

lemma execute_local:
  assumes "Type t' = Type t" "Payload t' = Payload t" "TimeoutSeconds t' = TimeoutSeconds t"
    and "wEnv v = wEnv w" "wHttp v = wHttp w" "wCtxReads v = wCtxReads w"
  shows "fst (executeWithTimeout (appWorker c dp n b) t' v) = fst (executeWithTimeout (appWorker c dp n b) t w)"
    "wHttp (snd (executeWithTimeout (appWorker c dp n b) t' v)) = wHttp (snd (executeWithTimeout (appWorker c dp n b) t w))"
proof -
  obtain e1 v1 where v1: "RegistryHandle shippedHandlers (Some t') v = (e1, v1)" by fastforce
  obtain e2 w1 where w1: "RegistryHandle shippedHandlers (Some t) w = (e2, w1)" by fastforce
  have "e1 = e2" "wCtxReads v1 = wCtxReads w1" "wHttp v1 = wHttp w1" using registry_local [OF assms(1,2,4-6)] v1 w1 by simp_all
  moreover have "wEnv v1 = wEnv w1" using shh.registry_outside [OF v1] shh.registry_outside [OF w1] assms(4) by (simp add: outside_onlyD)
  ultimately show "fst (executeWithTimeout (appWorker c dp n b) t' v) = fst (executeWithTimeout (appWorker c dp n b) t w)"
    "wHttp (snd (executeWithTimeout (appWorker c dp n b) t' v)) = wHttp (snd (executeWithTimeout (appWorker c dp n b) t w))"
    using assms(3) v1 w1 by (simp_all add: executeWithTimeout_def ctxErr_def Let_def)
qed

lemma observeSince_outside [simp]:
  "wHttp (observeSince p f s w) = wHttp w" "wCtxReads (observeSince p f s w) = wCtxReads w"
  by (simp_all add: observeSince_def timeNow_def)

lemma timeNow_outside [simp]:
  "wEnv (snd (timeNow w)) = wEnv w" "wHttp (snd (timeNow w)) = wHttp w" "wCtxReads (snd (timeNow w)) = wCtxReads w"
  by (simp_all add: timeNow_def)

text \<open>The last part of a successful execution, in a quiet session.\<close>

lemma quiet_success:
  assumes "db_inv (wTable w)" "quiet (Suc n) w" "row (wTable w) (mID (smTask m)) = Some r" "c_status r = StatusRunning"
    and h: "runTask (appWorker c dp k b) m tr t w = (res, w')"
    and x: "fst (executeWithTimeout (appWorker c dp k b) t (snd (timeNow w))) = None"
  shows "\<exists>r'. row (wTable w') (mID (smTask m)) = Some r' \<and> c_status r' = StatusSuccess \<and> c_finished_at r' \<noteq> None
      \<and> same_identity r r' \<and> c_worker_id r' = c_worker_id r \<and> c_retry_count r' = c_retry_count r
      \<and> c_last_error r' = c_last_error r \<and> c_next_retry_at r' = c_next_retry_at r \<and> c_started_at r' = c_started_at r
      \<and> wSent w' = wSent w @ [CmdXAck (rscStreamName c) (rscGroupName c) (smRedisID m) (res = None)]
      \<and> wHttp w' = wHttp (snd (executeWithTimeout (appWorker c dp k b) t (snd (timeNow w))))"
proof -
  obtain st w1 where n: "timeNow w = (st, w1)" by fastforce
  obtain w2 where e: "executeWithTimeout (appWorker c dp k b) t w1 = (None, w2)"
    using x n by (cases "executeWithTimeout (appWorker c dp k b) t w1") simp
  have w2: "wTable w2 = wTable w" "wEnv w2 = wEnv w" "wPgCalls w2 = wPgCalls w" "wSent w2 = wSent w"
    using execute_frame [OF e] n by (auto simp: timeNow_def)
  have can: "CanTransition StatusRunning StatusSuccess" by (simp add: CanTransition_iff)
  have q: "quiet (Suc n) w2" by (rule quiet_same [OF assms(2)]) (simp_all add: w2)
  note tr = Transition_quiet [OF q _ _ assms(4) can, of "mID (smTask m)" "Some (rscConsumer c)", unfolded w2, OF assms(1,3)]
  from h n e tr obtain w3 where
    w3: "w3 = w2\<lparr>wPgCalls := Suc (wPgCalls w), wTable := update_where (\<lambda>r. c_id r = mID (smTask m) \<and> c_status r = StatusRunning)
           (setTransition StatusSuccess (Some (rscConsumer c)) (pgNow (pgNext w2))) (wTable w)\<rparr>"
    and a: "coAck (redisConsumer c) (smRedisID m) (observeSince True TaskSucceeded st w3) = (res, w')"
    by (simp add: runTask_def pgWorkerStore_def)
  have "snd (timeNow w) = w1" "snd (executeWithTimeout (appWorker c dp k b) t w1) = w2" using n e by simp_all
  with Ack_frame [OF a] assms(3,4) show ?thesis
    by (simp add: w3 w2 row_update_where) (simp add: setTransition_def same_identity_def identity_def)
qed


lemma handleMessage_quiet:
  assumes "db_inv (wTable w)" "quiet (Suc n) w" "row (wTable w) (mID (smTask m)) = Some r" "\<not> IsTerminal (c_status r)"
  obtains w1 tr where "w1 = w\<lparr>wPgCalls := Suc (wPgCalls w)\<rparr>" "quiet n w1"
    "handleMessage (appWorker c dp k b) m w =
       (case claimTask (appWorker c dp k b) m (scanTask r) w1 of
          (Inl err, w2) \<Rightarrow> (Some err, w2)
        | (Inr t, w2) \<Rightarrow> runTask (appWorker c dp k b) m tr t w2)"
proof -
  let ?w1 = "w\<lparr>wPgCalls := Suc (wPgCalls w)\<rparr>"
  have g: "Get (mID (smTask m)) w = (Inr (scanTask r), ?w1)" by (rule Get_quiet [OF assms(2,1,3)])
  show thesis
    by (rule that [of ?w1])
      (use assms(4) g quiet_later [OF assms(2), of ?w1] in \<open>simp_all add: handleMessage_def pgWorkerStore_def Let_def\<close>)
qed

text \<open>A fresh message for a task that is neither pending nor terminal does nothing. In a quiet
  session the claim fails with \<open>ErrNotFound\<close>, no handler runs, no request or command goes out, the
  table and the metrics stay as they are, and the message is not acknowledged.\<close>

theorem unclaimable_message_ignored:
  assumes "db_inv (wTable w)" "quiet 2 w" "row (wTable w) (mID (smTask m)) = Some r"
    and "\<not> IsTerminal (c_status r)" "c_status r \<noteq> StatusPending"
    and "\<not> (smRecovered m \<and> c_status r = StatusRunning)"
  shows "\<exists>w'. handleMessage (appWorker c dp k b) m w = (Some ErrNotFound, w')
    \<and> wTable w' = wTable w \<and> wSent w' = wSent w \<and> wHttp w' = wHttp w \<and> wMetrics w' = wMetrics w"
proof -
  have q: "quiet (Suc (Suc 0)) w" using assms(2) by (simp add: numeral_2_eq_2)
  obtain w1 tr where w1: "w1 = w\<lparr>wPgCalls := Suc (wPgCalls w)\<rparr>" "quiet (Suc 0) w1"
    and h: "handleMessage (appWorker c dp k b) m w =
       (case claimTask (appWorker c dp k b) m (scanTask r) w1 of
          (Inl err, w2) \<Rightarrow> (Some err, w2) | (Inr t, w2) \<Rightarrow> runTask (appWorker c dp k b) m tr t w2)"
    using handleMessage_quiet [OF assms(1) q assms(3,4), where c = c and dp = dp and k = k and b = b] by blast
  have can: "CanTransition StatusPending StatusRunning" by (simp add: CanTransition_iff)
  note qn = quiet_now [OF w1(2)]
  have "Transition (mID (smTask m)) StatusPending StatusRunning (Some (rscConsumer c)) w1 =
      (Inl ErrNotFound, w1\<lparr>wPgCalls := Suc (wPgCalls w1)\<rparr>)"
    using assms(1,3,5) qn by (simp add: Transition_exec [OF can] db_inv_table_ok w1(1))
  with assms(6) show ?thesis by (auto simp: h claimTask_def pgWorkerStore_def w1(1))
qed

theorem unclaimable_message_ignored_witness:
  "fst (handleMessage (sampleWorker obligingRedis) (sampleMessage ''a'' False)
     (calmWorld [sampleRow ''a'' StatusRunning] ())) = Some ErrNotFound"
  using unclaimable_message_ignored [of "calmWorld [sampleRow ''a'' StatusRunning] ()" "sampleMessage ''a'' False"
      "sampleRow ''a'' StatusRunning" "sampleConsumer obligingRedis" "\<lparr>rdpClient = obligingRedis, rdpStreamName = ''tasks:dead''\<rparr>" 4 10]
  by (auto simp: sampleWorker_def)

text \<open>A fresh message of a pending task: the worker claims it and executes it.\<close>

lemma quiet_claimed:
  assumes "db_inv (wTable w)" "quiet 3 w" "row (wTable w) (mID (smTask m)) = Some r" "c_status r = StatusPending"
  obtains w2 r2 tr where "db_inv (wTable w2)" "row (wTable w2) (mID (smTask m)) = Some r2" "c_status r2 = StatusRunning"
    "wEnv w2 = wEnv w" "wPgCalls w2 = Suc (Suc (wPgCalls w))" "wSent w2 = wSent w" "wHttp w2 = wHttp w" "wCtxReads w2 = wCtxReads w"
    "quiet (Suc 0) w2" "same_identity r r2" "c_worker_id r2 = Some (rscConsumer c)" "c_retry_count r2 = c_retry_count r"
    "c_last_error r2 = c_last_error r" "c_next_retry_at r2 = c_next_retry_at r"
    "handleMessage (appWorker c dp k b) m w = runTask (appWorker c dp k b) m tr (scanTask r2) w2"
proof -
  let ?i = "mID (smTask m)"
  have q: "quiet (Suc (Suc (Suc 0))) w" using assms(2) by (simp add: numeral_3_eq_3)
  have nt: "\<not> IsTerminal (c_status r)" using assms(4) by simp
  obtain w1 tr where w1: "w1 = w\<lparr>wPgCalls := Suc (wPgCalls w)\<rparr>" "quiet (Suc (Suc 0)) w1"
    and h: "handleMessage (appWorker c dp k b) m w =
       (case claimTask (appWorker c dp k b) m (scanTask r) w1 of
          (Inl err, w2) \<Rightarrow> (Some err, w2) | (Inr t, w2) \<Rightarrow> runTask (appWorker c dp k b) m tr t w2)"
    using handleMessage_quiet [OF assms(1) q assms(3) nt, where c = c and dp = dp and k = k and b = b] by blast
  have can: "CanTransition StatusPending StatusRunning" by (simp add: CanTransition_iff)
  let ?f = "setTransition StatusRunning (Some (rscConsumer c)) (pgNow (pgNext w1))"
  define w2 where "w2 = observeSince True TaskStarted (c_created_at r)
    (w1\<lparr>wPgCalls := Suc (wPgCalls w1), wTable := update_where (\<lambda>r. c_id r = ?i \<and> c_status r = StatusPending) ?f (wTable w)\<rparr>)"
  have cl: "claimTask (appWorker c dp k b) m (scanTask r) w1 = (Inr (scanTask (?f r)), w2)"
    using Transition_quiet [OF w1(2) _ _ assms(4) can, of ?i "Some (rscConsumer c)"] assms(1,3,4)
    by (simp add: claimTask_def pgWorkerStore_def w1(1) w2_def) (simp add: setTransition_def)
  show thesis
  proof (rule that [of w2 "?f r" tr])
    show "db_inv (wTable w2)" unfolding w2_def
      by (simp, rule update_where_db_inv [OF assms(1)], rule setTransition_step [where src = StatusPending])
        (simp_all add: program_transition_def)
    show "quiet (Suc 0) w2" by (rule quiet_later [OF w1(2)]) (simp_all add: w2_def)
    show "row (wTable w2) ?i = Some (?f r)" using assms(3,4) by (simp add: w2_def row_update_where)
    show "handleMessage (appWorker c dp k b) m w = runTask (appWorker c dp k b) m tr (scanTask (?f r)) w2" using h cl by simp
  qed (simp_all add: w2_def w1(1) setTransition_def same_identity_def identity_def)
qed

lemma quiet_message_success:
  assumes "db_inv (wTable w)" "quiet 3 w" "row (wTable w) (mID (smTask m)) = Some r" "c_status r = StatusPending"
    and "fst (executeWithTimeout (appWorker c dp k b) (scanTask r) w) = None"
    and "handleMessage (appWorker c dp k b) m w = (res, w')"
  shows "\<exists>r'. row (wTable w') (mID (smTask m)) = Some r' \<and> c_status r' = StatusSuccess \<and> c_finished_at r' \<noteq> None
      \<and> same_identity r r' \<and> c_worker_id r' = Some (rscConsumer c) \<and> c_retry_count r' = c_retry_count r
      \<and> c_last_error r' = c_last_error r \<and> c_next_retry_at r' = c_next_retry_at r
      \<and> wSent w' = wSent w @ [CmdXAck (rscStreamName c) (rscGroupName c) (smRedisID m) (res = None)]
      \<and> wHttp w' = wHttp (snd (executeWithTimeout (appWorker c dp k b) (scanTask r) w))"
proof -
  let ?i = "mID (smTask m)"
  obtain w2 r2 tr where w2: "db_inv (wTable w2)" "row (wTable w2) ?i = Some r2" "c_status r2 = StatusRunning"
      "wEnv w2 = wEnv w" "wSent w2 = wSent w" "wHttp w2 = wHttp w" "wCtxReads w2 = wCtxReads w" "quiet (Suc 0) w2"
    and r2: "same_identity r r2" "c_worker_id r2 = Some (rscConsumer c)" "c_retry_count r2 = c_retry_count r"
      "c_last_error r2 = c_last_error r" "c_next_retry_at r2 = c_next_retry_at r"
    and h: "handleMessage (appWorker c dp k b) m w = runTask (appWorker c dp k b) m tr (scanTask r2) w2"
    using quiet_claimed [OF assms(1-4), where c = c and dp = dp and k = k and b = b] by blast
  have x: "fst (executeWithTimeout (appWorker c dp k b) (scanTask r2) (snd (timeNow w2))) = None"
    unfolding assms(5) [symmetric] by (rule execute_local) (simp_all add: w2 same_identityD [OF r2(1)])
  have y: "wHttp (snd (executeWithTimeout (appWorker c dp k b) (scanTask r2) (snd (timeNow w2))))
      = wHttp (snd (executeWithTimeout (appWorker c dp k b) (scanTask r) w))"
    by (rule execute_local) (simp_all add: w2 same_identityD [OF r2(1)])
  have run: "runTask (appWorker c dp k b) m tr (scanTask r2) w2 = (res, w')" using assms(6) h by simp
  from quiet_success [OF w2(1,8,2,3) run x, unfolded y w2(5)] r2 show ?thesis by (auto intro: same_identity_trans)
qed

text \<open>C10. A pending task whose handler succeeds is completed by one message. In a quiet session, when the handler
  of its type succeeds on this task, as stored, with what the outside answers now, the task ends in the status
  \<open>success\<close> with a finish time and this worker's name, its retry count and identity unchanged; the handler was
  executed once, its requests are the only ones sent, and the message is acknowledged as the only command.\<close>

theorem successful_task_completed:
  assumes "db_inv (wTable w)" "quiet 3 w" "row (wTable w) (mID (smTask m)) = Some r" "c_status r = StatusPending"
    and "fst (executeWithTimeout (appWorker c dp k b) (scanTask r) w) = None"
    and "handleMessage (appWorker c dp k b) m w = (res, w')"
  shows "\<exists>r'. row (wTable w') (mID (smTask m)) = Some r' \<and> c_status r' = StatusSuccess \<and> c_finished_at r' \<noteq> None
      \<and> same_identity r r' \<and> c_worker_id r' = Some (rscConsumer c) \<and> c_retry_count r' = c_retry_count r
      \<and> wSent w' = wSent w @ [CmdXAck (rscStreamName c) (rscGroupName c) (smRedisID m) (res = None)]
      \<and> wHttp w' = wHttp (snd (executeWithTimeout (appWorker c dp k b) (scanTask r) w))"
  using quiet_message_success [OF assms] by blast


lemma sample_execute:
  assumes "Type t = ''demo.echo''" "wEnv v = calmEnv"
  shows "fst (executeWithTimeout (appWorker c dp k b) t v) = None"
proof -
  have "TrimSpace ''demo.echo'' = ''demo.echo''" by code_simp
  then show ?thesis
    using assms by (simp add: executeWithTimeout_def RegistryHandle_def shippedHandlers_def appHandlerRegistry_eq
        DemoEchoHandle_def ctxErr_def errIs_def Let_def)
qed

text \<open>A webhook task whose address answers 204, as the default client of the sample environment does.\<close>

definition sampleHook :: task_row where
  "sampleHook = (sampleRow ''a'' StatusPending)\<lparr>c_task_type := ''webhook.deliver'', c_payload := ''{\"url\":\"u\"}''\<rparr>"

lemma sampleHook_simps [simp]:
  "c_id sampleHook = ''a''" "c_status sampleHook = StatusPending" "db_inv [sampleHook]"
  by (simp_all add: sampleHook_def sampleRow_def db_inv_def table_ok_def row_inv_def tasks_check_def tasks_status_check_iff int4_def)

lemma sampleHook_delivered:
  "fst (executeWithTimeout (appWorker c dp k b) (scanTask sampleHook) (calmWorld t r)) = None"
  "length (wHttp (snd (executeWithTimeout (appWorker c dp k b) (scanTask sampleHook) (calmWorld t r)))) = 1"
proof -
  have ty: "c_task_type sampleHook = ''webhook.deliver''" "c_payload sampleHook = ''{\"url\":\"u\"}''"
    by (simp_all add: sampleHook_def)
  have "unmarshalWebhook calmEnv ''{\"url\":\"u\"}'' = Inr \<lparr>URL = ''u'', Method = [], Headers = [], Body = None\<rparr>"
    by code_simp
  moreover have "TrimSpace ''u'' = ''u''" "TrimSpace [] = []" "ToUpper (\<lambda>s. s) [] = []" "validMethod ''POST''"
    "TrimSpace ''webhook.deliver'' = ''webhook.deliver''" by code_simp+
  ultimately show "fst (executeWithTimeout (appWorker c dp k b) (scanTask sampleHook) (calmWorld t r)) = None"
    "length (wHttp (snd (executeWithTimeout (appWorker c dp k b) (scanTask sampleHook) (calmWorld t r)))) = 1"
    by (simp_all add: executeWithTimeout_def RegistryHandle_def shippedHandlers_def appHandlerRegistry_eq ty
        WebhookDeliverHandle_def parseWebhookDeliverPayload_def NewRequest_def httpDo_def ctxErr_def errIs_def webhookResult_def Let_def ToUpper_def)
qed

theorem successful_task_completed_witness:
  "\<exists>res w' r'. handleMessage (sampleWorker obligingRedis) (sampleMessage ''a'' False) (calmWorld [sampleHook] ()) = (res, w')
     \<and> row (wTable w') ''a'' = Some r' \<and> c_status r' = StatusSuccess \<and> c_worker_id r' = Some ''w1'' \<and> length (wHttp w') = 1"
proof -
  let ?w = "calmWorld [sampleHook] ()"
  obtain res w' where h: "handleMessage (sampleWorker obligingRedis) (sampleMessage ''a'' False) ?w = (res, w')" by fastforce
  have "db_inv (wTable ?w)" "row (wTable ?w) (mID (smTask (sampleMessage ''a'' False))) = Some sampleHook" by (simp_all add: row_def)
  from successful_task_completed [OF this(1) quiet_calm this(2) _ sampleHook_delivered(1) h [unfolded sampleWorker_def]]
    h sampleHook_delivered(2)
  show ?thesis by (auto simp: sampleConsumer_def)
qed

text \<open>The end of an execution that failed, in a quiet session.\<close>

lemma quiet_run_failure:
  assumes "db_inv (wTable w)" "quiet 2 w" "row (wTable w) (mID (smTask m)) = Some r" "c_status r = StatusRunning"
    and "ID t = mID (smTask m)" "runTask (appWorker c dp k b) m tr t w = (res, w')"
    and x: "fst (executeWithTimeout (appWorker c dp k b) t (snd (timeNow w))) = Some err"
  shows "\<exists>r' now dl. row (wTable w') (mID (smTask m)) = Some r' \<and> failure_row (wEnv w) now err r r'
      \<and> c_worker_id r' = c_worker_id r \<and> c_started_at r' = c_started_at r
      \<and> wSent w' = wSent w @ dl @ [CmdXAck (rscStreamName c) (rscGroupName c) (smRedisID m) (res = None)]
      \<and> (if c_status r' = StatusDead then \<exists>v ok. dl = [CmdXAdd (rdpStreamName dp) v ok] else dl = [])
      \<and> wHttp w' = wHttp (snd (executeWithTimeout (appWorker c dp k b) t (snd (timeNow w))))"
proof -
  obtain st w1 where n: "timeNow w = (st, w1)" by fastforce
  obtain w2 where e: "executeWithTimeout (appWorker c dp k b) t w1 = (Some err, w2)"
    using x n by (cases "executeWithTimeout (appWorker c dp k b) t w1") simp
  have w2: "wTable w2 = wTable w" "wEnv w2 = wEnv w" "wPgCalls w2 = wPgCalls w" "wSent w2 = wSent w"
    using execute_frame [OF e] n by (auto simp: timeNow_def)
  obtain r3 w3 where f: "handleExecutionFailure (appWorker c dp k b) t tr err w2 = (r3, w3)" by fastforce
  have "db_inv (wTable w2)" "quiet 2 w2" "row (wTable w2) (ID t) = Some r"
    using assms(1-3,5) quiet_same [OF assms(2), of w2] by (simp_all add: w2)
  note q = quiet_failure_full [OF this assms(4) f, unfolded w2]
  then have "coAck (redisConsumer c) (smRedisID m) (observeSince True TaskFailed st w3) = (res, w')"
    using assms(6) n e f by (simp add: runTask_def)
  note a = Ack_frame [OF this]
  have s: "snd (timeNow w) = w1" "snd (executeWithTimeout (appWorker c dp k b) t w1) = w2" using n e by simp_all
  from q obtain r' where "row (wTable w3) (ID t) = Some r'" "failure_row (wEnv w) (envClock (wEnv w) (wClockReads w2)) err r r'"
    "c_worker_id r' = c_worker_id r" "c_started_at r' = c_started_at r" "wHttp w3 = wHttp w2"
    "if c_status r' = StatusDead then \<exists>v ok. wSent w3 = wSent w @ [CmdXAdd (rdpStreamName dp) v ok] else wSent w3 = wSent w"
    by (auto split: if_splits)
  then show ?thesis
    by (intro exI [of _ r'] exI [of _ "envClock (wEnv w) (wClockReads w2)"] exI [of _ "drop (length (wSent w)) (wSent w3)"])
      (use a s assms(5) in \<open>auto split: if_splits\<close>)
qed

text \<open>C39. A redelivered message of a running task is executed without a claim. In a quiet session a worker that takes over
  such a message runs the handler of the task again, whatever comes of it: the requests of this execution are sent,
  and its outcome is recorded and acknowledged, success as well as failure. Yet the row is never claimed by this
  worker: it keeps the name and the start time of the other worker, which may still be executing the same task.\<close>

theorem takeover_executes_without_claim:
  assumes "db_inv (wTable w)" "quiet 3 w" "row (wTable w) (mID (smTask m)) = Some r" "c_status r = StatusRunning"
    and "smRecovered m" "c_worker_id r = Some other"
    and "handleMessage (appWorker c dp k b) m w = (res, w')"
  shows "wHttp w' = wHttp (snd (executeWithTimeout (appWorker c dp k b) (scanTask r) w))
    \<and> (\<exists>r' dl. row (wTable w') (mID (smTask m)) = Some r' \<and> c_worker_id r' = Some other \<and> c_started_at r' = c_started_at r
      \<and> wSent w' = wSent w @ dl @ [CmdXAck (rscStreamName c) (rscGroupName c) (smRedisID m) (res = None)]
      \<and> (if c_status r' = StatusDead then \<exists>v ok. dl = [CmdXAdd (rdpStreamName dp) v ok] else dl = [])
      \<and> (case fst (executeWithTimeout (appWorker c dp k b) (scanTask r) w) of
           None \<Rightarrow> c_status r' = StatusSuccess
         | Some err \<Rightarrow> \<exists>now. failure_row (wEnv w) now err r r'))"
proof -
  have q: "quiet (Suc (Suc (Suc 0))) w" using assms(2) by (simp add: numeral_3_eq_3)
  have nt: "\<not> IsTerminal (c_status r)" using assms(4) by simp
  obtain w1 tr where w1: "w1 = w\<lparr>wPgCalls := Suc (wPgCalls w)\<rparr>" "quiet (Suc (Suc 0)) w1"
    and h: "handleMessage (appWorker c dp k b) m w =
       (case claimTask (appWorker c dp k b) m (scanTask r) w1 of
          (Inl err, w2) \<Rightarrow> (Some err, w2) | (Inr t, w2) \<Rightarrow> runTask (appWorker c dp k b) m tr t w2)"
    using handleMessage_quiet [OF assms(1) q assms(3) nt, where c = c and dp = dp and k = k and b = b] by blast
  define w2 where "w2 = observeSince True TaskStarted (c_created_at r) w1"
  have cl: "claimTask (appWorker c dp k b) m (scanTask r) w1 = (Inr (scanTask r), w2)"
    using assms(4,5) by (simp add: claimTask_def w2_def)
  have q2: "quiet (Suc (Suc 0)) w2" by (rule quiet_same [OF w1(2)]) (simp_all add: w2_def)
  have x: "fst (executeWithTimeout (appWorker c dp k b) (scanTask r) (snd (timeNow w2))) = fst (executeWithTimeout (appWorker c dp k b) (scanTask r) w)"
    "wHttp (snd (executeWithTimeout (appWorker c dp k b) (scanTask r) (snd (timeNow w2)))) = wHttp (snd (executeWithTimeout (appWorker c dp k b) (scanTask r) w))"
    by (rule execute_local; simp add: w2_def w1(1))+
  have run: "runTask (appWorker c dp k b) m tr (scanTask r) w2 = (res, w')" using assms(7) h cl by simp
  have tb: "db_inv (wTable w2)" "row (wTable w2) (mID (smTask m)) = Some r" "wSent w2 = wSent w" "wEnv w2 = wEnv w"
    using assms(1,3) by (simp_all add: w2_def w1(1))
  have id: "ID (scanTask r) = mID (smTask m)" using assms(3) by (auto dest: row_Some_D)
  show ?thesis
  proof (cases "fst (executeWithTimeout (appWorker c dp k b) (scanTask r) w)")
    case None
    from quiet_success [OF tb(1) q2 tb(2) assms(4) run, unfolded x, OF None] assms(6) None show ?thesis by (auto simp: tb(3))
  next
    case (Some err)
    have "quiet 2 w2" using q2 by (simp add: numeral_2_eq_2)
    from quiet_run_failure [OF tb(1) this tb(2) assms(4) id run, unfolded x tb, OF Some] obtain r' now dl where
      "row (wTable w') (mID (smTask m)) = Some r'" "failure_row (wEnv w) now err r r'" "c_worker_id r' = c_worker_id r"
      "c_started_at r' = c_started_at r"
      "wSent w' = wSent w @ dl @ [CmdXAck (rscStreamName c) (rscGroupName c) (smRedisID m) (res = None)]"
      "if c_status r' = StatusDead then \<exists>v ok. dl = [CmdXAdd (rdpStreamName dp) v ok] else dl = []"
      "wHttp w' = wHttp (snd (executeWithTimeout (appWorker c dp k b) (scanTask r) w))" by blast
    with assms(6) Some show ?thesis by (intro conjI exI [of _ r'] exI [of _ dl]) auto
  qed
qed

theorem takeover_executes_without_claim_witness:
  "\<exists>res w' r'. handleMessage (sampleWorker obligingRedis) (sampleMessage ''a'' True)
       (calmWorld [sampleRow ''a'' StatusRunning] ()) = (res, w')
     \<and> row (wTable w') ''a'' = Some r' \<and> c_status r' = StatusSuccess \<and> c_worker_id r' = Some ''w''"
proof -
  have "c_worker_id (sampleRow ''a'' StatusRunning) = Some ''w''" by (simp add: sampleRow_def)
  moreover obtain res w' where h: "handleMessage (sampleWorker obligingRedis) (sampleMessage ''a'' True)
      (calmWorld [sampleRow ''a'' StatusRunning] ()) = (res, w')"
    by fastforce
  ultimately show ?thesis
    using takeover_executes_without_claim [OF _ _ _ _ _ _ h [unfolded sampleWorker_def], of "sampleRow ''a'' StatusRunning" "''w''"] h
    by (auto simp: sample_execute)
qed





end
