(* ===== verification/Scheduler.thy ===== *)
theory Scheduler
  imports Worker
begin

text \<open>
  The scheduler of \<open>internal/scheduler/scheduler.go\<close>: at each tick it recovers running tasks
  whose time is up, moves due delayed tasks from the sorted set to the stream and dispatches due
  retries.
\<close>

section \<open>The scheduler\<close>

record 'r Scheduler =
  scStore :: "'r SchedulerStore"
  scPublisher :: "'r Publisher"
  scScheduledQueue :: "'r ScheduledQueue"
  scDeadPublisher :: "'r DeadPublisher option"
  scInterval :: Duration
  scBatchSize :: int

definition SchedulerNew :: "'r SchedulerStore \<Rightarrow> 'r Publisher \<Rightarrow> 'r ScheduledQueue \<Rightarrow> Duration \<Rightarrow> int \<Rightarrow> 'r Scheduler" where
  "SchedulerNew store publisher scheduledQueue interval batchSize =
     \<lparr>scStore = store, scPublisher = publisher, scScheduledQueue = scheduledQueue, scDeadPublisher = None,
      scInterval = interval, scBatchSize = batchSize\<rparr>"

definition SchedulerWithDeadPublisher :: "'r DeadPublisher option \<Rightarrow> 'r Scheduler \<Rightarrow> 'r Scheduler" where
  "SchedulerWithDeadPublisher publisher s = s\<lparr>scDeadPublisher := publisher\<rparr>"

text \<open>\<open>for \<dots> { if err := f(x); err != nil { log } }\<close>: an error is logged and the loop goes on.\<close>

fun forEachLogged :: "('a \<Rightarrow> 'r world \<Rightarrow> goerror option \<times> 'r world) \<Rightarrow> 'a list \<Rightarrow> 'r world \<Rightarrow> 'r world" where
  "forEachLogged f [] w = w"
| "forEachLogged f (x # xs) w = forEachLogged f xs (snd (f x w))"

definition scheduleTask :: "'r Scheduler \<Rightarrow> Task \<Rightarrow> 'r world \<Rightarrow> goerror option \<times> 'r world" where
  "scheduleTask s dueTask w =
     (if Status dueTask \<noteq> StatusScheduled \<and> Status dueTask \<noteq> StatusRetrying
      then (Some (NewError (''unsupported dispatchable task status '' @ Status dueTask)), w)
      else case tsTransition (scStore s) (ID dueTask) (Status dueTask) StatusPending None w of
        (Inl err, w1) \<Rightarrow>
          if errorsIs err ErrNotFound then (None, w1)
          else (Some (Wrapf ''transition dispatchable task to pending: '' err ''''), w1)
      | (Inr pendingTask, w1) \<Rightarrow>
          let traceID = (case TraceID pendingTask of None \<Rightarrow> '''' | Some x \<Rightarrow> x)
          in case scPublisher s \<lparr>mID = ID pendingTask, mType = Type pendingTask, mTraceID = traceID\<rparr> w1 of
               (Some err, w2) \<Rightarrow> (Some (Wrapf ''publish dispatchable task: '' err ''''), w2)
             | (None, w2) \<Rightarrow> (None, w2))"

definition scheduleZSetTask :: "'r Scheduler \<Rightarrow> string \<Rightarrow> 'r world \<Rightarrow> goerror option \<times> 'r world" where
  "scheduleZSetTask s taskID w =
     (case tsGet (scStore s) taskID w of
        (Inl err, w1) \<Rightarrow>
          if errorsIs err ErrNotFound then sqRemove (scScheduledQueue s) taskID w1
          else (Some (Wrapf ''get scheduled zset task: '' err ''''), w1)
      | (Inr dueTask, w1) \<Rightarrow>
          if Status dueTask \<noteq> StatusScheduled then sqRemove (scScheduledQueue s) taskID w1
          else case scheduleTask s dueTask w1 of
            (Some err, w2) \<Rightarrow> (Some err, w2)
          | (None, w2) \<Rightarrow> sqRemove (scScheduledQueue s) taskID w2)"

definition scheduleDueZSetTasks :: "'r Scheduler \<Rightarrow> Time \<Rightarrow> 'r world \<Rightarrow> goerror option \<times> 'r world" where
  "scheduleDueZSetTasks s now w =
     (case sqDueTaskIDs (scScheduledQueue s) now (scBatchSize s) w of
        (Inl err, w1) \<Rightarrow> (Some (Wrapf ''scan due scheduled zset tasks: '' err ''''), w1)
      | (Inr dueTaskIDs, w1) \<Rightarrow> (None, forEachLogged (scheduleZSetTask s) dueTaskIDs w1))"

definition timeoutFailure :: "Task \<Rightarrow> string" where
  "timeoutFailure expiredTask =
     ''running timeout recovery: task exceeded timeout_seconds='' @ FormatInt (TimeoutSeconds expiredTask)"

definition recoverRunningTask :: "'r Scheduler \<Rightarrow> Time \<Rightarrow> Task \<Rightarrow> 'r world \<Rightarrow> goerror option \<times> 'r world" where
  "recoverRunningTask s now expiredTask w =
     (let failure = timeoutFailure expiredTask
      in case tsMarkFailed (scStore s) (ID expiredTask) failure w of
        (Inl err, w1) \<Rightarrow>
          if errorsIs err ErrNotFound then (None, w1)
          else (Some (Wrapf ''mark expired running task failed: '' err ''''), w1)
      | (Inr failedTask, w1) \<Rightarrow>
          (case tsCompleteFailure (scStore s) (ID failedTask)
                  (DecideFailure now (RetryCount failedTask) (MaxRetries failedTask)) failure w1 of
             (Inl err, w2) \<Rightarrow>
               if errorsIs err ErrNotFound then (None, w2)
               else (Some (Wrapf ''complete expired running task failure: '' err ''''), w2)
           | (Inr finalTask, w2) \<Rightarrow>
               if Status finalTask = StatusDead
               then case scDeadPublisher s of
                 None \<Rightarrow> (None, w2)
               | Some publishDead \<Rightarrow>
                   let traceID = (case TraceID expiredTask of None \<Rightarrow> '''' | Some x \<Rightarrow> x)
                   in case publishDead \<lparr>dmID = ID finalTask, dmType = Type expiredTask, dmTraceID = traceID,
                        dmLastError = failure, dmRetryCount = RetryCount finalTask\<rparr> w2 of (_, w3) \<Rightarrow> (None, w3)
               else (None, w2)))"

definition recoverExpiredRunning :: "'r Scheduler \<Rightarrow> Time \<Rightarrow> 'r world \<Rightarrow> goerror option \<times> 'r world" where
  "recoverExpiredRunning s now w =
     (case ssExpiredRunning (scStore s) now (scBatchSize s) w of
        (Inl err, w1) \<Rightarrow> (Some (Wrapf ''scan expired running tasks: '' err ''''), w1)
      | (Inr expiredTasks, w1) \<Rightarrow> (None, forEachLogged (recoverRunningTask s now) expiredTasks w1))"

definition Tick :: "'r Scheduler \<Rightarrow> 'r world \<Rightarrow> goerror option \<times> 'r world" where
  "Tick s w =
     (case timeNow w of (now, w1) \<Rightarrow>
      case recoverExpiredRunning s now w1 of
        (Some err, w2) \<Rightarrow> (Some err, w2)
      | (None, w2) \<Rightarrow>
          (case scheduleDueZSetTasks s now w2 of
             (Some err, w3) \<Rightarrow> (Some err, w3)
           | (None, w3) \<Rightarrow>
               (case ssDueRetrying (scStore s) now (scBatchSize s) w3 of
                  (Inl err, w4) \<Rightarrow> (Some (Wrapf ''scan due retrying tasks: '' err ''''), w4)
                | (Inr dueRetryingTasks, w4) \<Rightarrow> (None, forEachLogged (scheduleTask s) dueRetryingTasks w4))))"

text \<open>
  \<open>Run\<close>. Each pass through the \<open>select\<close> takes one of the events that are ready;
  \<open>events\<close> lists the choices. \<open>time.NewTicker\<close> panics on an interval that is not positive.
\<close>

datatype loop_event = CtxDone | TickerFired

datatype run_result = Returned "goerror option" | Panicked string | StillRunning

fun schedulerLoop :: "'r Scheduler \<Rightarrow> loop_event list \<Rightarrow> 'r world \<Rightarrow> run_result \<times> 'r world" where
  "schedulerLoop s [] w = (StillRunning, w)"
| "schedulerLoop s (CtxDone # es) w = (Returned None, w)"
| "schedulerLoop s (TickerFired # es) w = schedulerLoop s es (snd (Tick s w))"

definition SchedulerRun :: "'r Scheduler \<Rightarrow> loop_event list \<Rightarrow> 'r world \<Rightarrow> run_result \<times> 'r world" where
  "SchedulerRun s events w =
     (case Tick s w of
        (Some err, w1) \<Rightarrow> (Returned (Some err), w1)
      | (None, w1) \<Rightarrow>
          if scInterval s \<le> 0 then (Panicked ''non-positive interval for NewTicker'', w1)
          else schedulerLoop s events w1)"


section \<open>The scheduler against its interfaces\<close>

text \<open>The stream entry of a task.\<close>

definition taskEntry :: "task_row \<Rightarrow> (string \<rightharpoonup> rval)" where
  "taskEntry r = taskValues \<lparr>mID = c_id r, mType = c_task_type r, mTraceID = derefString (c_trace_id r)\<rparr>"

lemma taskEntry_identity: "same_identity r r' \<Longrightarrow> taskEntry r' = taskEntry r"
  by (simp add: taskEntry_def same_identityD)

text \<open>The commands a scheduler may send, given the table: the entry of a stored task to the task
  stream, an entry to the dead-letter stream, a removal from the sorted set.\<close>

definition scheduler_cmd :: "string \<Rightarrow> string \<Rightarrow> string \<Rightarrow> task_row list \<Rightarrow> redis_cmd \<Rightarrow> bool" where
  "scheduler_cmd stream deadStream key t cmd = (case cmd of
     CmdXAdd s v ok \<Rightarrow> s = stream \<and> (\<exists>r \<in> set t. v = taskEntry r) \<or> s = deadStream
   | CmdZRem k i ok \<Rightarrow> k = key
   | _ \<Rightarrow> False)"

lemma scheduler_cmd_mono:
  assumes "sound w" "evolved w w'" "scheduler_cmd stream ds key (wTable w) cmd"
  shows "scheduler_cmd stream ds key (wTable w') cmd"
proof -
  have "\<exists>r' \<in> set (wTable w'). taskEntry r' = taskEntry r" if r: "r \<in> set (wTable w)" for r
  proof -
    have "distinct (map c_id (wTable w))" using assms(1) by (auto simp: sound_def table_ok_distinct)
    with db_steps_row [OF _ this row_unique [OF assms(1) r]] assms(2)
    obtain r' where "row (wTable w') (c_id r) = Some r'" "same_identity r r'" by (auto simp: evolved_def evolves_def)
    then show ?thesis using taskEntry_identity by (blast dest: row_Some_D)
  qed
  with assms(3) show ?thesis by (cases cmd; simp add: scheduler_cmd_def; metis)
qed

text \<open>What every part of a tick may do.\<close>

definition tick_effect :: "string \<Rightarrow> string \<Rightarrow> string \<Rightarrow> 'r world \<Rightarrow> 'r world \<Rightarrow> bool" where
  "tick_effect stream ds key w w' \<longleftrightarrow> evolved w w'
     \<and> (\<exists>cs. wSent w' = wSent w @ cs \<and> (\<forall>cmd \<in> set cs. scheduler_cmd stream ds key (wTable w') cmd))"

lemma tick_effect_refl [simp]: "tick_effect stream ds key w w"
  by (simp add: tick_effect_def)

lemma tick_effect_trans:
  assumes "sound a" "tick_effect stream ds key a b" "tick_effect stream ds key b c"
  shows "tick_effect stream ds key a c"
proof -
  have "sound b" using assms(1,2) by (auto simp: tick_effect_def intro: evolved_sound)
  with assms scheduler_cmd_mono [OF this] show ?thesis
    unfolding tick_effect_def by (metis UnE append_assoc evolved_trans set_append)
qed

lemma tick_effect_sound: "tick_effect stream ds key w w' \<Longrightarrow> sound w \<Longrightarrow> sound w'"
  by (auto simp: tick_effect_def intro: evolved_sound)

lemma tick_effect_silent: "evolved w w' \<Longrightarrow> wSent w' = wSent w \<Longrightarrow> tick_effect stream ds key w w'"
  by (simp add: tick_effect_def)

lemma forEachLogged_effect:
  assumes "\<And>x w. sound w \<Longrightarrow> tick_effect stream ds key w (snd (f x w))"
  shows "sound w \<Longrightarrow> tick_effect stream ds key w (forEachLogged f xs w)"
proof (induction xs arbitrary: w)
  case (Cons x xs)
  note s = tick_effect_sound [OF assms [OF Cons.prems] Cons.prems]
  show ?case using tick_effect_trans [OF Cons.prems assms [OF Cons.prems] Cons.IH [OF s]] by simp
qed simp

locale scheduler_deps =
  scheduler_store "scStore s" + task_publisher "scPublisher s" stream + delayed_queue "scScheduledQueue s" dkey
    + dead_publisher dead deadStream
  for s :: "'r Scheduler" and stream dkey :: string and dead :: "'r DeadPublisher" and deadStream :: string +
  assumes dead_wired: "scDeadPublisher s = Some dead"
begin

lemma schedule_outcome:
  assumes w: "sound w" and h: "scheduleTask s t w = (res, w')"
  shows "evolved w w' \<and> (wSent w' = wSent w
    \<or> (\<exists>r. row (wTable w') (ID t) = Some r \<and> c_status r = StatusPending
        \<and> wSent w' = wSent w @ [CmdXAdd stream (taskEntry r) (res = None)]))"
proof (cases "Status t = StatusScheduled \<or> Status t = StatusRetrying")
  case False
  with h show ?thesis by (auto simp: scheduleTask_def)
next
  case True
  obtain r1 w1 where tr: "tsTransition (scStore s) (ID t) (Status t) StatusPending None w = (r1, w1)" by fastforce
  have e1: "evolved w w1 \<and> wSent w1 = wSent w"
    by (rule db_effect_evolved, rule transition_effect [OF w _ tr]) (use True in \<open>simp add: program_transition_def\<close>)
  show ?thesis
  proof (cases r1)
    case (Inl x)
    with h True tr e1 show ?thesis by (auto simp: scheduleTask_def split: if_splits)
  next
    case (Inr pt)
    obtain r where r: "row (wTable w1) (ID t) = Some r" "pt = scanTask r" "c_status r = StatusPending"
      using transition_returns [OF w tr [unfolded Inr]] by blast
    let ?m = "\<lparr>mID = ID pt, mType = Type pt, mTraceID = (case TraceID pt of None \<Rightarrow> '''' | Some x \<Rightarrow> x)\<rparr>"
    have v: "taskValues ?m = taskEntry r" by (simp add: taskEntry_def r(2) derefString_def)
    obtain e2 w2 where p: "scPublisher s ?m w1 = (e2, w2)" by fastforce
    note p2 = redis_only_evolved [OF pub_only [OF p]] pub_sent [OF p]
    have "w' = w2" "res = None \<longleftrightarrow> e2 = None"
      using h True tr Inr p by (auto simp: scheduleTask_def Let_def split: option.splits if_splits)
    with p2 e1 r v show ?thesis by (auto intro: evolved_trans)
  qed
qed

lemma schedule_effect: "sound w \<Longrightarrow> tick_effect stream deadStream dkey w (snd (scheduleTask s t w))"
proof -
  assume w: "sound w"
  obtain res w' where h: "scheduleTask s t w = (res, w')" by fastforce
  from schedule_outcome [OF w h] show ?thesis
    using row_Some_D by (fastforce simp: h tick_effect_def scheduler_cmd_def)
qed

lemma remove_effect: "sound w \<Longrightarrow> tick_effect stream deadStream dkey w (snd (sqRemove (scScheduledQueue s) i w))"
proof -
  obtain e w' where r: "sqRemove (scScheduledQueue s) i w = (e, w')" by fastforce
  then show ?thesis
    using redis_only_evolved [OF remove_only [OF r]] remove_sent [OF r] by (simp add: tick_effect_def scheduler_cmd_def)
qed

lemma zset_effect:
  assumes w: "sound w"
  shows "tick_effect stream deadStream dkey w (snd (scheduleZSetTask s i w))"
proof -
  obtain r1 w1 where g: "tsGet (scStore s) i w = (r1, w1)" by fastforce
  have e1: "tick_effect stream deadStream dkey w w1"
    using db_effect_evolved [OF get_effect [OF w g]] by (auto intro: tick_effect_silent)
  note s1 = tick_effect_sound [OF e1 w]
  note then_do = tick_effect_trans [OF w e1]
  show ?thesis
  proof (cases r1)
    case (Inl x)
    then show ?thesis using g e1 then_do [OF remove_effect [OF s1]] by (simp add: scheduleZSetTask_def)
  next
    case (Inr t)
    obtain e2 w2 where h: "scheduleTask s t w1 = (e2, w2)" by fastforce
    have e2: "tick_effect stream deadStream dkey w1 w2" using schedule_effect [OF s1, of t] by (simp add: h)
    note s2 = tick_effect_sound [OF e2 s1]
    from Inr g h e2 then_do remove_effect [OF s1] tick_effect_trans [OF s1 e2 remove_effect [OF s2]]
    show ?thesis by (auto simp: scheduleZSetTask_def split: option.split)
  qed
qed

lemma recover_effect:
  assumes w: "sound w"
  shows "tick_effect stream deadStream dkey w (snd (recoverRunningTask s now t w))"
proof -
  let ?f = "timeoutFailure t"
  obtain r1 w1 where m: "tsMarkFailed (scStore s) (ID t) ?f w = (r1, w1)" by fastforce
  note e1 = db_effect_evolved [OF markFailed_effect [OF w m]]
  note s1 = evolved_sound [OF conjunct1 [OF e1] w]
  show ?thesis
  proof (cases r1)
    case (Inl x)
    with m e1 show ?thesis by (auto simp: recoverRunningTask_def intro: tick_effect_silent)
  next
    case (Inr ft)
    obtain r where r: "row (wTable w1) (ID t) = Some r" "ft = scanTask r"
      using markFailed_returns [OF w m [unfolded Inr]] by blast
    have "row_inv r" using s1 r(1) by (auto simp: sound_def dest: row_Some_D db_inv_row)
    then have d: "decision_wf (DecideFailure now (RetryCount ft) (MaxRetries ft))"
      using row_inv_retry_bounds [of r] decision_wf_DecideFailure by (simp add: r(2))
    obtain r2 w2 where c: "tsCompleteFailure (scStore s) (ID ft) (DecideFailure now (RetryCount ft) (MaxRetries ft)) ?f w1 = (r2, w2)"
      by fastforce
    note e2 = db_effect_evolved [OF completeFailure_effect [OF s1 d c]]
    have e: "tick_effect stream deadStream dkey w w2"
      using e1 e2 by (auto intro: tick_effect_silent evolved_trans)
    have p: "tick_effect stream deadStream dkey w w3" if p: "dead dm w2 = (e3, w3)" for dm e3 w3
      by (rule tick_effect_trans [OF w e])
        (use redis_only_evolved [OF dead_only [OF p]] dead_sent [OF p] in \<open>simp add: tick_effect_def scheduler_cmd_def\<close>)
    show ?thesis using e m Inr c
      by (auto simp: recoverRunningTask_def Let_def dead_wired split: sum.split prod.splits dest!: p)
  qed
qed

lemma tick_step:
  assumes w: "sound w" and h: "Tick s w = (res, w')"
  shows "tick_effect stream deadStream dkey w w'"
proof -
  obtain now w1 where n: "timeNow w = (now, w1)" by fastforce
  have e1: "tick_effect stream deadStream dkey w w1" using timeNow_frame [OF n] by (auto intro: tick_effect_silent)
  note s1 = tick_effect_sound [OF e1 w]
  obtain r2 w2 where a: "recoverExpiredRunning s now w1 = (r2, w2)" by fastforce
  have e2: "tick_effect stream deadStream dkey w1 w2"
  proof -
    obtain r v where x: "ssExpiredRunning (scStore s) now (scBatchSize s) w1 = (r, v)" by fastforce
    have v: "tick_effect stream deadStream dkey w1 v"
      using db_effect_evolved [OF expired_effect [OF s1 x]] by (auto intro: tick_effect_silent)
    show ?thesis using a x v tick_effect_trans [OF s1 v forEachLogged_effect [OF recover_effect tick_effect_sound [OF v s1]]]
      by (auto simp: recoverExpiredRunning_def split: sum.splits)
  qed
  note s2 = tick_effect_sound [OF e2 s1]
  obtain r3 w3 where b: "scheduleDueZSetTasks s now w2 = (r3, w3)" by fastforce
  have e3: "tick_effect stream deadStream dkey w2 w3"
  proof -
    obtain r v where x: "sqDueTaskIDs (scScheduledQueue s) now (scBatchSize s) w2 = (r, v)" by fastforce
    have v: "tick_effect stream deadStream dkey w2 v"
      using due_ids_only [OF x] redis_only_evolved [of w2 v] by (auto intro: tick_effect_silent)
    show ?thesis using b x v tick_effect_trans [OF s2 v forEachLogged_effect [OF zset_effect tick_effect_sound [OF v s2]]]
      by (auto simp: scheduleDueZSetTasks_def split: sum.splits)
  qed
  note s3 = tick_effect_sound [OF e3 s2]
  obtain r4 w4 where c: "ssDueRetrying (scStore s) now (scBatchSize s) w3 = (r4, w4)" by fastforce
  have e4: "tick_effect stream deadStream dkey w3 w4"
    using db_effect_evolved [OF due_effect [OF s3 c]] by (auto intro: tick_effect_silent)
  note s4 = tick_effect_sound [OF e4 s3]
  have e5: "tick_effect stream deadStream dkey w4 (forEachLogged (scheduleTask s) ts w4)" for ts
    by (rule forEachLogged_effect [OF schedule_effect s4])
  note e12 = tick_effect_trans [OF w e1 e2]
  note e13 = tick_effect_trans [OF w e12 e3]
  note e14 = tick_effect_trans [OF w e13 e4]
  note e15 = tick_effect_trans [OF w e14 e5]
  show ?thesis using h n a b c e12 e13 e14 e15
    by (auto simp: Tick_def split: option.splits sum.splits)
qed


end


context scheduler_deps
begin

lemma loop_step: "sound w \<Longrightarrow> schedulerLoop s es w = (res, w') \<Longrightarrow> tick_effect stream deadStream dkey w w'"
proof (induction es arbitrary: w)
  case (Cons e es)
  show ?case
  proof (cases e)
    case TickerFired
    obtain r1 w1 where t: "Tick s w = (r1, w1)" by fastforce
    note e1 = tick_step [OF Cons.prems(1) t]
    show ?thesis
      using Cons.prems TickerFired t
      by (auto intro: tick_effect_trans [OF Cons.prems(1) e1] Cons.IH [OF tick_effect_sound [OF e1 Cons.prems(1)]])
  qed (use Cons.prems in auto)
qed simp

lemma run_step:
  assumes w: "sound w" and h: "SchedulerRun s es w = (res, w')"
  shows "tick_effect stream deadStream dkey w w'"
proof -
  obtain r1 w1 where t: "Tick s w = (r1, w1)" by fastforce
  note e1 = tick_step [OF w t]
  show ?thesis
    using h t e1 tick_effect_trans [OF w e1 loop_step [OF tick_effect_sound [OF e1 w]]]
    by (auto simp: SchedulerRun_def split: option.splits if_splits)
qed

end

text \<open>The scheduler as \<open>internal/app\<close> assembles it.\<close>

definition appScheduler :: "'r RedisStreamPublisher \<Rightarrow> 'r RedisScheduledQueue \<Rightarrow> 'r RedisDeadStreamPublisher
    \<Rightarrow> Duration \<Rightarrow> int \<Rightarrow> 'r Scheduler" where
  "appScheduler p q dp interval batch =
     SchedulerWithDeadPublisher (Some (PublishDead dp))
       (SchedulerNew pgTaskStore (PublishTask p) (redisScheduledQueue q) interval batch)"

lemma appScheduler_simps [simp]:
  "scStore (appScheduler p q dp i b) = pgTaskStore" "scPublisher (appScheduler p q dp i b) = PublishTask p"
  "scScheduledQueue (appScheduler p q dp i b) = redisScheduledQueue q"
  "scDeadPublisher (appScheduler p q dp i b) = Some (PublishDead dp)" "scBatchSize (appScheduler p q dp i b) = b"
  "scInterval (appScheduler p q dp i b) = i"
  by (simp_all add: appScheduler_def SchedulerWithDeadPublisher_def SchedulerNew_def)

lemma pgTaskStore_simps [simp]:
  "tsGet pgTaskStore = Get" "tsTransition pgTaskStore = Transition" "tsMarkFailed pgTaskStore = MarkFailed"
  "tsCompleteFailure pgTaskStore = CompleteFailure" "ssExpiredRunning pgTaskStore = ExpiredRunning"
  "ssDueRetrying pgTaskStore = DueRetrying"
  by (simp_all add: pgTaskStore_def)

interpretation scd: scheduler_deps "appScheduler p q dp i b" "rspStreamName p" "rsqKey q" "PublishDead dp" "rdpStreamName dp"
  for p q dp i b
  by (rule scheduler_deps.intro)
    (simp_all add: pgs.scheduler_store_axioms rsp.task_publisher_axioms rdq.delayed_queue_axioms
      rdp.dead_publisher_axioms scheduler_deps_axioms_def)

section \<open>Properties of the assembled scheduler\<close>

text \<open>C3. The scheduler refines the table specification. However often it ticks, whatever the other
  sessions do and whichever call fails, the table only takes specified steps and keeps its invariant,
  and the commands it sends are stream entries of stored tasks with their type and trace identifier,
  dead-letter entries, and removals from the sorted set.\<close>

theorem scheduler_refines_table_spec:
  assumes "sound w" "SchedulerRun (appScheduler p q dp i b) es w = (res, w')"
  shows "db_steps (wTable w) (wTable w') \<and> db_inv (wTable w')
    \<and> (\<exists>cs. wSent w' = wSent w @ cs
        \<and> (\<forall>cmd \<in> set cs. scheduler_cmd (rspStreamName p) (rdpStreamName dp) (rsqKey q) (wTable w') cmd))"
proof -
  note e = scd.run_step [OF assms]
  from tick_effect_sound [OF e assms(1)] e show ?thesis by (auto simp: tick_effect_def evolved_def sound_def)
qed

definition sampleScheduler :: "unit redis_client \<Rightarrow> unit Scheduler" where
  "sampleScheduler c = appScheduler \<lparr>rspClient = c, rspStreamName = ''tasks:stream''\<rparr>
     \<lparr>rsqClient = c, rsqKey = ''tasks:scheduled''\<rparr> \<lparr>rdpClient = c, rdpStreamName = ''tasks:dead''\<rparr> Second 100"

theorem scheduler_refines_table_spec_witness:
  "db_inv (wTable (snd (SchedulerRun (sampleScheduler obligingRedis) [TickerFired, CtxDone]
     (calmWorld [sampleRow ''a'' StatusRetrying] ()))))"
proof -
  have "sound (calmWorld [sampleRow ''a'' StatusRetrying] ())" by simp
  from scheduler_refines_table_spec [OF this, where es = "[TickerFired, CtxDone]"] show ?thesis
    unfolding sampleScheduler_def by (metis prod.collapse)
qed


subsection \<open>Dispatch\<close>

text \<open>No other session writes and no statement fails, from here on.\<close>

definition alone :: "'r world \<Rightarrow> bool" where
  "alone w \<longleftrightarrow> (\<forall>n. quiet n w)"

lemma alone_iff: "alone w \<longleftrightarrow> (\<forall>k \<ge> wPgCalls w. pgFault (envPg (wEnv w) k) = NoFault \<and> (\<forall>t. pgOthers (envPg (wEnv w) k) t = t))"
  unfolding alone_def quiet_def by (metis le_Suc_ex le_add1 lessI add_less_cancel_left)

lemma alone_later: "alone w \<Longrightarrow> wEnv w' = wEnv w \<Longrightarrow> wPgCalls w \<le> wPgCalls w' \<Longrightarrow> alone w'"
  by (auto simp: alone_iff)

lemma alone_quiet: "alone w \<Longrightarrow> quiet n w"
  by (simp add: alone_def)

lemma alone_calm [simp]: "alone (calmWorld t r)"
  by (simp add: alone_def)

lemma scheduleTask_quiet:
  assumes inv: "db_inv (wTable w)" and al: "alone w" and r: "row (wTable w) (ID t) = Some r" "c_status r = Status t"
    and st: "Status t = StatusScheduled \<or> Status t = StatusRetrying"
  defines "r' \<equiv> setTransition StatusPending None (pgNow (pgNext w)) r"
  shows "\<exists>res w'. scheduleTask (appScheduler p q dp i b) t w = (res, w') \<and> db_inv (wTable w') \<and> alone w' \<and> wEnv w' = wEnv w
    \<and> (\<forall>j. row (wTable w') j = (if j = ID t then Some r' else row (wTable w) j))
    \<and> wSent w' = wSent w @ [CmdXAdd (rspStreamName p) (taskEntry r) (res = None)]"
proof -
  have can: "CanTransition (Status t) StatusPending" using st by (auto simp: CanTransition_iff)
  let ?f = "setTransition StatusPending None (pgNow (pgNext w))"
  define w1 where "w1 = w\<lparr>wPgCalls := Suc (wPgCalls w),
      wTable := update_where (\<lambda>r. c_id r = ID t \<and> c_status r = Status t) ?f (wTable w)\<rparr>"
  have tr: "Transition (ID t) (Status t) StatusPending None w = (Inr (scanTask (?f r)), w1)"
    using Transition_quiet [OF alone_quiet [OF al] inv r can, of None] by (simp add: w1_def)
  have inv1: "db_inv (wTable w1)" unfolding w1_def
    by (simp, rule update_where_db_inv [OF inv], rule setTransition_step [where src = "Status t"])
      (use st in \<open>simp_all add: program_transition_def\<close>)
  have rows: "row (wTable w1) j = (if j = ID t then Some r' else row (wTable w) j)" for j
    using r by (simp add: w1_def row_update_where r'_def)
  let ?m = "\<lparr>mID = c_id r, mType = c_task_type r, mTraceID = derefString (c_trace_id r)\<rparr>"
  obtain e w2 where pb: "PublishTask p ?m w1 = (e, w2)" by fastforce
  note f = redis_onlyD [OF redis_only_methods(1) [OF pb]]
  have al2: "alone w2" by (rule alone_later [OF al]) (simp_all add: f w1_def)
  have tv: "TraceID (scanTask (?f r)) = c_trace_id r" "Type (scanTask (?f r)) = c_task_type r"
    by (simp_all add: setTransition_def)
  have "\<exists>res. scheduleTask (appScheduler p q dp i b) t w = (res, w2) \<and> (res = None \<longleftrightarrow> e = None)"
    using st tr pb tv by (auto simp: scheduleTask_def Let_def derefString_def split: option.split)
  with inv1 rows al2 f PublishTask_sent [OF pb] show ?thesis by (auto simp: w1_def taskEntry_def)
qed

text \<open>\<open>w'\<close> is \<open>w\<close> after the dispatch of the tasks \<open>rs\<close>, one entry each, with the given replies.\<close>

definition dispatched :: "string \<Rightarrow> task_row list \<Rightarrow> bool list \<Rightarrow> 'r world \<Rightarrow> 'r world \<Rightarrow> bool" where
  "dispatched stream rs oks w w' \<longleftrightarrow>
     length oks = length rs
     \<and> wSent w' = wSent w @ map2 (\<lambda>r ok. CmdXAdd stream (taskEntry r) ok) rs oks
     \<and> (\<forall>r \<in> set rs. \<exists>t. row (wTable w') (c_id r) = Some (setTransition StatusPending None t r))
     \<and> (\<forall>j. j \<notin> c_id ` set rs \<longrightarrow> row (wTable w') j = row (wTable w) j)"

lemma dispatched_Cons:
  assumes "dispatched stream rs oks w1 w'" "c_id r \<notin> c_id ` set rs"
    and "\<And>j. row (wTable w1) j = (if j = c_id r then Some (setTransition StatusPending None now r) else row (wTable w) j)"
    and "wSent w1 = wSent w @ [CmdXAdd stream (taskEntry r) ok]"
  shows "dispatched stream (r # rs) (ok # oks) w w'"
  using assms unfolding dispatched_def by auto

lemma dispatch_list:
  assumes "db_inv (wTable w)" "alone w" "distinct (map c_id rs)"
    and "\<forall>r \<in> set rs. row (wTable w) (c_id r) = Some r \<and> (c_status r = StatusScheduled \<or> c_status r = StatusRetrying)"
  shows "\<exists>oks. dispatched (rspStreamName p) rs oks w
    (forEachLogged (scheduleTask (appScheduler p q dp i b)) (map scanTask rs) w)"
  using assms
proof (induction rs arbitrary: w)
  case Nil
  then show ?case by (simp add: dispatched_def)
next
  case (Cons r rs)
  from Cons.prems(4) have r: "row (wTable w) (ID (scanTask r)) = Some r" "c_status r = Status (scanTask r)"
    "Status (scanTask r) = StatusScheduled \<or> Status (scanTask r) = StatusRetrying" by auto
  obtain res w1 where s: "scheduleTask (appScheduler p q dp i b) (scanTask r) w = (res, w1)" "db_inv (wTable w1)"
    "alone w1" "wSent w1 = wSent w @ [CmdXAdd (rspStreamName p) (taskEntry r) (res = None)]"
    and rows: "\<And>j. row (wTable w1) j
      = (if j = c_id r then Some (setTransition StatusPending None (pgNow (pgNext w)) r) else row (wTable w) j)"
    using scheduleTask_quiet [OF Cons.prems(1,2) r, where p = p and q = q and dp = dp and i = i and b = b] by auto
  have n: "c_id r \<notin> c_id ` set rs" and d: "distinct (map c_id rs)" using Cons.prems(3) by auto
  have "\<forall>x \<in> set rs. row (wTable w1) (c_id x) = Some x \<and> (c_status x = StatusScheduled \<or> c_status x = StatusRetrying)"
  proof
    fix x assume x: "x \<in> set rs"
    then have "c_id x \<noteq> c_id r" using n by (metis image_eqI)
    then show "row (wTable w1) (c_id x) = Some x \<and> (c_status x = StatusScheduled \<or> c_status x = StatusRetrying)"
      using x Cons.prems(4) by (simp add: rows)
  qed
  from Cons.IH [OF s(2,3) d this] obtain oks where
    "dispatched (rspStreamName p) rs oks w1 (forEachLogged (scheduleTask (appScheduler p q dp i b)) (map scanTask rs) w1)" ..
  from dispatched_Cons [OF this n rows s(4)] have
    "dispatched (rspStreamName p) (r # rs) ((res = None) # oks) w
      (forEachLogged (scheduleTask (appScheduler p q dp i b)) (map scanTask (r # rs)) w)" by (simp only: list.map forEachLogged.simps s(1) snd_conv)
  then show ?case ..
qed

text \<open>C12. Every retry the listing returns is dispatched. With no other session writing, the retry phase of
  a tick leaves each listed task pending, with its retry time cleared, and offers exactly one entry for
  it to the stream, in the order of the listing; the failure of one publication does not keep the later
  tasks from being dispatched; no other row changes.\<close>

theorem due_retries_all_dispatched:
  assumes "sound w" "alone w" "DueRetrying now b w = (Inr ts, w1)"
    and "w' = forEachLogged (scheduleTask (appScheduler p q dp i b)) ts w1"
  shows "\<exists>oks. length oks = length ts
    \<and> wSent w' = wSent w @ map2 (\<lambda>t ok. CmdXAdd (rspStreamName p)
         (taskValues \<lparr>mID = ID t, mType = Type t, mTraceID = derefString (TraceID t)\<rparr>) ok) ts oks
    \<and> (\<forall>t \<in> set ts. \<exists>r'. row (wTable w') (ID t) = Some r' \<and> c_status r' = StatusPending \<and> c_next_retry_at r' = None)
    \<and> (\<forall>j. j \<notin> ID ` set ts \<longrightarrow> row (wTable w') j = row (wTable w) j)"
proof -
  note e1 = listing_effect(2) [OF assms(1,3)]
  have s1: "sound w1" by (rule db_effect_sound [OF e1 assms(1)])
  have t1: "wTable w1 = wTable w" "wPgCalls w1 = Suc (wPgCalls w)"
    using assms(3) quiet_now [OF alone_quiet [OF assms(2)]]
    by (auto simp: DueRetrying_def Let_def scanRows_def pgExec_NoFault)
  have al: "alone w1" by (rule alone_later [OF assms(2)]) (use e1 t1 in \<open>auto simp: db_effect_def db_onlyD\<close>)
  obtain rs where rs: "ts = map scanTask rs" "distinct (map c_id rs)"
    "\<forall>r \<in> set rs. r \<in> set (wTable w1) \<and> c_status r = StatusRetrying"
    using scanRows_returns [OF assms(1)] assms(3) by (fastforce simp: DueRetrying_def Let_def)
  have "\<forall>r \<in> set rs. row (wTable w1) (c_id r) = Some r \<and> (c_status r = StatusScheduled \<or> c_status r = StatusRetrying)"
    using rs(3) row_unique [OF s1] by blast
  from dispatch_list [OF _ al rs(2) this, of p q dp i b] s1 obtain oks where
    d: "dispatched (rspStreamName p) rs oks w1 w'" by (auto simp: sound_def assms(4) rs(1))
  have "map2 (\<lambda>t ok. CmdXAdd (rspStreamName p) (taskValues \<lparr>mID = ID t, mType = Type t, mTraceID = derefString (TraceID t)\<rparr>) ok) ts oks
      = map2 (\<lambda>r ok. CmdXAdd (rspStreamName p) (taskEntry r) ok) rs oks"
    by (simp add: rs(1) zip_map1 taskEntry_def comp_def split_def)
  moreover have "wSent w1 = wSent w" using db_effect_evolved [OF e1] by simp
  moreover have "\<forall>r \<in> set rs. \<exists>r'. row (wTable w') (c_id r) = Some r' \<and> c_status r' = StatusPending \<and> c_next_retry_at r' = None"
    using d by (fastforce simp: dispatched_def setTransition_def)
  ultimately show ?thesis
    using d t1 by (intro exI [of _ oks]) (simp add: dispatched_def rs(1) image_image)
qed


theorem due_retries_all_dispatched_witness:
  "\<exists>oks. wSent (forEachLogged (scheduleTask (sampleScheduler obligingRedis))
        [scanTask (sampleRow ''a'' StatusRetrying)] (snd (DueRetrying 500 100 (calmWorld [sampleRow ''a'' StatusRetrying] ()))))
      = map2 (\<lambda>t ok. CmdXAdd ''tasks:stream'' (taskValues \<lparr>mID = ID t, mType = Type t, mTraceID = derefString (TraceID t)\<rparr>) ok)
          [scanTask (sampleRow ''a'' StatusRetrying)] oks"
proof -
  let ?w = "calmWorld [sampleRow ''a'' StatusRetrying] ()"
  have n: "c_next_retry_at (sampleRow ''a'' StatusRetrying) = Some 400" by (simp add: sampleRow_def)
  have s: "sound ?w" by simp
  obtain w1 where d: "DueRetrying 500 100 ?w = (Inr [scanTask (sampleRow ''a'' StatusRetrying)], w1)"
    by (simp add: DueRetrying_def Let_def pgExec_NoFault pgSelect_def scanRows_def dueAt_def n)
  show ?thesis
    using due_retries_all_dispatched [OF s _ d refl, of "\<lparr>rspClient = obligingRedis, rspStreamName = ''tasks:stream''\<rparr>"
        "\<lparr>rsqClient = obligingRedis, rsqKey = ''tasks:scheduled''\<rparr>" "\<lparr>rdpClient = obligingRedis, rdpStreamName = ''tasks:dead''\<rparr>" Second]
    unfolding d sampleScheduler_def by fastforce
qed

subsection \<open>Rows the scheduler passes by\<close>

definition bystander :: "string \<Rightarrow> task_row \<Rightarrow> 'r world \<Rightarrow> bool" where
  "bystander i r w \<longleftrightarrow> sound w \<and> alone w \<and> row (wTable w) i = Some r
     \<and> c_status r \<notin> {StatusScheduled, StatusRunning}"

text \<open>The row is as it was, no stream entry names its task, and no row was added or removed.\<close>

definition untouched :: "string \<Rightarrow> task_row \<Rightarrow> 'r world \<Rightarrow> 'r world \<Rightarrow> bool" where
  "untouched i r w w' \<longleftrightarrow> bystander i r w' \<and> map c_id (wTable w') = map c_id (wTable w) \<and> wEnv w' = wEnv w
     \<and> (\<exists>cs. wSent w' = wSent w @ cs \<and> (\<forall>s v ok. CmdXAdd s v ok \<in> set cs \<longrightarrow> v ''task_id'' \<noteq> Some (RString i)))"

lemma untouched_trans: "untouched i r a b \<Longrightarrow> untouched i r b c \<Longrightarrow> untouched i r a c"
  unfolding untouched_def by (metis Un_iff append_assoc set_append)

lemma untouched_bystander: "untouched i r w w' \<Longrightarrow> bystander i r w'"
  by (simp add: untouched_def)

lemma untouched_forEach:
  assumes "\<And>x w. x \<in> set xs \<Longrightarrow> bystander i r w \<Longrightarrow> untouched i r w (snd (f x w))"
  shows "bystander i r w \<Longrightarrow> untouched i r w (forEachLogged f xs w)"
  using assms
proof (induction xs arbitrary: w)
  case Nil
  then show ?case by (simp add: untouched_def)
next
  case (Cons x xs)
  note u = Cons.prems(2) [OF _ Cons.prems(1), of x, simplified]
  from untouched_trans [OF u Cons.IH [OF untouched_bystander [OF u] Cons.prems(2)]] show ?case by simp
qed

lemma untouched_same:
  assumes "bystander i r w" "wTable w' = wTable w" "wEnv w' = wEnv w" "wPgCalls w' = wPgCalls w" "wSent w' = wSent w"
  shows "untouched i r w w'"
  using assms by (auto simp: untouched_def bystander_def sound_def intro: alone_later)

lemma untouched_statement:
  assumes "bystander i r w" "pgExec stmt w = (res, w')" "db_effect w w'" "row (wTable w') i = Some r"
    and "map c_id (wTable w') = map c_id (wTable w)"
  shows "untouched i r w w'"
proof -
  have "wPgCalls w' = Suc (wPgCalls w)"
    using assms(2) by (auto simp: pgExec_def Let_def split: pg_fault.splits prod.splits)
  moreover have "wEnv w' = wEnv w" "wSent w' = wSent w" using assms(3) by (simp_all add: db_effect_def db_onlyD)
  ultimately have "alone w'" using assms(1) by (auto simp: bystander_def intro: alone_later)
  then show ?thesis
    using assms(1,4,5) db_effect_sound [OF assms(3)] \<open>wSent w' = wSent w\<close> \<open>wEnv w' = wEnv w\<close> by (auto simp: bystander_def untouched_def)
qed

lemma untouched_read:
  assumes "bystander i r w" "pgExec stmt w = (res, w')" "\<And>c t. snd (stmt c t) = t"
  shows "untouched i r w w'"
proof (rule untouched_statement [OF assms(1,2)])
  show "db_effect w w'" using assms by (auto simp: bystander_def intro: read_effect)
  have "wTable w' = wTable w"
    using assms quiet_now [OF alone_quiet, of w] by (auto simp: bystander_def pgExec_NoFault)
  then show "row (wTable w') i = Some r" "map c_id (wTable w') = map c_id (wTable w)"
    using assms(1) by (simp_all add: bystander_def)
qed

lemma untouched_update:
  assumes "bystander i r w" "pgExec (\<lambda>c. pgUpdate (\<lambda>x. c_id x = j \<and> q x) (f c)) w = (res, w')" "db_effect w w'"
    and "\<And>c x. c_id (f c x) = c_id x" "j \<noteq> i \<or> \<not> q r"
  shows "untouched i r w w'"
proof (rule untouched_statement [OF assms(1-3)])
  have b: "pgFault (pgNext w) = NoFault" "pgTable w = wTable w" "row (wTable w) i = Some r"
    using assms(1) quiet_now [OF alone_quiet, of w] by (auto simp: bystander_def)
  then have "wTable w' \<in> {wTable w, update_where (\<lambda>x. c_id x = j \<and> q x) (f (pgNext w)) (wTable w)}"
    using assms(2) by (auto simp: pgExec_NoFault pgUpdate_def Let_def split: if_splits)
  then show "row (wTable w') i = Some r" "map c_id (wTable w') = map c_id (wTable w)"
    using b(3) assms(5) by (auto simp: row_update_where [OF assms(4)] map_update_where_same [where g = c_id and f = "f (pgNext w)"] assms(4))
qed

lemma untouched_redis:
  assumes "bystander i r w" "redis_only w w'" "wSent w' = wSent w @ cs"
    "\<forall>s v ok. CmdXAdd s v ok \<in> set cs \<longrightarrow> v ''task_id'' \<noteq> Some (RString i)"
  shows "untouched i r w w'"
proof -
  have "sound w'" using assms(1,2) by (simp add: bystander_def sound_def redis_onlyD)
  moreover have "alone w'"
    by (rule alone_later [of w]) (use assms(1,2) in \<open>simp_all add: bystander_def redis_onlyD\<close>)
  ultimately show ?thesis using assms by (auto simp: bystander_def untouched_def redis_onlyD)
qed

lemma untouched_Transition:
  assumes b: "bystander i r w" and p: "program_transition src to wid" and ne: "j \<noteq> i \<or> src \<noteq> c_status r"
    and t: "Transition j src to wid w = (res, w')"
  shows "untouched i r w w' \<and> (\<forall>x. res = Inr x \<longrightarrow> ID x \<noteq> i)"
proof
  have s: "sound w" and r: "row (wTable w) i = Some r" and al: "alone w" using b by (simp_all add: bystander_def)
  obtain r0 where "pgExec (sqlTransition j src to wid) w = (r0, w')"
    using t program_transition_can [OF p] by (auto simp: Transition_def split: prod.splits)
  then have e: "pgExec (\<lambda>c. pgUpdate (\<lambda>x. c_id x = j \<and> c_status x = src) (setTransition to wid (pgNow c))) w = (r0, w')"
    by (simp add: sqlTransition_def [abs_def])
  show "untouched i r w w'"
    by (rule untouched_update [OF b e Transition_effect [OF s p t]]) (use ne in auto)
  show "\<forall>x. res = Inr x \<longrightarrow> ID x \<noteq> i"
  proof (intro allI impI notI)
    fix x assume "res = Inr x" "ID x = i"
    with Transition_returns [OF s t [unfolded \<open>res = Inr x\<close>]] have "j = i" by (auto dest: row_Some_D)
    moreover from this have "c_status r \<noteq> src" using ne by auto
    ultimately have "res = Inl ErrNotFound"
      using t quiet_now [OF alone_quiet [OF al]] r s program_transition_can [OF p]
      by (auto simp: Transition_exec sound_def db_inv_table_ok)
    with \<open>res = Inr x\<close> show False by simp
  qed
qed


lemma untouched_MarkFailed:
  assumes b: "bystander i r w" and t: "MarkFailed j f w = (res, w')"
  shows "untouched i r w w' \<and> (\<forall>x. res = Inr x \<longrightarrow> ID x \<noteq> i)"
proof
  have s: "sound w" and r: "row (wTable w) i = Some r" "c_status r \<noteq> StatusRunning" and al: "alone w"
    using b by (auto simp: bystander_def)
  obtain r0 where r0: "pgExec (sqlMarkFailed j f) w = (r0, w')" "orNotFound (map_sum (\<lambda>x. x) scanTask (firstRow r0)) = res"
    using t by (auto simp: MarkFailed_def split: prod.splits)
  then have e: "pgExec (\<lambda>c. pgUpdate (\<lambda>x. c_id x = j \<and> c_status x = StatusRunning)
      (\<lambda>x. x\<lparr>c_status := StatusFailed, c_last_error := Some f, c_updated_at := pgNow c\<rparr>)) w = (r0, w')"
    by (simp add: sqlMarkFailed_def [abs_def])
  show "untouched i r w w'"
    by (rule untouched_update [OF b e MarkFailed_effect [OF s t]]) (use r in auto)
  show "\<forall>x. res = Inr x \<longrightarrow> ID x \<noteq> i"
  proof (intro allI impI notI)
    fix x assume x: "res = Inr x" "ID x = i"
    with MarkFailed_returns [OF s t [unfolded x(1)]] have "j = i" by (auto dest: row_Some_D)
    moreover have "distinct (map c_id (wTable w))" using s by (auto simp: sound_def table_ok_distinct)
    ultimately have "r0 = Inr []"
      using e r quiet_now [OF alone_quiet [OF al]] by (simp add: pgExec_NoFault pgUpdate_row)
    with r0(2) x(1) show False by simp
  qed
qed

lemma untouched_CompleteFailure:
  assumes b: "bystander i r w" and d: "decision_wf d" and t: "CompleteFailure j d f w = (res, w')" and j: "j \<noteq> i"
  shows "untouched i r w w' \<and> (\<forall>x. res = Inr x \<longrightarrow> ID x = j)"
proof
  have s: "sound w" using b by (simp add: bystander_def)
  let ?n = "map_option (envTimestamptz (wEnv w)) (dNextRetryAt d)"
  have "dStatus d = StatusRetrying \<or> dStatus d = StatusDead" using d by (auto simp: decision_wf_def)
  then obtain r0 where "pgExec (sqlCompleteFailure j d ?n f) w = (r0, w')"
    using t by (auto simp: CompleteFailure_def split: prod.splits if_splits)
  then have e: "pgExec (\<lambda>c. pgUpdate (\<lambda>x. c_id x = j \<and> c_status x = StatusFailed)
      (\<lambda>x. x\<lparr>c_status := dStatus d, c_retry_count := dRetryCount d, c_next_retry_at := ?n,
              c_last_error := Some f,
              c_finished_at := (if dStatus d = StatusDead then Some (pgNow c) else c_finished_at x),
              c_updated_at := pgNow c\<rparr>)) w = (r0, w')"
    by (simp add: sqlCompleteFailure_def [abs_def])
  show "untouched i r w w'"
    by (rule untouched_update [OF b e CompleteFailure_effect [OF s d t]]) (use j in auto)
  show "\<forall>x. res = Inr x \<longrightarrow> ID x = j"
  proof (intro allI impI)
    fix x assume "res = Inr x"
    from CompleteFailure_returns [OF s t [unfolded this]] show "ID x = j" by (auto dest: row_Some_D)
  qed
qed

lemma taskValues_id: "taskValues m ''task_id'' = Some (RString (mID m))"
  by (simp add: taskValues_def Let_def)

lemma deadValues_id: "deadValues m ''task_id'' = Some (RString (dmID m))"
  by (simp add: deadValues_def Let_def)

lemma untouched_scheduleTask:
  assumes b: "bystander i r w" and ne: "ID t \<noteq> i \<or> Status t \<noteq> c_status r"
  shows "untouched i r w (snd (scheduleTask (appScheduler p q dp iv n) t w))"
proof (cases "Status t = StatusScheduled \<or> Status t = StatusRetrying")
  case False
  then show ?thesis using b by (auto simp: scheduleTask_def untouched_def)
next
  case True
  obtain r1 w1 where tr: "Transition (ID t) (Status t) StatusPending None w = (r1, w1)" by fastforce
  have "program_transition (Status t) StatusPending None" using True by (auto simp: program_transition_def)
  note u = untouched_Transition [OF b this ne tr]
  show ?thesis
  proof (cases r1)
    case (Inl x)
    with True tr u show ?thesis by (auto simp: scheduleTask_def)
  next
    case (Inr pt)
    let ?m = "\<lparr>mID = ID pt, mType = Type pt, mTraceID = (case TraceID pt of None \<Rightarrow> '''' | Some x \<Rightarrow> x)\<rparr>"
    obtain e w2 where pb: "PublishTask p ?m w1 = (e, w2)" by fastforce
    have "untouched i r w1 w2"
      by (rule untouched_redis [OF untouched_bystander [OF conjunct1 [OF u]] redis_only_methods(1) [OF pb] PublishTask_sent [OF pb]])
        (use u Inr in \<open>auto simp: taskValues_id\<close>)
    then have "untouched i r w w2" using u by (blast intro: untouched_trans)
    moreover have "snd (scheduleTask (appScheduler p q dp iv n) t w) = w2"
      using True tr Inr pb by (auto simp: scheduleTask_def Let_def split: option.split)
    ultimately show ?thesis by simp
  qed
qed

lemma untouched_remove:
  assumes "bystander i r w"
  shows "untouched i r w (snd (sqRemove (redisScheduledQueue q) j w))"
proof -
  obtain e w' where x: "sqRemove (redisScheduledQueue q) j w = (e, w')" by fastforce
  show ?thesis unfolding x snd_conv
    by (rule untouched_redis [OF assms rdq.remove_only [OF x] rdq.remove_sent [OF x]]) simp
qed

lemma untouched_zset:
  assumes b: "bystander i r w"
  shows "untouched i r w (snd (scheduleZSetTask (appScheduler p q dp iv n) j w))"
proof -
  obtain r1 w1 where g: "Get j w = (r1, w1)" by fastforce
  then obtain r0 where "pgExec (\<lambda>c t. (Inr (filter (\<lambda>x. c_id x = j) t), t)) w = (r0, w1)"
    by (auto simp: Get_def split: prod.splits)
  from untouched_read [OF b this] have u: "untouched i r w w1" by simp
  note b1 = untouched_bystander [OF u]
  note rm = untouched_trans [OF u untouched_remove [OF b1]]
  show ?thesis
  proof (cases r1)
    case (Inl x)
    with g u rm show ?thesis by (simp add: scheduleZSetTask_def)
  next
    case (Inr t)
    obtain e w2 where s: "scheduleTask (appScheduler p q dp iv n) t w1 = (e, w2)" by fastforce
    show ?thesis
    proof (cases "Status t = StatusScheduled")
      case True
      then have "Status t \<noteq> c_status r" using b by (auto simp: bystander_def)
      then have u2: "untouched i r w w2"
        using untouched_trans [OF u untouched_scheduleTask [OF b1]] s by (metis snd_conv)
      note rm2 = untouched_trans [OF u2 untouched_remove [OF untouched_bystander [OF u2]]]
      from g Inr s True u2 rm2 show ?thesis by (simp add: scheduleZSetTask_def split: option.split)
    qed (use g Inr rm in \<open>simp add: scheduleZSetTask_def\<close>)
  qed
qed

lemma untouched_recover:
  assumes b: "bystander i r w"
  shows "untouched i r w (snd (recoverRunningTask (appScheduler p q dp iv n) now t w))"
proof -
  let ?f = "timeoutFailure t"
  obtain r1 w1 where m: "MarkFailed (ID t) ?f w = (r1, w1)" by fastforce
  note u = untouched_MarkFailed [OF b m]
  have s: "sound w" "sound w1" using b u by (auto simp: bystander_def untouched_def)
  show ?thesis
  proof (cases r1)
    case (Inl x)
    with m u show ?thesis by (simp add: recoverRunningTask_def)
  next
    case (Inr ft)
    obtain r' where r': "row (wTable w1) (ID t) = Some r'" "ft = scanTask r'"
      using MarkFailed_returns [OF s(1) m [unfolded Inr]] by blast
    have "row_inv r'" using s(2) r'(1) by (auto simp: sound_def dest: row_Some_D db_inv_row)
    then have d: "decision_wf (DecideFailure now (RetryCount ft) (MaxRetries ft))"
      using row_inv_retry_bounds [of r'] decision_wf_DecideFailure by (simp add: r'(2))
    obtain r2 w2 where c: "CompleteFailure (ID ft) (DecideFailure now (RetryCount ft) (MaxRetries ft)) ?f w1 = (r2, w2)"
      by fastforce
    have ne: "ID ft \<noteq> i" using u Inr by simp
    have u2: "untouched i r w1 w2 \<and> (\<forall>x. r2 = Inr x \<longrightarrow> ID x = ID ft)"
      using u untouched_CompleteFailure [OF untouched_bystander d c ne] by blast
    have dead: "untouched i r w w3" if "PublishDead dp dm w2 = (e, w3)" "dmID dm \<noteq> i" for dm e w3
      using that u u2 untouched_redis [OF untouched_bystander redis_only_methods(2) [OF that(1)] PublishDead_sent [OF that(1)]]
      by (auto simp: deadValues_id intro: untouched_trans)
    have u3: "untouched i r w w2" using u u2 by (blast intro: untouched_trans)
    show ?thesis
    proof (cases r2)
      case x: (Inl x)
      with m Inr c u3 show ?thesis by (simp add: recoverRunningTask_def)
    next
      case x: (Inr x)
      let ?dm = "\<lparr>dmID = ID x, dmType = Type t, dmTraceID = (case TraceID t of None \<Rightarrow> '''' | Some y \<Rightarrow> y),
          dmLastError = ?f, dmRetryCount = RetryCount x\<rparr>"
      obtain e w3 where p: "PublishDead dp ?dm w2 = (e, w3)" by fastforce
      have "dmID ?dm \<noteq> i" using x u2 ne by simp
      with m Inr c x u3 p dead [OF p] show ?thesis by (simp add: recoverRunningTask_def Let_def)
    qed
  qed
qed

text \<open>A tick up to the listing of the due retries.\<close>

definition tickPrefix :: "'r Scheduler \<Rightarrow> 'r world \<Rightarrow> Time \<times> goerror option \<times> 'r world" where
  "tickPrefix s w =
     (case timeNow w of (now, w1) \<Rightarrow>
      case recoverExpiredRunning s now w1 of
        (Some err, w2) \<Rightarrow> (now, Some err, w2)
      | (None, w2) \<Rightarrow> (now, scheduleDueZSetTasks s now w2))"

lemma Tick_prefix:
  "Tick s w = (case tickPrefix s w of
       (now, Some err, w3) \<Rightarrow> (Some err, w3)
     | (now, None, w3) \<Rightarrow>
         (case ssDueRetrying (scStore s) now (scBatchSize s) w3 of
            (Inl err, w4) \<Rightarrow> (Some (Wrapf ''scan due retrying tasks: '' err ''''), w4)
          | (Inr dueRetryingTasks, w4) \<Rightarrow> (None, forEachLogged (scheduleTask s) dueRetryingTasks w4)))"
  by (auto simp: Tick_def tickPrefix_def split: prod.splits option.splits)

lemma untouched_prefix:
  assumes b: "bystander i r w" and t: "tickPrefix (appScheduler p q dp iv n) w = (now, e, w3)"
  shows "untouched i r w w3"
proof -
  let ?s = "appScheduler p q dp iv n"
  obtain w1 where t1: "timeNow w = (now, w1)"
    using t by (auto simp: tickPrefix_def split: prod.splits option.splits)
  have u1: "untouched i r w w1" by (rule untouched_same [OF b]) (use t1 in \<open>auto simp: timeNow_def\<close>)
  obtain x v where e: "ExpiredRunning now n w1 = (x, v)" by fastforce
  obtain r0 p0 k0 where "pgExec (pgSelect p0 (k0 :: task_row \<Rightarrow> Time \<times> Time) n) w1 = (r0, v)"
    using e by (auto simp: ExpiredRunning_def Let_def scanRows_def split: prod.splits)
  note uv = untouched_trans [OF u1 untouched_read [OF untouched_bystander [OF u1] this pgSelect_snd]]
  have u2: "untouched i r w (snd (recoverExpiredRunning ?s now w1))"
    using e uv untouched_trans [OF uv untouched_forEach [where f = "recoverRunningTask ?s now", OF untouched_recover untouched_bystander [OF uv]]]
    by (simp add: recoverExpiredRunning_def split: sum.split)
  obtain y2 w2 where w2: "recoverExpiredRunning ?s now w1 = (y2, w2)" by fastforce
  with u2 have u2: "untouched i r w w2" by simp
  obtain y v2 where z: "sqDueTaskIDs (redisScheduledQueue q) now n w2 = (y, v2)" by fastforce
  have uz: "untouched i r w v2"
    by (rule untouched_trans [OF u2 untouched_redis [OF untouched_bystander [OF u2], where cs = "[]"]])
      (use rdq.due_ids_only [OF z] in simp_all)
  have u3: "untouched i r w (snd (scheduleDueZSetTasks ?s now w2))"
    using z uz untouched_trans [OF uz untouched_forEach [where f = "scheduleZSetTask ?s", OF untouched_zset untouched_bystander [OF uz]]]
    by (simp add: scheduleDueZSetTasks_def split: sum.split)
  show ?thesis using t t1 w2 u2 u3 by (auto simp: tickPrefix_def split: option.splits)
qed

lemma untouched_DueRetrying:
  assumes "bystander i r w" "DueRetrying now n w = (d, w')"
  shows "untouched i r w w'"
proof -
  obtain r1 p1 k1 where "pgExec (pgSelect p1 (k1 :: task_row \<Rightarrow> Time \<times> Time) n) w = (r1, w')"
    using assms(2) by (auto simp: DueRetrying_def Let_def scanRows_def split: prod.splits)
  from untouched_read [OF assms(1) this pgSelect_snd] show ?thesis .
qed

lemma DueRetrying_retrying:
  assumes "DueRetrying now n w = (Inr ts, w')" "t \<in> set ts" "sound w"
  shows "Status t = StatusRetrying"
  using scanRows_returns [OF assms(3)] assms(1,2) by (fastforce simp: DueRetrying_def Let_def)

lemma untouched_Tick:
  assumes b: "bystander i r w" and st: "c_status r \<noteq> StatusRetrying"
  shows "untouched i r w (snd (Tick (appScheduler p q dp iv n) w))"
proof -
  let ?s = "appScheduler p q dp iv n"
  obtain now e w3 where t: "tickPrefix ?s w = (now, e, w3)" by (metis prod.exhaust)
  note u3 = untouched_prefix [OF b t]
  note b3 = untouched_bystander [OF u3]
  obtain d v3 where dr: "DueRetrying now n w3 = (d, v3)" by fastforce
  note u4 = untouched_trans [OF u3 untouched_DueRetrying [OF b3 dr]]
  have "untouched i r w (forEachLogged (scheduleTask ?s) ts v3)" if "d = Inr ts" for ts
  proof -
    have "\<forall>t \<in> set ts. Status t \<noteq> c_status r"
      using DueRetrying_retrying [OF dr [unfolded that]] b3 st by (auto simp: bystander_def)
    then have "bystander i r v3 \<Longrightarrow> untouched i r v3 (forEachLogged (scheduleTask ?s) ts v3)"
      by (intro untouched_forEach untouched_scheduleTask) auto
    with untouched_trans [OF u4] untouched_bystander [OF u4] show ?thesis by blast
  qed
  then show ?thesis using t dr u3 u4 by (auto simp: Tick_prefix split: option.split sum.split)
qed

text \<open>C37. Nobody picks up a stranded task. While no other session writes, any number of ticks leave every
  row that is pending or failed (or terminal) exactly as it is and send no stream entry for its task. So
  a pending task whose message was never published, and a failed task whose outcome was never decided,
  stay where they are however long the scheduler runs.\<close>

theorem ticks_ignore_stranded_tasks:
  assumes "sound w" "alone w" "row (wTable w) i = Some r"
    and "c_status r = StatusPending \<or> c_status r = StatusFailed \<or> IsTerminal (c_status r)"
    and "w' = ((\<lambda>v. snd (Tick (appScheduler p q dp iv n) v)) ^^ k) w"
  shows "row (wTable w') i = Some r
    \<and> (\<exists>cs. wSent w' = wSent w @ cs \<and> (\<forall>s v ok. CmdXAdd s v ok \<in> set cs \<longrightarrow> v ''task_id'' \<noteq> Some (RString i)))"
proof -
  have b: "bystander i r w" using assms(1-4) by (auto simp: bystander_def)
  have "untouched i r w (((\<lambda>v. snd (Tick (appScheduler p q dp iv n) v)) ^^ k) w)"
  proof (induction k)
    case 0
    then show ?case using b by (simp add: untouched_def)
  next
    case (Suc k)
    have "c_status r \<noteq> StatusRetrying" using assms(4) by auto
    then show ?case using untouched_trans [OF Suc untouched_Tick [OF untouched_bystander [OF Suc]]] by simp
  qed
  then show ?thesis by (simp add: assms(5) untouched_def bystander_def)
qed

theorem ticks_ignore_stranded_tasks_witness:
  "row (wTable (((\<lambda>v. snd (Tick (sampleScheduler obligingRedis) v)) ^^ 5) (calmWorld [sampleRow ''a'' StatusPending] ()))) ''a''
     = Some (sampleRow ''a'' StatusPending)"
  using ticks_ignore_stranded_tasks [of "calmWorld [sampleRow ''a'' StatusPending] ()" "''a''" "sampleRow ''a'' StatusPending",
      OF _ _ _ _ refl, where k = 5]
  unfolding sampleScheduler_def by simp

end
