(* ===== verification/WorkerPool.thy ===== *)
theory WorkerPool
  imports Worker
begin

text \<open>
  The main loop of the worker, \<open>Run\<close> with \<open>acquireSlot\<close>, \<open>spawnHandle\<close>,
  \<open>recoverPending\<close> and \<open>wait\<close>, as a state machine. The state holds where the loop stands,
  the tokens in the semaphore channel, the wait-group counter and the goroutines; an event is the
  next thing that happens, with the answer of the consumer, the clock or the context it depends on.
  \<open>poolStep\<close> is \<open>None\<close> where the event cannot happen, a blocked send or receive for example.
\<close>

section \<open>The machine\<close>

text \<open>In \<open>Spawning b ms\<close> the loop is about to acquire a slot for the first of \<open>ms\<close>, in
  \<open>Acquired b m ms\<close> it holds the slot for \<open>m\<close>; \<open>b\<close> marks the loop in \<open>recoverPending\<close>.\<close>

datatype phase = AtStart | AtHead | Recovering | Reading
  | Spawning bool "StreamMessage list" | Acquired bool StreamMessage "StreamMessage list"
  | Stopping | Exited "goerror option"

datatype pool_event =
    EvEnsureGroup "goerror option"
  | EvHead Time bool
  | EvClaim "goerror + StreamMessage list"
  | EvRead "goerror + StreamMessage list"
  | EvAcquire
  | EvCtxDone goerror
  | EvSpawn
  | EvRelease nat
  | EvDone nat
  | EvWaited

record 'r pool =
  plWorker :: "'r Worker"
  plPhase :: phase
  plSem :: int
  plWg :: int
  plRunning :: "StreamMessage list"
  plReleased :: "StreamMessage list"
  plDelivered :: "StreamMessage list"
  plSpawned :: "StreamMessage list"
  plCancelled :: bool

definition poolInit :: "'r Worker \<Rightarrow> 'r pool" where
  "poolInit wk = \<lparr>plWorker = wk, plPhase = AtStart, plSem = 0, plWg = 0, plRunning = [], plReleased = [],
     plDelivered = [], plSpawned = [], plCancelled = False\<rparr>"

text \<open>Where the loop over a batch goes on; after a recovered batch the worker reads, after a read it
  starts over.\<close>

definition nextPhase :: "bool \<Rightarrow> StreamMessage list \<Rightarrow> phase" where
  "nextPhase recovering ms = (if ms = [] then (if recovering then Reading else AtHead) else Spawning recovering ms)"

definition removeNth :: "nat \<Rightarrow> 'a list \<Rightarrow> 'a list" where
  "removeNth k xs = take k xs @ drop (Suc k) xs"

definition stepHead :: "Time \<Rightarrow> bool \<Rightarrow> 'r pool \<Rightarrow> 'r pool" where
  "stepHead now done st =
     (if done then st\<lparr>plPhase := Stopping\<rparr>
      else case shouldRecoverPending now (plWorker st) of
        (due, wk) \<Rightarrow> st\<lparr>plWorker := wk, plPhase := (if due then Recovering else Reading)\<rparr>)"

definition stepClaim :: "goerror + StreamMessage list \<Rightarrow> 'r pool \<Rightarrow> 'r pool" where
  "stepClaim res st = (case res of
     Inl err \<Rightarrow> st\<lparr>plPhase := (if errorsIs err ContextCanceled then Stopping else AtHead)\<rparr>
   | Inr messages \<Rightarrow> st\<lparr>plPhase := nextPhase True messages, plDelivered := plDelivered st @ messages\<rparr>)"

definition stepRead :: "goerror + StreamMessage list \<Rightarrow> 'r pool \<Rightarrow> 'r pool" where
  "stepRead res st = (case res of
     Inl err \<Rightarrow>
       if errorsIs err ErrNoMessages then st\<lparr>plPhase := AtHead\<rparr>
       else if errorsIs err ContextCanceled then st\<lparr>plPhase := Stopping\<rparr>
       else st\<lparr>plPhase := AtHead\<rparr>
   | Inr messages \<Rightarrow> st\<lparr>plPhase := nextPhase False messages, plDelivered := plDelivered st @ messages\<rparr>)"

text \<open>\<open>acquireSlot\<close> returned false: in \<open>recoverPending\<close> the error of the context goes back to
  \<open>Run\<close>, which stops only when it is \<open>context.Canceled\<close>.\<close>

definition stepCtxDone :: "bool \<Rightarrow> goerror \<Rightarrow> 'r pool \<Rightarrow> 'r pool" where
  "stepCtxDone recovering err st =
     st\<lparr>plCancelled := True,
        plPhase := (if recovering \<and> \<not> errorsIs err ContextCanceled then AtHead else Stopping)\<rparr>"

definition poolStep :: "pool_event \<Rightarrow> 'r pool \<Rightarrow> 'r pool option" where
  "poolStep ev st = (case ev of
     EvEnsureGroup err \<Rightarrow>
       if plPhase st = AtStart
       then Some (st\<lparr>plPhase := (case err of None \<Rightarrow> AtHead | Some e \<Rightarrow> Exited (Some e))\<rparr>) else None
   | EvHead now done \<Rightarrow> if plPhase st = AtHead then Some (stepHead now done st) else None
   | EvClaim res \<Rightarrow> if plPhase st = Recovering then Some (stepClaim res st) else None
   | EvRead res \<Rightarrow> if plPhase st = Reading then Some (stepRead res st) else None
   | EvAcquire \<Rightarrow>
       (case plPhase st of
          Spawning b (m # ms) \<Rightarrow>
            if plSem st < wkSem (plWorker st)
            then Some (st\<lparr>plSem := plSem st + 1, plPhase := Acquired b m ms\<rparr>) else None
        | _ \<Rightarrow> None)
   | EvCtxDone err \<Rightarrow>
       (case plPhase st of Spawning b (m # ms) \<Rightarrow> Some (stepCtxDone b err st) | _ \<Rightarrow> None)
   | EvSpawn \<Rightarrow>
       (case plPhase st of
          Acquired b m ms \<Rightarrow>
            Some (st\<lparr>plWg := plWg st + 1, plRunning := plRunning st @ [m], plSpawned := plSpawned st @ [m],
                     plPhase := nextPhase b ms\<rparr>)
        | _ \<Rightarrow> None)
   | EvRelease k \<Rightarrow>
       if k < length (plRunning st)
       then Some (st\<lparr>plSem := plSem st - 1, plReleased := plReleased st @ [plRunning st ! k],
                     plRunning := removeNth k (plRunning st)\<rparr>) else None
   | EvDone k \<Rightarrow>
       if k < length (plReleased st)
       then Some (st\<lparr>plWg := plWg st - 1, plReleased := removeNth k (plReleased st)\<rparr>) else None
   | EvWaited \<Rightarrow>
       if plPhase st = Stopping \<and> plWg st = 0 then Some (st\<lparr>plPhase := Exited None\<rparr>) else None)"

text \<open>A run of the machine.\<close>

fun poolRun :: "pool_event list \<Rightarrow> 'r pool \<Rightarrow> 'r pool option" where
  "poolRun [] st = Some st"
| "poolRun (ev # evs) st = (case poolStep ev st of None \<Rightarrow> None | Some st' \<Rightarrow> poolRun evs st')"

section \<open>Reachable states\<close>

inductive pool_reach :: "'r Worker \<Rightarrow> 'r pool \<Rightarrow> bool" for wk where
  init: "pool_reach wk (poolInit wk)"
| step: "pool_reach wk st \<Longrightarrow> poolStep ev st = Some st' \<Longrightarrow> pool_reach wk st'"

lemma poolRun_reach: "pool_reach wk st \<Longrightarrow> poolRun evs st = Some st' \<Longrightarrow> pool_reach wk st'"
  by (induction evs arbitrary: st) (auto split: option.splits intro: pool_reach.step)

text \<open>The slots held outside of goroutines, and the messages the loop still has in hand.\<close>

definition heldSlots :: "phase \<Rightarrow> int" where
  "heldSlots ph = (case ph of Acquired _ _ _ \<Rightarrow> 1 | _ \<Rightarrow> 0)"

definition inHand :: "phase \<Rightarrow> StreamMessage list" where
  "inHand ph = (case ph of Spawning _ ms \<Rightarrow> ms | Acquired _ m ms \<Rightarrow> m # ms | _ \<Rightarrow> [])"

definition pool_inv :: "'r Worker \<Rightarrow> 'r pool \<Rightarrow> bool" where
  "pool_inv wk st \<longleftrightarrow>
     wkSem (plWorker st) = wkSem wk
     \<and> plSem st = int (length (plRunning st)) + heldSlots (plPhase st)
     \<and> 0 \<le> plSem st \<and> plSem st \<le> wkSem wk
     \<and> plWg st = int (length (plRunning st)) + int (length (plReleased st))
     \<and> (\<forall>e. plPhase st = Exited e \<longrightarrow> plRunning st = [] \<and> plReleased st = [])
     \<and> (plPhase st = AtStart \<longrightarrow> plRunning st = [] \<and> plReleased st = [])
     \<and> (\<not> plCancelled st \<longrightarrow> plDelivered st = plSpawned st @ inHand (plPhase st))
     \<and> subseq (plSpawned st @ inHand (plPhase st)) (plDelivered st)
     \<and> (\<forall>b. plPhase st \<noteq> Spawning b [])"

lemma phase_simps [simp]:
  "heldSlots AtStart = 0" "heldSlots AtHead = 0" "heldSlots Recovering = 0" "heldSlots Reading = 0"
  "heldSlots (Spawning b ms) = 0" "heldSlots (Acquired b m ms) = 1" "heldSlots Stopping = 0" "heldSlots (Exited e) = 0"
  "inHand AtStart = []" "inHand AtHead = []" "inHand Recovering = []" "inHand Reading = []"
  "inHand (Spawning b ms) = ms" "inHand (Acquired b m ms) = m # ms" "inHand Stopping = []" "inHand (Exited e) = []"
  "heldSlots (nextPhase b ms) = 0" "inHand (nextPhase b ms) = ms"
  "nextPhase b ms \<noteq> Exited e" "nextPhase b ms \<noteq> AtStart" "nextPhase b ms \<noteq> Spawning b' []"
  by (auto simp: heldSlots_def inHand_def nextPhase_def)

lemma heldSlots_bounds: "0 \<le> heldSlots ph \<and> heldSlots ph \<le> 1"
  by (cases ph) simp_all

lemma length_removeNth [simp]: "k < length xs \<Longrightarrow> length (removeNth k xs) = length xs - 1"
  by (auto simp: removeNth_def)

lemma shouldRecoverPending_sem: "shouldRecoverPending now wk = (due, wk') \<Longrightarrow> wkSem wk' = wkSem wk"
  by (auto simp: shouldRecoverPending_def split: if_splits)

lemma pool_inv_init: "0 \<le> wkSem wk \<Longrightarrow> pool_inv wk (poolInit wk)"
  by (simp add: pool_inv_def poolInit_def)


lemma subseq_front: "subseq (xs @ ys) zs \<Longrightarrow> subseq xs zs"
  using subseq_order.trans [of xs "xs @ ys" zs] by (simp add: subseq_rev_drop_many)

text \<open>The loop moves to another phase and nothing else changes but the messages at hand.\<close>

lemma pool_inv_head:
  assumes "pool_inv wk st" "plPhase st = AtHead"
  shows "pool_inv wk (stepHead now done st)"
proof (cases "shouldRecoverPending now (plWorker st)")
  case (Pair due wk')
  with shouldRecoverPending_sem [OF Pair] assms show ?thesis by (auto simp: pool_inv_def stepHead_def)
qed

lemma pool_inv_deliver:
  assumes "pool_inv wk st" "plPhase st = Recovering \<or> plPhase st = Reading"
  shows "pool_inv wk (st\<lparr>plPhase := nextPhase b ms, plDelivered := plDelivered st @ ms\<rparr>)"
  using assms by (auto simp: pool_inv_def intro: list_emb_append_mono)

lemma pool_inv_idle:
  assumes "pool_inv wk st" "plPhase st = Recovering \<or> plPhase st = Reading" "ph = AtHead \<or> ph = Stopping"
  shows "pool_inv wk (st\<lparr>plPhase := ph\<rparr>)"
  using assms by (auto simp: pool_inv_def)

lemma pool_inv_cancel:
  assumes "pool_inv wk st" "plPhase st = Spawning b (m # ms)"
  shows "pool_inv wk (stepCtxDone b err st)"
proof -
  define ph where "ph = (if b \<and> \<not> errorsIs err ContextCanceled then AtHead else Stopping)"
  have "ph = AtHead \<or> ph = Stopping" by (simp add: ph_def)
  with assms show ?thesis
    unfolding stepCtxDone_def ph_def [symmetric] by (auto simp: pool_inv_def intro: subseq_front)
qed

lemma pool_inv_step:
  assumes inv: "pool_inv wk st" and step: "poolStep ev st = Some st'"
  shows "pool_inv wk st'"
proof (cases ev)
  case (EvEnsureGroup err)
  with assms show ?thesis by (auto simp: poolStep_def pool_inv_def split: if_splits option.splits)
next
  case (EvHead now fin)
  with assms show ?thesis by (auto simp: poolStep_def split: if_splits intro: pool_inv_head)
next
  case (EvClaim res)
  with assms show ?thesis
    by (auto simp: poolStep_def stepClaim_def split: if_splits sum.splits intro: pool_inv_deliver pool_inv_idle)
next
  case (EvRead res)
  with assms show ?thesis
    by (auto simp: poolStep_def stepRead_def split: if_splits sum.splits intro: pool_inv_deliver pool_inv_idle)
next
  case EvAcquire
  with assms show ?thesis by (auto simp: poolStep_def pool_inv_def split: phase.splits list.splits if_splits)
next
  case (EvCtxDone err)
  with assms show ?thesis
    by (auto simp: poolStep_def split: phase.splits list.splits intro: pool_inv_cancel)
next
  case EvSpawn
  with assms show ?thesis by (auto simp: poolStep_def pool_inv_def split: phase.splits)
next
  case (EvRelease k)
  with assms heldSlots_bounds [of "plPhase st"] show ?thesis by (auto simp: poolStep_def pool_inv_def split: if_splits)
next
  case (EvDone k)
  with assms show ?thesis by (auto simp: poolStep_def pool_inv_def split: if_splits)
next
  case EvWaited
  with step have "plPhase st = Stopping" "plWg st = 0" "st' = st\<lparr>plPhase := Exited None\<rparr>"
    by (auto simp: poolStep_def split: if_splits)
  moreover from this inv have "length (plRunning st) = 0 \<and> length (plReleased st) = 0"
    unfolding pool_inv_def by linarith
  ultimately show ?thesis using inv by (auto simp: pool_inv_def)
qed

lemma pool_inv_reach:
  assumes "0 \<le> wkSem wk"
  shows "pool_reach wk st \<Longrightarrow> pool_inv wk st"
  by (induction rule: pool_reach.induct) (auto intro: pool_inv_init [OF assms] pool_inv_step)


section \<open>Properties\<close>

lemma appWorker_sem:
  "wkSem (appWorker c dp n b) = (if n > 0 then n else 4) \<and> wkConcurrency (appWorker c dp n b) = wkSem (appWorker c dp n b)"
  by (simp add: appWorker_def WithDeadPublisher_def WithMetrics_def WithBatchSize_def WithConcurrency_def
      WithHandlerRegistry_def WorkerNew_def defaultWorkerConcurrency_def)

text \<open>C4. The worker never runs more tasks at once than its concurrency, counts exactly its goroutines, and
  does not return before they are done. In every reachable state of the pool at most
  \<open>concurrency\<close> messages are being handled, the semaphore holds one token per running handler (and
  the one the loop has just taken), the wait group counts the goroutines that have not finished, and once
  \<open>Run\<close> has returned there is none left.\<close>

theorem pool_concurrency_bounded:
  assumes "pool_reach (appWorker c dp n b) st"
  shows "int (length (plRunning st)) \<le> wkConcurrency (appWorker c dp n b)
    \<and> plSem st = int (length (plRunning st)) + heldSlots (plPhase st)
    \<and> plWg st = int (length (plRunning st)) + int (length (plReleased st))
    \<and> (\<forall>e. plPhase st = Exited e \<longrightarrow> plRunning st = [] \<and> plReleased st = [])"
proof -
  have "0 \<le> wkSem (appWorker c dp n b)" using appWorker_sem [of c dp n b] by simp
  from pool_inv_reach [OF this assms] heldSlots_bounds [of "plPhase st"] appWorker_sem [of c dp n b] show ?thesis
    by (auto simp: pool_inv_def)
qed

text \<open>A run that reads two messages with one slot: the second waits until the first has released its slot.\<close>

definition sampleRun :: "pool_event list" where
  "sampleRun = [EvEnsureGroup None, EvHead 0 False, EvClaim (Inr []),
     EvRead (Inr [sampleMessage ''a'' False, sampleMessage ''b'' False]), EvAcquire, EvSpawn, EvRelease 0, EvAcquire, EvSpawn,
     EvHead 1 True]"

lemma sampleRun_result:
  "\<exists>st. poolRun sampleRun (poolInit (appWorker c dp 1 10)) = Some st \<and> plPhase st = Stopping
     \<and> plRunning st = [sampleMessage ''b'' False] \<and> plSpawned st = [sampleMessage ''a'' False, sampleMessage ''b'' False]
     \<and> \<not> plCancelled st"
proof -
  have "wkPendingMinIdle (appWorker c dp 1 10) = 30 * Second" "wkPendingClaimBatch (appWorker c dp 1 10) = 10"
    "wkPendingRecoveryTick (appWorker c dp 1 10) = 5 * Second" "wkLastPendingRecovery (appWorker c dp 1 10) = 0"
    by (simp_all add: appWorker_def WithDeadPublisher_def WithMetrics_def WithBatchSize_def WithConcurrency_def
        WithHandlerRegistry_def WorkerNew_def wrap64_def Second_def)
  then show ?thesis
    using appWorker_sem [of c dp 1 10]
    by (simp add: sampleRun_def poolStep_def stepHead_def stepClaim_def stepRead_def poolInit_def nextPhase_def
        shouldRecoverPending_def timeIsZero_def removeNth_def Second_def)
qed

theorem pool_concurrency_bounded_witness:
  "\<exists>st. poolRun sampleRun (poolInit (appWorker (sampleConsumer obligingRedis)
         \<lparr>rdpClient = obligingRedis, rdpStreamName = ''tasks:dead''\<rparr> 1 10)) = Some st
     \<and> int (length (plRunning st)) \<le> 1 \<and> plWg st = 2"
proof -
  let ?wk = "appWorker (sampleConsumer obligingRedis) \<lparr>rdpClient = obligingRedis, rdpStreamName = ''tasks:dead''\<rparr> 1 10"
  obtain st where st: "poolRun sampleRun (poolInit ?wk) = Some st" "plRunning st = [sampleMessage ''b'' False]"
    using sampleRun_result by blast
  have "length (plReleased st) = 1"
    using st(1) appWorker_sem [of "sampleConsumer obligingRedis" "\<lparr>rdpClient = obligingRedis, rdpStreamName = ''tasks:dead''\<rparr>" 1 10]
    by (auto simp: sampleRun_def poolStep_def stepHead_def stepClaim_def stepRead_def poolInit_def nextPhase_def removeNth_def
        split: prod.splits if_splits)
  with pool_concurrency_bounded [OF poolRun_reach [OF pool_reach.init st(1)]] st show ?thesis
    using appWorker_sem [of "sampleConsumer obligingRedis" "\<lparr>rdpClient = obligingRedis, rdpStreamName = ''tasks:dead''\<rparr>" 1 10] by auto
qed

text \<open>C14. Every message the consumer delivered is handled exactly once and in order, as long as the
  context is not cancelled while the loop waits for a slot: the handlers started so far, followed by the
  messages the loop has in hand, are the messages delivered so far. In every case the handlers started
  are a subsequence of the messages delivered.\<close>

theorem pool_handles_every_message:
  assumes "pool_reach (appWorker c dp n b) st"
  shows "(\<not> plCancelled st \<longrightarrow> plDelivered st = plSpawned st @ inHand (plPhase st))
    \<and> subseq (plSpawned st) (plDelivered st)"
proof -
  have "0 \<le> wkSem (appWorker c dp n b)" using appWorker_sem [of c dp n b] by simp
  from pool_inv_reach [OF this assms] show ?thesis by (auto simp: pool_inv_def intro: subseq_front)
qed

theorem pool_handles_every_message_witness:
  "\<exists>st. poolRun sampleRun (poolInit (appWorker (sampleConsumer obligingRedis)
         \<lparr>rdpClient = obligingRedis, rdpStreamName = ''tasks:dead''\<rparr> 1 10)) = Some st
     \<and> plDelivered st = [sampleMessage ''a'' False, sampleMessage ''b'' False]"
proof -
  let ?wk = "appWorker (sampleConsumer obligingRedis) \<lparr>rdpClient = obligingRedis, rdpStreamName = ''tasks:dead''\<rparr> 1 10"
  obtain st where st: "poolRun sampleRun (poolInit ?wk) = Some st" "plPhase st = Stopping"
    "plSpawned st = [sampleMessage ''a'' False, sampleMessage ''b'' False]" "\<not> plCancelled st"
    using sampleRun_result by blast
  from pool_handles_every_message [OF poolRun_reach [OF pool_reach.init st(1)]] st show ?thesis by simp
qed

text \<open>A loop that waits for a slot, and one that waits for its goroutines.\<close>

lemma waiting_for_slot:
  assumes inv: "pool_inv wk st" and c: "1 \<le> wkSem wk" and ph: "plPhase st = Spawning s ms"
  shows "\<exists>ev. poolStep ev st \<noteq> None \<and> (ev = EvAcquire \<or> ev = EvRelease 0)"
proof -
  from inv ph obtain m ms' where ms: "ms = m # ms'" by (cases ms) (auto simp: pool_inv_def)
  show ?thesis
  proof (cases "plSem st < wkSem (plWorker st)")
    case True
    with ph ms have "poolStep EvAcquire st \<noteq> None" by (simp add: poolStep_def)
    then show ?thesis by blast
  next
    case False
    with inv c ph have "0 < length (plRunning st)" by (auto simp: pool_inv_def)
    then have "poolStep (EvRelease 0) st \<noteq> None" by (simp add: poolStep_def)
    then show ?thesis by blast
  qed
qed

lemma waiting_for_goroutines:
  assumes inv: "pool_inv wk st" and ph: "plPhase st = Stopping"
  shows "\<exists>ev. poolStep ev st \<noteq> None \<and> (ev = EvRelease 0 \<or> ev = EvDone 0 \<or> ev = EvWaited)"
proof -
  consider "0 < length (plRunning st)" | "0 < length (plReleased st)" | "plWg st = 0"
    using inv by (fastforce simp: pool_inv_def)
  then have "poolStep (EvRelease 0) st \<noteq> None \<or> poolStep (EvDone 0) st \<noteq> None \<or> poolStep EvWaited st \<noteq> None"
    using ph by cases (simp_all add: poolStep_def)
  then show ?thesis by blast
qed

text \<open>Everywhere else the loop itself can go on.\<close>

lemma loop_can_go_on:
  "plPhase st = AtStart \<Longrightarrow> poolStep (EvEnsureGroup None) st \<noteq> None"
  "plPhase st = AtHead \<Longrightarrow> poolStep (EvHead 0 True) st \<noteq> None"
  "plPhase st = Recovering \<Longrightarrow> poolStep (EvClaim (Inr [])) st \<noteq> None"
  "plPhase st = Reading \<Longrightarrow> poolStep (EvRead (Inl ErrNoMessages)) st \<noteq> None"
  "plPhase st = Acquired s m ms \<Longrightarrow> poolStep EvSpawn st \<noteq> None"
  by (simp_all add: poolStep_def)

text \<open>C15. The pool does not get stuck. In every reachable state in which \<open>Run\<close> has not returned some
  event can happen; in particular a loop that waits for a slot, with all of them taken, is waiting for a
  running handler.\<close>

theorem pool_never_stuck:
  assumes "pool_reach (appWorker c dp n b) st"
  shows "(\<exists>e. plPhase st = Exited e) \<or> (\<exists>ev. poolStep ev st \<noteq> None
    \<and> (\<forall>b ms. plPhase st = Spawning b ms \<longrightarrow> ev = EvAcquire \<or> (\<exists>k. ev = EvRelease k))
    \<and> (plPhase st = Stopping \<longrightarrow> ev = EvWaited \<or> (\<exists>k. ev = EvRelease k \<or> ev = EvDone k)))"
proof -
  have c: "1 \<le> wkSem (appWorker c dp n b)" using appWorker_sem [of c dp n b] by simp
  then have inv: "pool_inv (appWorker c dp n b) st" using pool_inv_reach [OF _ assms] by simp
  show ?thesis
  proof (cases "plPhase st")
    case (Spawning s ms)
    from waiting_for_slot [OF inv c this] obtain ev where "poolStep ev st \<noteq> None" "ev = EvAcquire \<or> ev = EvRelease 0" by blast
    with Spawning show ?thesis by (intro disjI2 exI [of _ ev]) auto
  next
    case Stopping
    from waiting_for_goroutines [OF inv this] obtain ev where "poolStep ev st \<noteq> None"
      "ev = EvRelease 0 \<or> ev = EvDone 0 \<or> ev = EvWaited" by blast
    with Stopping show ?thesis by (intro disjI2 exI [of _ ev]) auto
  qed (use loop_can_go_on [of st] in \<open>auto simp del: not_None_eq\<close>)
qed

theorem pool_never_stuck_witness:
  "\<exists>ev. poolStep ev (poolInit (appWorker (sampleConsumer obligingRedis)
     \<lparr>rdpClient = obligingRedis, rdpStreamName = ''tasks:dead''\<rparr> 1 10)) \<noteq> None"
  using pool_never_stuck [OF pool_reach.init, of "sampleConsumer obligingRedis"
      "\<lparr>rdpClient = obligingRedis, rdpStreamName = ''tasks:dead''\<rparr>" 1 10]
  by (auto simp: poolInit_def)

end
