(* ===== verification/Config.thy ===== *)
theory Config
  imports GoStd
begin

text \<open>
  The configuration of \<open>internal/config/config.go\<close>. \<open>getenv\<close>, the process environment, is an
  argument; \<open>os.Getenv\<close> answers the empty string for a variable that is not set.
\<close>

record HTTPConfig =
  hcAddr :: string

record RedisConfig =
  rcAddr :: string
  rcStreamName :: string
  rcScheduledSetKey :: string
  rcDeadStreamName :: string
  rcConsumerGroup :: string
  rcConsumerName :: string

record PostgresConfig =
  pcHost :: string
  pcPort :: string
  pcDatabase :: string
  pcUser :: string
  pcPassword :: string
  pcSSLMode :: string

record PrometheusConfig =
  mcURL :: string

record SchedulerConfig =
  scIntervalSeconds :: int
  scfBatchSize :: int

record WorkerConfig =
  wcConcurrency :: int
  wcBatchSize :: int

record Config =
  cfgHTTP :: HTTPConfig
  cfgRedis :: RedisConfig
  cfgPostgres :: PostgresConfig
  cfgPrometheus :: PrometheusConfig
  cfgScheduler :: SchedulerConfig
  cfgWorker :: WorkerConfig

definition envString :: "(string \<Rightarrow> string) \<Rightarrow> string \<Rightarrow> string \<Rightarrow> string" where
  "envString getenv key fallback = (let value = getenv key in if value = '''' then fallback else value)"

definition isDigit :: "char \<Rightarrow> bool" where
  "isDigit c \<longleftrightarrow> 48 \<le> (of_char c :: nat) \<and> (of_char c :: nat) \<le> 57"

text \<open>The loop of \<open>envInt\<close>; \<open>None\<close> is the early return of the fallback.\<close>

fun parseLoop :: "string \<Rightarrow> int \<Rightarrow> int option" where
  "parseLoop [] parsed = Some parsed"
| "parseLoop (char # rest) parsed =
     (if \<not> isDigit char then None
      else parseLoop rest (wrap64 (wrap64 (parsed * 10) + int (of_char char - 48))))"

definition envInt :: "(string \<Rightarrow> string) \<Rightarrow> string \<Rightarrow> int \<Rightarrow> int" where
  "envInt getenv key fallback =
     (let value = getenv key
      in if value = '''' then fallback
         else case parseLoop value 0 of
           None \<Rightarrow> fallback
         | Some parsed \<Rightarrow> if parsed \<le> 0 then fallback else parsed)"

definition Load :: "(string \<Rightarrow> string) \<Rightarrow> Config" where
  "Load getenv =
     \<lparr>cfgHTTP = \<lparr>hcAddr = envString getenv ''HTTP_ADDR'' '':8080''\<rparr>,
      cfgRedis =
        \<lparr>rcAddr = envString getenv ''REDIS_ADDR'' ''localhost:6380'',
         rcStreamName = envString getenv ''REDIS_STREAM_NAME'' ''tasks:stream'',
         rcScheduledSetKey = envString getenv ''REDIS_SCHEDULED_SET_KEY'' ''tasks:scheduled'',
         rcDeadStreamName = envString getenv ''REDIS_DEAD_STREAM_NAME'' ''tasks:dead'',
         rcConsumerGroup = envString getenv ''REDIS_CONSUMER_GROUP'' ''gotaskqueue-workers'',
         rcConsumerName = envString getenv ''REDIS_CONSUMER_NAME'' ''gotaskqueue-worker-1''\<rparr>,
      cfgPostgres =
        \<lparr>pcHost = envString getenv ''POSTGRES_HOST'' ''localhost'',
         pcPort = envString getenv ''POSTGRES_PORT'' ''5432'',
         pcDatabase = envString getenv ''POSTGRES_DB'' ''gotaskqueue'',
         pcUser = envString getenv ''POSTGRES_USER'' ''gotaskqueue'',
         pcPassword = envString getenv ''POSTGRES_PASSWORD'' ''gotaskqueue'',
         pcSSLMode = envString getenv ''POSTGRES_SSLMODE'' ''disable''\<rparr>,
      cfgPrometheus = \<lparr>mcURL = envString getenv ''PROMETHEUS_URL'' ''http://localhost:9090''\<rparr>,
      cfgScheduler =
        \<lparr>scIntervalSeconds = envInt getenv ''SCHEDULER_INTERVAL_SECONDS'' 2,
         scfBatchSize = envInt getenv ''SCHEDULER_BATCH_SIZE'' 100\<rparr>,
      cfgWorker =
        \<lparr>wcConcurrency = envInt getenv ''WORKER_CONCURRENCY'' 4,
         wcBatchSize = envInt getenv ''WORKER_BATCH_SIZE'' 10\<rparr>\<rparr>"

section \<open>Decimal text\<close>

text \<open>The number a string of digits denotes, without bound.\<close>

fun decimalFrom :: "int \<Rightarrow> string \<Rightarrow> int" where
  "decimalFrom acc [] = acc"
| "decimalFrom acc (c # cs) = decimalFrom (acc * 10 + int (of_char c - 48)) cs"

definition decimalValue :: "string \<Rightarrow> int" where
  "decimalValue s = decimalFrom 0 s"

lemma decimalFrom_append: "decimalFrom acc (xs @ ys) = decimalFrom (decimalFrom acc xs) ys"
  by (induction xs arbitrary: acc) auto

lemma digitChar_value: "d < 10 \<Longrightarrow> of_char (digitChar d) = 48 + d" "d < 10 \<Longrightarrow> isDigit (digitChar d)"
  by (auto simp: digitChar_def isDigit_def of_char_mod_256)

lemma natDigits_value: "decimalValue (natDigits n) = int n \<and> list_all isDigit (natDigits n) \<and> natDigits n \<noteq> []"
proof (induction n rule: natDigits.induct)
  case (1 n)
  show ?case
  proof (cases "n < 10")
    case True
    then show ?thesis by (subst (1 2 3) natDigits.simps) (simp add: decimalValue_def digitChar_value)
  next
    case False
    have "int (n div 10) * 10 + int (n mod 10) = int n" by presburger
    with False 1 show ?thesis
      by (subst (1 2 3) natDigits.simps) (simp add: decimalValue_def decimalFrom_append digitChar_value)
  qed
qed

lemma wrap64_mult_add: "wrap64 (wrap64 (wrap64 a * 10) + d) = wrap64 (a * 10 + d)"
proof -
  have cong: "wrap64 x mod 2 ^ 64 = x mod 2 ^ 64" for x by (simp add: wrap64_def mod_simps)
  have eq: "wrap64 x = wrap64 y" if "x mod 2 ^ 64 = y mod 2 ^ 64" for x y :: int
    using that unfolding wrap64_def by (metis mod_add_left_eq)
  show ?thesis
    by (rule eq) (metis cong mod_add_left_eq mod_mult_left_eq)
qed

lemma parseLoop_value:
  "parseLoop s (wrap64 acc) = (if list_all isDigit s then Some (wrap64 (decimalFrom acc s)) else None)"
  by (induction s arbitrary: acc) (auto simp: wrap64_mult_add)

lemma envInt_eq:
  "envInt getenv key fallback =
     (let v = getenv key; p = wrap64 (decimalValue v)
      in if v = '''' \<or> \<not> list_all isDigit v \<or> p \<le> 0 then fallback else p)"
proof -
  have "wrap64 0 = 0" by (simp add: wrap64_def)
  with parseLoop_value [of "getenv key" 0] show ?thesis by (auto simp: envInt_def decimalValue_def Let_def)
qed

text \<open>C34. A numeric setting is read exactly or falls back. The result is always positive; text that is not
  a plain decimal number, or denotes zero, gives the fallback; a decimal number that fits into 64 bits
  gives that number, whatever its length in digits; a larger one gives its residue modulo 2 ^ 64 when
  that is positive, and the fallback otherwise.\<close>

theorem envInt_exact_or_fallback:
  assumes "0 < fallback"
  shows "0 < envInt getenv key fallback
    \<and> (\<not> list_all isDigit (getenv key) \<or> getenv key = '''' \<longrightarrow> envInt getenv key fallback = fallback)
    \<and> (\<forall>n. 0 < n \<and> n \<le> maxInt \<and> getenv key = FormatInt n \<longrightarrow> envInt getenv key fallback = n)
    \<and> (\<forall>n. maxInt < n \<and> getenv key = FormatInt n \<longrightarrow>
         envInt getenv key fallback = (if wrap64 n \<le> 0 then fallback else wrap64 n))"
proof -
  have n: "FormatInt n \<noteq> '''' \<and> list_all isDigit (FormatInt n) \<and> decimalValue (FormatInt n) = n" if "0 < n" for n
    using natDigits_value [of "nat n"] that by (simp add: FormatInt_def)
  have m: "0 < maxInt" by (simp add: maxInt_def)
  show ?thesis
    using assms n m by (auto simp: envInt_eq Let_def wrap64_id minInt_def)
qed

theorem envInt_exact_or_fallback_witness:
  "envInt (\<lambda>_. FormatInt 250) ''SCHEDULER_BATCH_SIZE'' 100 = 250
   \<and> envInt (\<lambda>_. FormatInt 18446744073709551617) ''WORKER_CONCURRENCY'' 4 = 1"
  using envInt_exact_or_fallback [of 100 "\<lambda>_. FormatInt 250" "''SCHEDULER_BATCH_SIZE''"]
    envInt_exact_or_fallback [of 4 "\<lambda>_. FormatInt 18446744073709551617" "''WORKER_CONCURRENCY''"]
  by (simp add: maxInt_def wrap64_def)

lemma Load_positive:
  "0 < scIntervalSeconds (cfgScheduler (Load g))" "0 < scfBatchSize (cfgScheduler (Load g))"
  "0 < wcConcurrency (cfgWorker (Load g))" "0 < wcBatchSize (cfgWorker (Load g))"
  by (auto simp: Load_def envInt_eq Let_def)

end
