(* ===== verification/Dependencies.thy ===== *)
theory Dependencies
  imports Config
begin

text \<open>
  \<open>internal/dependencies/dependencies.go\<close>: the connection string of Postgres, with what it uses of
  \<open>net/url\<close>, and the opening and closing of the two clients.
\<close>

section \<open>Percent-encoding\<close>

datatype encoding = EncodeHost | EncodePath | EncodeUserPassword | EncodeQueryComponent

definition isAlnum :: "char \<Rightarrow> bool" where
  "isAlnum c \<longleftrightarrow> (let n = of_char c :: nat in 97 \<le> n \<and> n \<le> 122 \<or> 65 \<le> n \<and> n \<le> 90 \<or> 48 \<le> n \<and> n \<le> 57)"

definition shouldEscape :: "encoding \<Rightarrow> char \<Rightarrow> bool" where
  "shouldEscape mode c \<longleftrightarrow>
     (if isAlnum c then False
      else if mode = EncodeHost \<and> (c \<in> set ''!$&()*+,;=:[]<>'' \<or> c = CHR 0x27 \<or> c = CHR 0x22) then False
      else if c \<in> set ''-_.~'' then False
      else if c \<in> set ''$&+,/:;=?@''
      then (case mode of
              EncodePath \<Rightarrow> c = CHR ''?''
            | EncodeUserPassword \<Rightarrow> c \<in> set ''@/?:''
            | _ \<Rightarrow> True)
      else True)"

definition upperHex :: "nat \<Rightarrow> char" where
  "upperHex d = (if d < 10 then char_of (48 + d) else char_of (55 + d))"

definition escapeChar :: "encoding \<Rightarrow> char \<Rightarrow> string" where
  "escapeChar mode c =
     (if \<not> shouldEscape mode c then [c]
      else if c = CHR '' '' \<and> mode = EncodeQueryComponent then ''+''
      else let n = of_char c :: nat in [CHR ''%'', upperHex (n div 16), upperHex (n mod 16)])"

definition urlEscape :: "encoding \<Rightarrow> string \<Rightarrow> string" where
  "urlEscape mode s = concat (map (escapeChar mode) s)"

text \<open>\<open>url.UserPassword(user, password).String()\<close>; the password is always set.\<close>

definition userinfoString :: "string \<Rightarrow> string \<Rightarrow> string" where
  "userinfoString user password = urlEscape EncodeUserPassword user @ '':'' @ urlEscape EncodeUserPassword password"

text \<open>\<open>URL.EscapedPath\<close> for a URL without a raw path.\<close>

definition escapedPath :: "string \<Rightarrow> string" where
  "escapedPath path = (if path = ''*'' then ''*'' else urlEscape EncodePath path)"

text \<open>\<open>URL.String\<close> of the URL built in \<open>postgresDSN\<close>, whose host is never empty.\<close>

definition postgresDSN :: "PostgresConfig \<Rightarrow> string" where
  "postgresDSN cfg =
     (let host = pcHost cfg @ '':'' @ pcPort cfg;
          path = escapedPath (pcDatabase cfg);
          rawQuery = urlEscape EncodeQueryComponent ''sslmode'' @ ''='' @ urlEscape EncodeQueryComponent (pcSSLMode cfg)
      in ''postgres:'' @ ''//'' @ userinfoString (pcUser cfg) (pcPassword cfg) @ ''@'' @ urlEscape EncodeHost host
         @ (if path \<noteq> '''' \<and> hd path \<noteq> CHR ''/'' then ''/'' else '''') @ path
         @ ''?'' @ rawQuery)"

section \<open>Connecting and closing\<close>

text \<open>What is done to the two clients; the answers of the servers are the argument \<open>conn\<close>.\<close>

datatype conn_action = OpenRedis | CloseRedis | OpenPool | ClosePool

record conn =
  cnRedisPing :: "goerror option"
  cnPoolNew :: "goerror option"
  cnPoolPing :: "goerror option"
  cnRedisClose :: "goerror option"

definition Connect :: "Config \<Rightarrow> conn \<Rightarrow> goerror option \<times> conn_action list" where
  "Connect cfg cn =
     (case cnRedisPing cn of
        Some err \<Rightarrow> (Some (Wrapf (''connect redis at '' @ rcAddr (cfgRedis cfg) @ '': '') err ''''), [OpenRedis, CloseRedis])
      | None \<Rightarrow>
          (case cnPoolNew cn of
             Some err \<Rightarrow> (Some (Wrapf ''create postgres pool: '' err ''''), [OpenRedis, CloseRedis])
           | None \<Rightarrow>
               (case cnPoolPing cn of
                  Some err \<Rightarrow>
                    (Some (Wrapf (''connect postgres at '' @ pcHost (cfgPostgres cfg) @ '':'' @ pcPort (cfgPostgres cfg) @ ''/''
                              @ pcDatabase (cfgPostgres cfg) @ '': '') err ''''),
                     [OpenRedis, OpenPool, ClosePool, CloseRedis])
                | None \<Rightarrow> (None, [OpenRedis, OpenPool]))))"

text \<open>\<open>Close\<close> goes on to the pool whether or not closing Redis failed.\<close>

definition depsClose :: "conn \<Rightarrow> conn_action list" where
  "depsClose cn = [CloseRedis, ClosePool]"

section \<open>The connection string\<close>

text \<open>Decoding of a percent-encoded text.\<close>

definition hexDigitValue :: "char \<Rightarrow> nat" where
  "hexDigitValue c = (let n = of_char c in if n \<le> 57 then n - 48 else n - 55)"

fun urlUnescape :: "string \<Rightarrow> string" where
  "urlUnescape [] = []"
| "urlUnescape (c # cs) =
     (if c = CHR ''%'' then
        (case cs of a # b # rest \<Rightarrow> char_of (hexDigitValue a * 16 + hexDigitValue b) # urlUnescape rest | _ \<Rightarrow> [])
      else c # urlUnescape cs)"

lemma upperHex_value: "d < 16 \<Longrightarrow> hexDigitValue (upperHex d) = d"
  by (auto simp: hexDigitValue_def upperHex_def Let_def of_char_mod_256)

lemma of_char_less: "(of_char c :: nat) < 256"
  by simp

lemma unescape_escapeChar:
  assumes "mode \<noteq> EncodeQueryComponent"
  shows "urlUnescape (escapeChar mode c @ s) = c # urlUnescape s"
proof (cases "shouldEscape mode c")
  case True
  have "(of_char c :: nat) div 16 < 16" using of_char_less [of c] by linarith
  with True assms show ?thesis by (simp add: escapeChar_def Let_def upperHex_value)
next
  case False
  then have "c \<noteq> CHR ''%''" by (auto simp: shouldEscape_def isAlnum_def)
  with False show ?thesis by (simp add: escapeChar_def)
qed

lemma unescape_escape: "mode \<noteq> EncodeQueryComponent \<Longrightarrow> urlUnescape (urlEscape mode s) = s"
  by (induction s) (simp_all add: urlEscape_def unescape_escapeChar)

lemma upperHex_alnum: "d < 16 \<Longrightarrow> isAlnum (upperHex d)"
  by (auto simp: isAlnum_def upperHex_def Let_def of_char_mod_256)

lemma urlEscape_user_chars: "c \<in> set (urlEscape EncodeUserPassword s) \<Longrightarrow> c \<notin> set ''@/?:''"
proof (induction s)
  case (Cons x s)
  have n: "(of_char x :: nat) div 16 < 16" "(of_char x :: nat) mod 16 < 16" using of_char_less [of x] by linarith+
  have al: "isAlnum c \<Longrightarrow> c \<notin> set ''@/?:''" for c by (auto simp: isAlnum_def)
  have "c \<notin> set ''@/?:''" if "c \<in> set (escapeChar EncodeUserPassword x)"
    using that upperHex_alnum [OF n(1), THEN al] upperHex_alnum [OF n(2), THEN al]
    by (auto simp: escapeChar_def Let_def shouldEscape_def isAlnum_def split: if_splits)
  with Cons show ?case by (auto simp: urlEscape_def)
qed (simp add: urlEscape_def)

text \<open>Whatever characters the user name and the password contain, they are read back from the connection string,
  and they cannot reach into the host: the text up to the first at sign is theirs, and its first colon separates them.\<close>

theorem dsn_credentials_recovered:
  "\<exists>info rest. postgresDSN cfg = ''postgres://'' @ info @ ''@'' @ rest \<and> CHR ''@'' \<notin> set info
     \<and> urlUnescape (takeWhile (\<lambda>c. c \<noteq> CHR '':'') info) = pcUser cfg
     \<and> urlUnescape (tl (dropWhile (\<lambda>c. c \<noteq> CHR '':'') info)) = pcPassword cfg"
proof -
  let ?u = "urlEscape EncodeUserPassword (pcUser cfg)" and ?p = "urlEscape EncodeUserPassword (pcPassword cfg)"
  have u: "\<forall>c \<in> set ?u. c \<noteq> CHR '':''" "CHR ''@'' \<notin> set ?u" "CHR ''@'' \<notin> set ?p"
    using urlEscape_user_chars by fastforce+
  have "takeWhile (\<lambda>c. c \<noteq> CHR '':'') (?u @ '':'' @ ?p) = ?u" "tl (dropWhile (\<lambda>c. c \<noteq> CHR '':'') (?u @ '':'' @ ?p)) = ?p"
    using u(1) by (simp_all add: takeWhile_append2 dropWhile_append2)
  then show ?thesis
    unfolding postgresDSN_def userinfoString_def Let_def using u(2,3)
    by (intro exI [of _ "?u @ '':'' @ ?p"] exI conjI) (simp_all add: unescape_escape)
qed

end
