(* ===== verification/HttpTasks.thy ===== *)
theory HttpTasks
  imports Service
begin

text \<open>
  The task endpoints of \<open>internal/httpserver/tasks.go\<close>. A handler takes the body or the path value
  of the request and the world and returns the response; a JSON response is
  the value that is encoded (its bytes are in theory \<open>Responses\<close>).
  The interface \<open>httpserver.TaskStore\<close> has the methods of \<open>task.CreatorGetter\<close>, and the
  application passes the task service for it.
\<close>

section \<open>Requests and responses\<close>

record taskResponse =
  trID :: string
  trTaskType :: string
  trPayload :: string
  trStatus :: Status
  trIdempotencyKey :: "string option"
  trTraceID :: "string option"
  trRunAt :: Time
  trTimeoutSeconds :: int
  trMaxRetries :: int
  trRetryCount :: int
  trNextRetryAt :: "Time option"
  trLastError :: "string option"
  trWorkerID :: "string option"
  trStartedAt :: "Time option"
  trFinishedAt :: "Time option"
  trCreatedAt :: Time
  trUpdatedAt :: Time

datatype json_body = TaskBody taskResponse | ErrorBody string

record json_response =
  jrStatus :: int
  jrContentType :: string
  jrBody :: json_body

definition writeJSON :: "int \<Rightarrow> json_body \<Rightarrow> json_response" where
  "writeJSON status value = \<lparr>jrStatus = status, jrContentType = ''application/json'', jrBody = value\<rparr>"

definition writeError :: "int \<Rightarrow> string \<Rightarrow> json_response" where
  "writeError status message = writeJSON status (ErrorBody message)"

definition toTaskResponse :: "Task \<Rightarrow> taskResponse" where
  "toTaskResponse t =
     \<lparr>trID = ID t, trTaskType = Type t, trPayload = Payload t, trStatus = Status t,
      trIdempotencyKey = IdempotencyKey t, trTraceID = TraceID t, trRunAt = RunAt t,
      trTimeoutSeconds = TimeoutSeconds t, trMaxRetries = MaxRetries t, trRetryCount = RetryCount t,
      trNextRetryAt = NextRetryAt t, trLastError = LastError t, trWorkerID = WorkerID t,
      trStartedAt = StartedAt t, trFinishedAt = FinishedAt t, trCreatedAt = CreatedAt t,
      trUpdatedAt = UpdatedAt t\<rparr>"

text \<open>
  The decoder of the request body: it reads the first value of the body and nothing after it, refuses unknown fields,
  and stores the text of the payload. A run time is parsed from the text between its quotes.
\<close>

definition createFields :: "string list" where
  "createFields = [''task_type'', ''payload'', ''idempotency_key'', ''trace_id'', ''run_at'', ''timeout_seconds'', ''max_retries'']"

definition storeRunAt :: "env \<Rightarrow> string \<Rightarrow> json \<Rightarrow> Time option option" where
  "storeRunAt e raw v = (case v of
     JString _ \<Rightarrow> map_option Some (envParseTime e (butlast (tl raw)))
   | JNull \<Rightarrow> Some None
   | _ \<Rightarrow> None)"

definition storeCreate :: "env \<Rightarrow> string \<Rightarrow> string \<times> string \<times> json \<Rightarrow> createTaskRequest \<Rightarrow> createTaskRequest option" where
  "storeCreate e field = (\<lambda>(_, raw, v) req.
     if field = ''task_type'' then map_option (\<lambda>x. req\<lparr>crTaskType := x\<rparr>) (storeString v (crTaskType req))
     else if field = ''payload'' then Some (req\<lparr>crPayload := raw\<rparr>)
     else if field = ''idempotency_key'' then map_option (\<lambda>x. req\<lparr>crIdempotencyKey := x\<rparr>) (storeStringPtr v)
     else if field = ''trace_id'' then map_option (\<lambda>x. req\<lparr>crTraceID := x\<rparr>) (storeStringPtr v)
     else if field = ''run_at'' then map_option (\<lambda>x. req\<lparr>crRunAt := x\<rparr>) (storeRunAt e raw v)
     else if field = ''timeout_seconds'' then map_option (\<lambda>x. req\<lparr>crTimeoutSeconds := x\<rparr>) (storeInt v (crTimeoutSeconds req))
     else map_option (\<lambda>x. req\<lparr>crMaxRetries := x\<rparr>) (storeInt v (crMaxRetries req)))"

definition decodeCreateTaskRequest :: "env \<Rightarrow> string \<Rightarrow> goerror + createTaskRequest" where
  "decodeCreateTaskRequest e body =
     (case decodeFirst body of
        None \<Rightarrow> Inl (envJsonError e body)
      | Some v \<Rightarrow>
          (case decodeStruct (storeCreate e) createFields True
                  \<lparr>crTaskType = '''', crPayload = '''', crIdempotencyKey = None, crTraceID = None, crRunAt = None,
                   crTimeoutSeconds = 0, crMaxRetries = 0\<rparr> v of
             None \<Rightarrow> Inl (envJsonError e body)
           | Some req \<Rightarrow> Inr req))"

text \<open>The checks in the order of the source; the clock is read after the checks of the texts.\<close>

definition validateCreateTaskRequest :: "createTaskRequest \<Rightarrow> 'r world \<Rightarrow> (goerror + CreateTaskParams) \<times> 'r world" where
  "validateCreateTaskRequest req w =
     (let taskType = TrimSpace (crTaskType req);
          payload = (if crPayload req = '''' then ''{}'' else crPayload req)
      in if taskType = '''' then (Inl (NewError ''task_type is required''), w)
         else if \<not> jsonValid payload then (Inl (NewError ''payload must be valid json''), w)
         else if map_option TrimSpace (crIdempotencyKey req) = Some ''''
         then (Inl (NewError ''idempotency_key cannot be blank''), w)
         else if map_option TrimSpace (crTraceID req) = Some ''''
         then (Inl (NewError ''trace_id cannot be blank''), w)
         else case timeNow w of (now, w1) \<Rightarrow>
           let runAt = (case crRunAt req of None \<Rightarrow> now | Some t \<Rightarrow> t);
               timeoutSeconds = (if crTimeoutSeconds req = 0 then 300 else crTimeoutSeconds req);
               maxRetries = (if crMaxRetries req = 0 then 3 else crMaxRetries req)
           in if timeoutSeconds < 0 then (Inl (NewError ''timeout_seconds must be positive''), w1)
              else if maxRetries < 0 then (Inl (NewError ''max_retries cannot be negative''), w1)
              else (Inr \<lparr>pType = taskType, pPayload = payload,
                         pIdempotencyKey = map_option TrimSpace (crIdempotencyKey req),
                         pTraceID = map_option TrimSpace (crTraceID req), pRunAt = runAt,
                         pTimeoutSeconds = timeoutSeconds, pMaxRetries = maxRetries\<rparr>, w1))"

definition handleCreateTask :: "'r CreatorGetter \<Rightarrow> string \<Rightarrow> 'r world \<Rightarrow> json_response \<times> 'r world" where
  "handleCreateTask tasks body w =
     (case decodeCreateTaskRequest (wEnv w) body of
        Inl err \<Rightarrow> (writeError 400 ''invalid json body'', w)
      | Inr req \<Rightarrow>
          (case validateCreateTaskRequest req w of
             (Inl err, w1) \<Rightarrow> (writeError 400 (errorText (envQuote (wEnv w)) err), w1)
           | (Inr params, w1) \<Rightarrow>
               (case cgCreate tasks params w1 of
                  (Inl err, w2) \<Rightarrow> (writeError 500 ''database write failed'', w2)
                | (Inr created, w2) \<Rightarrow> (writeJSON 201 (TaskBody (toTaskResponse created)), w2))))"

definition handleGetTask :: "'r CreatorGetter \<Rightarrow> string \<Rightarrow> 'r world \<Rightarrow> json_response \<times> 'r world" where
  "handleGetTask tasks pathID w =
     (let i = TrimSpace pathID
      in if i = '''' then (writeError 400 ''task id is required'', w)
         else case cgGet tasks i w of
           (Inl err, w1) \<Rightarrow>
             if errorsIs err ErrNotFound then (writeError 404 ''task not found'', w1)
             else (writeError 500 ''database read failed'', w1)
         | (Inr found, w1) \<Rightarrow> (writeJSON 200 (TaskBody (toTaskResponse found)), w1))"

text \<open>The service behind the interface.\<close>

definition serviceStore :: "'r Service \<Rightarrow> 'r CreatorGetter" where
  "serviceStore s = \<lparr>cgCreate = ServiceCreate s, cgGet = ServiceGet s, cgMetricsSnapshot = ServiceMetricsSnapshot s,
     cgCountByStatus = ServiceCountByStatus s, cgRecentByStatus = ServiceRecentByStatus s, cgRecent = ServiceRecent s\<rparr>"

section \<open>Properties\<close>

text \<open>What a request that passes validation asks for. Its type is not blank and trimmed, its keys are
  absent or trimmed and not blank, its payload is valid JSON, its timeout and its number of retries are
  positive: a request for zero retries is not possible, it gets the default of three. A request without
  a run time runs now.\<close>

theorem validated_request_params:
  assumes "validateCreateTaskRequest req w = (Inr p, w')"
  shows "pType p = TrimSpace (crTaskType req) \<and> pType p \<noteq> ''''
    \<and> jsonValid (pPayload p)
    \<and> (\<forall>k. pIdempotencyKey p = Some k \<longrightarrow> k \<noteq> '''' \<and> TrimSpace k = k)
    \<and> (\<forall>k. pTraceID p = Some k \<longrightarrow> k \<noteq> '''' \<and> TrimSpace k = k)
    \<and> 0 < pTimeoutSeconds p \<and> 0 < pMaxRetries p
    \<and> pMaxRetries p = (if crMaxRetries req = 0 then 3 else crMaxRetries req)
    \<and> pRunAt p = (case crRunAt req of None \<Rightarrow> envClock (wEnv w) (wClockReads w) | Some t \<Rightarrow> t)"
  using assms
  by (auto simp: validateCreateTaskRequest_def Let_def timeNow_def split: if_splits)

theorem validated_request_params_witness:
  "\<exists>p w'. validateCreateTaskRequest \<lparr>crTaskType = '' demo.echo '', crPayload = '''', crIdempotencyKey = Some '' k'',
        crTraceID = None, crRunAt = None, crTimeoutSeconds = 0, crMaxRetries = 0\<rparr> (calmWorld [] ()) = (Inr p, w')
     \<and> pMaxRetries p = 3"
proof -
  let ?req = "\<lparr>crTaskType = '' demo.echo '', crPayload = '''', crIdempotencyKey = Some '' k'',
        crTraceID = None, crRunAt = None, crTimeoutSeconds = 0, crMaxRetries = 0\<rparr>"
  have "TrimSpace '' demo.echo '' = ''demo.echo''" "TrimSpace '' k'' = ''k''" "jsonValid ''{}''" by code_simp+
  then obtain p w' where v: "validateCreateTaskRequest ?req (calmWorld [] ()) = (Inr p, w')"
    by (simp add: validateCreateTaskRequest_def timeNow_def)
  from validated_request_params [OF v] v show ?thesis by auto
qed


lemma validate_frame:
  assumes "validateCreateTaskRequest req w = (res, w')"
  shows "wTable w' = wTable w" "wSent w' = wSent w" "wMetrics w' = wMetrics w" "wEnv w' = wEnv w" "wPgCalls w' = wPgCalls w"
    "sound w' = sound w" "pgNext w' = pgNext w" "pgTable w' = pgTable w"
  using assms
  by (auto simp: validateCreateTaskRequest_def Let_def timeNow_def sound_def pgNext_def pgTable_def split: if_splits)

text \<open>What a request answered with 201 went through.\<close>

lemma created_response:
  assumes "sound w" "handleCreateTask (serviceStore (appService p q)) body w = (resp, w')" "jrStatus resp = 201"
  shows "\<exists>req params v t. decodeCreateTaskRequest (wEnv w) body = Inr req \<and> validateCreateTaskRequest req w = (Inr params, v)
    \<and> ServiceCreate (appService p q) params v = (Inr t, w') \<and> jrBody resp = TaskBody (toTaskResponse t)
    \<and> pIdempotencyKey params = map_option TrimSpace (crIdempotencyKey req) \<and> pType params = TrimSpace (crTaskType req)
    \<and> sound v \<and> wSent v = wSent w \<and> pgNext v = pgNext w \<and> pgTable v = pgTable w"
proof -
  obtain req where d: "decodeCreateTaskRequest (wEnv w) body = Inr req"
    using assms(2,3) by (cases "decodeCreateTaskRequest (wEnv w) body") (auto simp: handleCreateTask_def writeError_def writeJSON_def)
  obtain r1 v where v: "validateCreateTaskRequest req w = (r1, v)" by fastforce
  with assms(2,3) d obtain params where r1: "r1 = Inr params"
    by (cases r1) (auto simp: handleCreateTask_def writeError_def writeJSON_def)
  have "pIdempotencyKey params = map_option TrimSpace (crIdempotencyKey req)" "pType params = TrimSpace (crTaskType req)"
    using v r1 by (auto simp: validateCreateTaskRequest_def Let_def timeNow_def split: if_splits)
  moreover obtain t where "ServiceCreate (appService p q) params v = (Inr t, w')" "jrBody resp = TaskBody (toTaskResponse t)"
    using assms(2,3) d v r1
    by (auto simp: handleCreateTask_def serviceStore_def writeError_def writeJSON_def split: prod.splits sum.splits)
  ultimately show ?thesis using d v r1 validate_frame [OF v] assms(1) by auto
qed

lemma toTaskResponse_flag [simp]: "toTaskResponse (t\<lparr>NewlyCreated := b\<rparr>) = toTaskResponse t"
  by (simp add: toTaskResponse_def)

text \<open>The command that hands the task of a row over.\<close>

definition handover :: "'r RedisStreamPublisher \<Rightarrow> 'r RedisScheduledQueue \<Rightarrow> task_row \<Rightarrow> redis_cmd" where
  "handover p q r = (if c_status r = StatusScheduled then CmdZAdd (rsqKey q) (timeUnix (c_run_at r)) (c_id r) True
     else CmdXAdd (rspStreamName p) (taskValues \<lparr>mID = c_id r, mType = c_task_type r, mTraceID = derefString (c_trace_id r)\<rparr>) True)"

text \<open>C17. The create endpoint. It answers 400, 500 or 201, and the table takes specified steps only. With 400 it did
  nothing: the table, Redis and the metrics are as before. With 201 the body is the task of a row, and there are two cases.
  Either the row is new: it is appended to the table (after what other sessions wrote), has the type and key of the
  request and never ran, and exactly one command was sent, the one that hands this row over. Or the request has a key: then the
  row is one that was in the table under this key, nothing is appended and nothing is sent.\<close>

theorem create_endpoint_outcome:
  assumes "sound w" "handleCreateTask (serviceStore (appService p q)) body w = (resp, w')"
  shows "jrStatus resp \<in> {201, 400, 500} \<and> db_steps (wTable w) (wTable w')
    \<and> (jrStatus resp = 400 \<longrightarrow> wTable w' = wTable w \<and> wSent w' = wSent w \<and> wMetrics w' = wMetrics w)
    \<and> (jrStatus resp = 201 \<longrightarrow> (\<exists>req r. decodeCreateTaskRequest (wEnv w) body = Inr req
        \<and> jrBody resp = TaskBody (toTaskResponse (scanTask r))
        \<and> c_idempotency_key r = map_option TrimSpace (crIdempotencyKey req)
        \<and> (new_row r \<and> c_task_type r = TrimSpace (crTaskType req)
             \<and> wTable w' = pgLate (pgNext w) (pgTable w) @ [r] \<and> wSent w' = wSent w @ [handover p q r]
           \<or> crIdempotencyKey req \<noteq> None \<and> r \<in> set (pgTable w)
             \<and> wTable w' = pgLate (pgNext w) (pgTable w) \<and> wSent w' = wSent w)))"
proof -
  have "jrStatus resp \<in> {201, 400, 500} \<and> db_steps (wTable w) (wTable w')
    \<and> (jrStatus resp = 400 \<longrightarrow> wTable w' = wTable w \<and> wSent w' = wSent w \<and> wMetrics w' = wMetrics w)"
  proof (cases "decodeCreateTaskRequest (wEnv w) body")
    case (Inl e)
    with assms(2) show ?thesis by (auto simp: handleCreateTask_def writeError_def writeJSON_def)
  next
    case (Inr req)
    obtain r1 w1 where v: "validateCreateTaskRequest req w = (r1, w1)" by fastforce
    note f = validate_frame [OF v]
    have "db_steps (wTable w) (wTable w2)" if "ServiceCreate (appService p q) params w1 = (r2, w2)" for params r2 w2
      using svd.create_steps [OF appService_def _ that] f assms(1) by simp
    with assms(2) Inr v f show ?thesis
      by (auto simp: handleCreateTask_def serviceStore_def writeError_def writeJSON_def split: sum.splits prod.splits)
  qed
  moreover have "\<exists>req r. decodeCreateTaskRequest (wEnv w) body = Inr req
        \<and> jrBody resp = TaskBody (toTaskResponse (scanTask r))
        \<and> c_idempotency_key r = map_option TrimSpace (crIdempotencyKey req)
        \<and> (new_row r \<and> c_task_type r = TrimSpace (crTaskType req)
             \<and> wTable w' = pgLate (pgNext w) (pgTable w) @ [r] \<and> wSent w' = wSent w @ [handover p q r]
           \<or> crIdempotencyKey req \<noteq> None \<and> r \<in> set (pgTable w)
             \<and> wTable w' = pgLate (pgNext w) (pgTable w) \<and> wSent w' = wSent w)" if "jrStatus resp = 201"
  proof -
    from created_response [OF assms that] obtain req params v t where
      d: "decodeCreateTaskRequest (wEnv w) body = Inr req" "jrBody resp = TaskBody (toTaskResponse t)"
        "pIdempotencyKey params = map_option TrimSpace (crIdempotencyKey req)" "pType params = TrimSpace (crTaskType req)"
      and c: "sound v" "ServiceCreate (appService p q) params v = (Inr t, w')"
      and v: "wSent v = wSent w" "pgNext v = pgNext w" "pgTable v = pgTable w" by blast
    from ServiceCreate_Inr [OF c] obtain r where t: "t = (scanTask r)\<lparr>NewlyCreated := NewlyCreated t\<rparr>"
      and r: "c_idempotency_key r = pIdempotencyKey params" "if NewlyCreated t
        then new_row r \<and> c_task_type r = pType params \<and> wTable w' = pgLate (pgNext v) (pgTable v) @ [r]
        else pIdempotencyKey params \<noteq> None \<and> r \<in> set (pgTable v) \<and> wTable w' = pgLate (pgNext v) (pgTable v)"
      by (auto split: if_splits)
    have id: "ID t = c_id r" "Type t = c_task_type r" "Status t = c_status r" "RunAt t = c_run_at r" "TraceID t = c_trace_id r"
      by (subst t, simp)+
    have body: "toTaskResponse t = toTaskResponse (scanTask r)" by (subst t) simp
    show ?thesis
      using svd.create_handover [OF appService_def c] d r v
      by (intro exI [of _ req] exI [of _ r]) (auto simp: handover_def id body split: if_splits)
  qed
  ultimately show ?thesis by blast
qed

lemma sample_decoded:
  "decodeCreateTaskRequest calmEnv ''{\"task_type\":\"demo.echo\"}'' = Inr \<lparr>crTaskType = ''demo.echo'', crPayload = [],
     crIdempotencyKey = None, crTraceID = None, crRunAt = None, crTimeoutSeconds = 0, crMaxRetries = 0\<rparr>"
  by code_simp

lemma sample_post:
  "\<exists>resp w1 b. handleCreateTask (serviceStore (sampleService obligingRedis)) ''{\"task_type\":\"demo.echo\"}'' (calmWorld [] ()) = (resp, w1)
     \<and> jrStatus resp = 201 \<and> jrBody resp = TaskBody b \<and> quiet 1 w1"
proof -
  have "TrimSpace ''demo.echo'' = ''demo.echo''" "jsonValid ''{}''" by code_simp+
  with sample_decoded show ?thesis
    by (simp add: handleCreateTask_def validateCreateTaskRequest_def timeNow_def serviceStore_def sampleService_def
        ServiceCreate_def appService_def pgCreatorGetter_def withTraceID_def newTraceID_def randRead_def
        Create_eq createStatus_def timeAfter_def pgExec_def sqlCreate_def newTaskRow_def tasks_check_def tasks_status_check_iff
        int4_def scanTaskWithCreationFlag_def createWorld_def createID_def PublishTask_def redisXAdd_def obligingRedis_def Let_def
        writeJSON_def withMetrics_def quiet_def)
qed

theorem create_endpoint_outcome_witness:
  "\<exists>resp w' r. handleCreateTask (serviceStore (sampleService obligingRedis)) ''{\"task_type\":\"demo.echo\"}'' (calmWorld [] ()) = (resp, w')
     \<and> jrBody resp = TaskBody (toTaskResponse (scanTask r)) \<and> wTable w' = [r] \<and> length (wSent w') = 1"
proof -
  obtain resp w1 b where h: "handleCreateTask (serviceStore (sampleService obligingRedis)) ''{\"task_type\":\"demo.echo\"}'' (calmWorld [] ()) = (resp, w1)"
    "jrStatus resp = 201" using sample_post by blast
  have s: "sound (calmWorld [] ())" by simp
  from create_endpoint_outcome [OF s h(1) [unfolded sampleService_def]] h(2) sample_decoded
  obtain r where "jrBody resp = TaskBody (toTaskResponse (scanTask r))" "wTable w1 = [r]" "length (wSent w1) = 1" by auto
  with h(1) show ?thesis by blast
qed

subsection \<open>Reading back what was created\<close>

lemma ServiceCreate_unkeyed:
  assumes w: "sound w" and c: "ServiceCreate (appService p q) params w = (Inr t, w')" and k: "pIdempotencyKey params = None"
  shows "\<exists>r. row (wTable w') (ID t) = Some r \<and> t = (scanTask r)\<lparr>NewlyCreated := True\<rparr> \<and> sound w'
    \<and> TrimSpace (ID t) = ID t \<and> ID t \<noteq> [] \<and> Type t = pType params \<and> RetryCount t = 0"
proof -
  from ServiceCreate_Inr [OF w c] k obtain r bs where s: "sound w'" and n: "NewlyCreated t" and t: "t = (scanTask r)\<lparr>NewlyCreated := True\<rparr>"
    and r: "new_row r" "c_task_type r = pType params" "bs \<noteq> []" "c_id r = ''task_'' @ hexEncode bs" "r \<in> set (wTable w')"
    by (auto split: if_splits)
  have id: "ID t = c_id r" "Type t = c_task_type r" "RetryCount t = c_retry_count r" by (simp_all add: t)
  show ?thesis
    using row_unique [OF s r(5)] s t r(1,2) TrimSpace_hexID [OF r(3)]
    by (intro exI [of _ r]) (simp add: id r(4) new_row_def)
qed

text \<open>C16. What was created can be read back. After a request was answered with 201, a request for the returned
  identifier that runs in a quiet session (no fault, no other session writing since the answer) is answered with
  200 and the very same task. A request with an idempotency key may have been answered with a task that was in the table
  before; this is covered when no other session writes during the insertion and the stored identifiers are of the form that
  the program generates.\<close>

theorem post_then_get:
  assumes "sound w" "handleCreateTask (serviceStore (appService p q)) body w = (resp, w1)"
    and "jrStatus resp = 201" "jrBody resp = TaskBody b"
    and "decodeCreateTaskRequest (wEnv w) body = Inr req"
    and "crIdempotencyKey req = None \<or> pgLate (pgNext w) (pgTable w) = pgTable w
      \<and> (\<forall>r \<in> set (pgTable w). \<exists>bs. bs \<noteq> [] \<and> c_id r = ''task_'' @ hexEncode bs)"
    and "quiet 1 w1"
  shows "\<exists>w2. handleGetTask (serviceStore (appService p q)) (trID b) w1 = (writeJSON 200 (TaskBody b), w2)"
proof -
  from created_response [OF assms(1-3)] assms(4,5) obtain params v t where
    d: "b = toTaskResponse t" "pIdempotencyKey params = map_option TrimSpace (crIdempotencyKey req)"
    and c: "sound v" "ServiceCreate (appService p q) params v = (Inr t, w1)"
    and v: "pgNext v = pgNext w" "pgTable v = pgTable w" by auto
  from ServiceCreate_Inr [OF c] assms(6) v d(2) obtain r bs where s: "sound w1" and t: "t = (scanTask r)\<lparr>NewlyCreated := NewlyCreated t\<rparr>"
    and r: "r \<in> set (wTable w1)" "bs \<noteq> []" "c_id r = ''task_'' @ hexEncode bs"
    by (cases "NewlyCreated t") auto
  have b: "b = toTaskResponse (scanTask r)" by (subst d(1), subst t) simp
  have q: "quiet (Suc 0) w1" using assms(7) by simp
  have "Get (c_id r) w1 = (Inr (scanTask r), w1\<lparr>wPgCalls := Suc (wPgCalls w1)\<rparr>)"
    by (rule Get_quiet [OF q _ row_unique [OF s r(1)]]) (use s in \<open>simp add: sound_def\<close>)
  moreover have "trID b = c_id r" by (simp add: b toTaskResponse_def)
  moreover have "TrimSpace (c_id r) = c_id r" "c_id r \<noteq> []" using TrimSpace_hexID [OF r(2)] by (simp_all add: r(3))
  ultimately show ?thesis
    by (simp add: handleGetTask_def serviceStore_def ServiceGet_def appService_def pgCreatorGetter_def b)
qed

theorem post_then_get_witness:
  "\<exists>resp w1 b w2. handleCreateTask (serviceStore (sampleService obligingRedis)) ''{\"task_type\":\"demo.echo\"}'' (calmWorld [] ()) = (resp, w1)
     \<and> handleGetTask (serviceStore (sampleService obligingRedis)) (trID b) w1 = (writeJSON 200 (TaskBody b), w2)"
proof -
  obtain resp w1 b where h: "handleCreateTask (serviceStore (sampleService obligingRedis)) ''{\"task_type\":\"demo.echo\"}'' (calmWorld [] ()) = (resp, w1)"
    "jrStatus resp = 201" "jrBody resp = TaskBody b" "quiet 1 w1" using sample_post by blast
  have s: "sound (calmWorld [] ())" by simp
  from post_then_get [OF s h(1) [unfolded sampleService_def] h(2,3) _ _ h(4)] h(1) sample_decoded show ?thesis
    unfolding sampleService_def by auto
qed

section \<open>The body of a create request\<close>

lemma storeCreate_payload:
  "storeCreate e n (k, raw, v) req = Some req' \<Longrightarrow> crPayload req' = raw \<or> crPayload req' = crPayload req"
  by (auto simp: storeCreate_def split: if_splits)

text \<open>The payload check never refuses a decoded request. When the body of a create request is decoded, the
  payload is absent, or it is a piece of the body that was the value of a member, and this piece is valid JSON by
  itself, whatever surrounds it; so the validation that follows never reports an invalid payload.\<close>

theorem payload_check_redundant:
  assumes "decodeCreateTaskRequest e body = Inr req"
  shows "(crPayload req = '''' \<or> jsonValid (crPayload req) \<and> sublist (crPayload req) body)
    \<and> fst (validateCreateTaskRequest req w) \<noteq> Inl (NewError ''payload must be valid json'')"
proof -
  have empty: "jsonValid ''{}''" by code_simp
  from assms obtain v r where v: "scanValue 0 (skipSpace body) = Some (v, r)" and
    d: "decodeStruct (storeCreate e) createFields True \<lparr>crTaskType = '''', crPayload = '''', crIdempotencyKey = None,
          crTraceID = None, crRunAt = None, crTimeoutSeconds = 0, crMaxRetries = 0\<rparr> v = Some req"
    by (auto simp: decodeCreateTaskRequest_def decodeFirst_def split: option.splits)
  have p: "crPayload req = '''' \<or> jsonValid (crPayload req) \<and> sublist (crPayload req) body"
  proof (cases v)
    case (JObject ms)
    have raw: "jsonValid raw \<and> sublist raw body" if "(k, raw, x) \<in> set ms" for k raw x
      using object_raw_valid [OF v [unfolded JObject] that] object_raw_sublist [OF v [unfolded JObject] that]
        skipSpace_sublist [of body] by (blast intro: sublist_order.order_trans)
    show ?thesis
      by (rule storeMembers_inv [where I = "\<lambda>q. crPayload q = '''' \<or> jsonValid (crPayload q) \<and> sublist (crPayload q) body",
            OF d [unfolded decodeStruct_def JObject json.case]])
        (use raw storeCreate_payload in \<open>auto, metis+\<close>)
  qed (use d in \<open>auto simp: decodeStruct_def\<close>)
  with empty show ?thesis
    by (auto simp: validateCreateTaskRequest_def Let_def timeNow_def split: if_splits)
qed

theorem payload_check_redundant_witness:
  "\<exists>req. decodeCreateTaskRequest calmEnv ''{\"task_type\":\"x\",\"payload\":[1]}'' = Inr req \<and> crPayload req = ''[1]''
     \<and> jsonValid (crPayload req)"
proof -
  have d: "decodeCreateTaskRequest calmEnv ''{\"task_type\":\"x\",\"payload\":[1]}'' = Inr \<lparr>crTaskType = ''x'', crPayload = ''[1]'',
     crIdempotencyKey = None, crTraceID = None, crRunAt = None, crTimeoutSeconds = 0, crMaxRetries = 0\<rparr>"
    by code_simp
  from payload_check_redundant [OF d, of "calmWorld [] ()"] d show ?thesis by simp
qed

end
