(* ===== verification/MetricsExport.thy ===== *)
theory MetricsExport
  imports StoreProps "HOL-Library.Char_ord" "HOL-Library.List_Lexorder"
begin

text \<open>
  The export of the metrics: \<open>WritePrometheus\<close> of \<open>internal/metrics/metrics.go\<close> and the endpoint
  \<open>/metrics\<close>. The provider of the snapshot is an argument, as is \<open>fmtG\<close>, the verb \<open>%g\<close>.
  The writer records what it accepted; \<open>wrFail\<close> says which writes fail.
\<close>

record writer =
  wrFail :: "nat \<Rightarrow> goerror option"
  wrCalls :: nat
  wrOut :: string

definition Fprint :: "string \<Rightarrow> writer \<Rightarrow> goerror option \<times> writer" where
  "Fprint text wr = (case wrFail wr (wrCalls wr) of
     Some e \<Rightarrow> (Some e, wr\<lparr>wrCalls := Suc (wrCalls wr)\<rparr>)
   | None \<Rightarrow> (None, wr\<lparr>wrCalls := Suc (wrCalls wr), wrOut := wrOut wr @ text\<rparr>))"

text \<open>The loops of the export: one write per name, ending at the first error.\<close>

fun writeEach :: "('a \<Rightarrow> string) \<Rightarrow> 'a list \<Rightarrow> writer \<Rightarrow> goerror option \<times> writer" where
  "writeEach text [] wr = (None, wr)"
| "writeEach text (x # xs) wr = (case Fprint (text x) wr of
     (Some e, wr1) \<Rightarrow> (Some e, wr1)
   | (None, wr1) \<Rightarrow> writeEach text xs wr1)"

definition newline :: string where
  "newline = [CHR 0x0A]"

definition sortedKeys :: "float64 gomap \<Rightarrow> string list" where
  "sortedKeys vals = sort (map fst vals)"

definition sortedSummaryKeys :: "summary gomap \<Rightarrow> string list" where
  "sortedSummaryKeys vals = sort (map fst vals)"

definition writeMetric :: "(float64 \<Rightarrow> string) \<Rightarrow> string \<Rightarrow> string \<Rightarrow> float64 \<Rightarrow> string" where
  "writeMetric fmtG name metricType value =
     ''# TYPE '' @ name @ '' '' @ metricType @ newline @ name @ '' '' @ fmtG value @ newline"

definition summaryText :: "(float64 \<Rightarrow> string) \<Rightarrow> string \<Rightarrow> summary \<Rightarrow> string" where
  "summaryText fmtG name value =
     ''# TYPE '' @ name @ '' summary'' @ newline @ name @ ''_sum '' @ fmtG (sSum value) @ newline
       @ name @ ''_count '' @ fmtG (sCount value) @ newline"

definition writeRegistry :: "(float64 \<Rightarrow> string) \<Rightarrow> Registry \<Rightarrow> writer \<Rightarrow> goerror option \<times> writer" where
  "writeRegistry fmtG r wr =
     (case writeEach (\<lambda>n. writeMetric fmtG n ''counter'' (mapGet 0 (counters r) n)) (sortedKeys (counters r)) wr of
        (Some e, wr1) \<Rightarrow> (Some e, wr1)
      | (None, wr1) \<Rightarrow>
          (case writeEach (\<lambda>n. writeMetric fmtG n ''gauge'' (mapGet 0 (gauges r) n)) (sortedKeys (gauges r)) wr1 of
             (Some e, wr2) \<Rightarrow> (Some e, wr2)
           | (None, wr2) \<Rightarrow>
               writeEach (\<lambda>n. summaryText fmtG n (mapGet zeroSummary (summaries r) n)) (sortedSummaryKeys (summaries r)) wr2))"

text \<open>A reader of the registry sees its optional snapshot provider; the counters are part of the world.\<close>

definition WithSnapshotProvider :: "'p \<Rightarrow> 'p option \<Rightarrow> 'p option" where
  "WithSnapshotProvider provider registry = Some provider"

definition WritePrometheus :: "(Time \<Rightarrow> 'r world \<Rightarrow> (goerror + Snapshot) \<times> 'r world) option \<Rightarrow> (float64 \<Rightarrow> string)
    \<Rightarrow> writer \<Rightarrow> 'r world \<Rightarrow> (goerror option \<times> writer) \<times> 'r world" where
  "WritePrometheus provider fmtG wr w =
     (case provider of
        None \<Rightarrow> (writeRegistry fmtG (wMetrics w) wr, w)
      | Some metricsSnapshot \<Rightarrow>
          (case timeNow w of (now, w1) \<Rightarrow>
           case metricsSnapshot now w1 of
             (Inl err, w2) \<Rightarrow> ((Some err, wr), w2)
           | (Inr snapshot, w2) \<Rightarrow>
               let r1 = setGauge ''gotaskqueue_queue_backlog'' (float64OfInt (QueueBacklog snapshot)) (wMetrics w2);
                   r2 = setGauge ''gotaskqueue_worker_running_tasks'' (float64OfInt (RunningTasks snapshot)) r1;
                   w3 = w2\<lparr>wMetrics := r2\<rparr>
               in (writeRegistry fmtG r2 wr, w3)))"

section \<open>Properties\<close>

lemma writeEach_ok:
  assumes "\<forall>n. wrFail wr n = None"
  shows "\<exists>wr'. writeEach text xs wr = (None, wr') \<and> wrOut wr' = wrOut wr @ concat (map text xs) \<and> wrFail wr' = wrFail wr"
  using assms
proof (induction xs arbitrary: wr)
  case (Cons x xs)
  obtain wr1 where "Fprint (text x) wr = (None, wr1)" "wrOut wr1 = wrOut wr @ text x" "wrFail wr1 = wrFail wr"
    using Cons.prems by (simp add: Fprint_def)
  with Cons.IH [of wr1] Cons.prems show ?case by auto
qed simp

lemma sortedKeys_correct:
  assumes "distinct (map fst m)"
  shows "sorted (sort (map fst m)) \<and> distinct (sort (map fst m)) \<and> set (sort (map fst m)) = fst ` set m"
  using assms by simp

lemma writeRegistry_ok:
  assumes "\<forall>n. wrFail wr n = None"
  shows "\<exists>wr'. writeRegistry fmtG r wr = (None, wr') \<and> wrOut wr' = wrOut wr
     @ concat (map (\<lambda>n. writeMetric fmtG n ''counter'' (mapGet 0 (counters r) n)) (sortedKeys (counters r)))
     @ concat (map (\<lambda>n. writeMetric fmtG n ''gauge'' (mapGet 0 (gauges r) n)) (sortedKeys (gauges r)))
     @ concat (map (\<lambda>n. summaryText fmtG n (mapGet zeroSummary (summaries r) n)) (sortedSummaryKeys (summaries r)))"
proof -
  obtain wr1 where 1: "writeEach (\<lambda>n. writeMetric fmtG n ''counter'' (mapGet 0 (counters r) n)) (sortedKeys (counters r)) wr = (None, wr1)"
    "wrOut wr1 = wrOut wr @ concat (map (\<lambda>n. writeMetric fmtG n ''counter'' (mapGet 0 (counters r) n)) (sortedKeys (counters r)))"
    "wrFail wr1 = wrFail wr" using writeEach_ok [OF assms] by blast
  obtain wr2 where 2: "writeEach (\<lambda>n. writeMetric fmtG n ''gauge'' (mapGet 0 (gauges r) n)) (sortedKeys (gauges r)) wr1 = (None, wr2)"
    "wrOut wr2 = wrOut wr1 @ concat (map (\<lambda>n. writeMetric fmtG n ''gauge'' (mapGet 0 (gauges r) n)) (sortedKeys (gauges r)))"
    "wrFail wr2 = wrFail wr1" using writeEach_ok [of wr1] assms 1(3) by metis
  obtain wr3 where 3: "writeEach (\<lambda>n. summaryText fmtG n (mapGet zeroSummary (summaries r) n)) (sortedSummaryKeys (summaries r)) wr2 = (None, wr3)"
    "wrOut wr3 = wrOut wr2 @ concat (map (\<lambda>n. summaryText fmtG n (mapGet zeroSummary (summaries r) n)) (sortedSummaryKeys (summaries r)))"
    using writeEach_ok [of wr2] assms 1(3) 2(3) by metis
  show ?thesis using 1 2 3 by (simp add: writeRegistry_def)
qed

lemma dueAt_iff: "dueAt now t \<longleftrightarrow> (\<exists>d. t = Some d \<and> d \<le> now)"
  by (simp add: dueAt_def split: option.split)

text \<open>C32. The export is complete, ordered and fresh. When the snapshot is read and no write fails, the
  output has one block per counter, per gauge and per summary of the registry, each group in the order
  of the names with no name twice; a block is the type line and the value lines in the text format. The backlog gauge
  shows how many rows of the table were pending, scheduled and due, or waiting for a retry that is due at the time of the
  call, the running gauge how many rows were running, both as doubles; no other metric changes. (The maps of
  the registry have distinct keys, as Go maps do.)\<close>

theorem export_complete_and_fresh:
  assumes "sound w" "\<forall>n. wrFail wr n = None" "pgFault (pgNext w) = NoFault"
    and "distinct (map fst (counters (wMetrics w)))" "distinct (map fst (gauges (wMetrics w)))"
    and "distinct (map fst (summaries (wMetrics w)))"
  shows "\<exists>wr' w' cs gs ss. WritePrometheus (Some MetricsSnapshot) fmtG wr w = ((None, wr'), w')
    \<and> wrOut wr' = wrOut wr
       @ concat (map (\<lambda>n. ''# TYPE '' @ n @ '' counter'' @ [CHR 0x0A]
            @ n @ '' '' @ fmtG (mapGet 0 (counters (wMetrics w)) n) @ [CHR 0x0A]) cs)
       @ concat (map (\<lambda>n. ''# TYPE '' @ n @ '' gauge'' @ [CHR 0x0A]
            @ n @ '' '' @ fmtG (mapGet 0 (gauges (wMetrics w')) n) @ [CHR 0x0A]) gs)
       @ concat (map (\<lambda>n. ''# TYPE '' @ n @ '' summary'' @ [CHR 0x0A]
            @ n @ ''_sum '' @ fmtG (sSum (mapGet \<lparr>sCount = 0, sSum = 0\<rparr> (summaries (wMetrics w)) n)) @ [CHR 0x0A]
            @ n @ ''_count '' @ fmtG (sCount (mapGet \<lparr>sCount = 0, sSum = 0\<rparr> (summaries (wMetrics w)) n)) @ [CHR 0x0A]) ss)
    \<and> sorted cs \<and> distinct cs \<and> set cs = fst ` set (counters (wMetrics w))
    \<and> sorted ss \<and> distinct ss \<and> set ss = fst ` set (summaries (wMetrics w))
    \<and> sorted gs \<and> distinct gs
    \<and> set gs = {''gotaskqueue_queue_backlog'', ''gotaskqueue_worker_running_tasks''} \<union> fst ` set (gauges (wMetrics w))
    \<and> mapGet 0 (gauges (wMetrics w')) ''gotaskqueue_queue_backlog''
        = float64OfInt (int (length (filter (\<lambda>r. let now = envTimestamptz (wEnv w) (envClock (wEnv w) (wClockReads w)) in
            c_status r = StatusPending \<or> c_status r = StatusScheduled \<and> c_run_at r \<le> now
            \<or> c_status r = StatusRetrying \<and> (\<exists>d. c_next_retry_at r = Some d \<and> d \<le> now)) (pgTable w))))
    \<and> mapGet 0 (gauges (wMetrics w')) ''gotaskqueue_worker_running_tasks''
        = float64OfInt (int (length (filter (\<lambda>r. c_status r = StatusRunning) (pgTable w))))
    \<and> (\<forall>n. n \<noteq> ''gotaskqueue_queue_backlog'' \<and> n \<noteq> ''gotaskqueue_worker_running_tasks'' \<longrightarrow>
          mapGet 0 (gauges (wMetrics w')) n = mapGet 0 (gauges (wMetrics w)) n)
    \<and> counters (wMetrics w') = counters (wMetrics w) \<and> summaries (wMetrics w') = summaries (wMetrics w)
    \<and> wTable w' = pgTable w"
proof -
  let ?now = "envTimestamptz (wEnv w) (envClock (wEnv w) (wClockReads w))"
  obtain now w1 where n: "timeNow w = (now, w1)" by fastforce
  have w1: "pgNext w1 = pgNext w" "pgTable w1 = pgTable w" "wMetrics w1 = wMetrics w" "wTable w1 = wTable w"
    "envTimestamptz (wEnv w1) now = ?now"
    using n by (auto simp: timeNow_def pgNext_def pgTable_def)
  let ?b = "int (length (filter (\<lambda>r. let now = ?now in
            c_status r = StatusPending \<or> c_status r = StatusScheduled \<and> c_run_at r \<le> now
            \<or> c_status r = StatusRetrying \<and> (\<exists>d. c_next_retry_at r = Some d \<and> d \<le> now)) (pgTable w)))"
  let ?r = "int (length (filter (\<lambda>r. c_status r = StatusRunning) (pgTable w)))"
  define snap where "snap = \<lparr>QueueBacklog = ?b, RunningTasks = ?r\<rparr>"
  have run: "RunningTasks snap = ?r" and waiting: "QueueBacklog snap = ?b" by (simp_all add: snap_def)
  have "\<exists>w2. MetricsSnapshot now w1 = (Inr snap, w2) \<and> wTable w2 = pgTable w \<and> wMetrics w2 = wMetrics w"
    using assms(3) w1 by (simp add: MetricsSnapshot_def Let_def pgExec_NoFault dueAt_iff snap_def)
  then obtain w2 where s: "MetricsSnapshot now w1 = (Inr snap, w2)" "wTable w2 = pgTable w" "wMetrics w2 = wMetrics w" by blast
  define r1 where "r1 = setGauge ''gotaskqueue_queue_backlog'' (float64OfInt (QueueBacklog snap)) (wMetrics w)"
  define r2 where "r2 = setGauge ''gotaskqueue_worker_running_tasks'' (float64OfInt (RunningTasks snap)) r1"
  have r2: "counters r2 = counters (wMetrics w)" "summaries r2 = summaries (wMetrics w)"
    "fst ` set (gauges r2) = {''gotaskqueue_queue_backlog'', ''gotaskqueue_worker_running_tasks''} \<union> fst ` set (gauges (wMetrics w))"
    "distinct (map fst (gauges r2))"
    "mapGet 0 (gauges r2) ''gotaskqueue_worker_running_tasks'' = float64OfInt (RunningTasks snap)"
    "mapGet 0 (gauges r2) ''gotaskqueue_queue_backlog'' = float64OfInt (QueueBacklog snap)"
    "\<forall>n. n \<noteq> ''gotaskqueue_queue_backlog'' \<and> n \<noteq> ''gotaskqueue_worker_running_tasks'' \<longrightarrow>
       mapGet 0 (gauges r2) n = mapGet 0 (gauges (wMetrics w)) n"
    using assms(5) by (auto simp: r2_def r1_def setGauge_def dom_update distinct_update mapGet_def update_conv' insert_commute
        simp flip: dom_map_of_conv_image_fst)
  obtain wr' where wr': "writeRegistry fmtG r2 wr = (None, wr')" "wrOut wr' = wrOut wr
     @ concat (map (\<lambda>n. writeMetric fmtG n ''counter'' (mapGet 0 (counters r2) n)) (sortedKeys (counters r2)))
     @ concat (map (\<lambda>n. writeMetric fmtG n ''gauge'' (mapGet 0 (gauges r2) n)) (sortedKeys (gauges r2)))
     @ concat (map (\<lambda>n. summaryText fmtG n (mapGet zeroSummary (summaries r2) n)) (sortedSummaryKeys (summaries r2)))"
    using writeRegistry_ok [OF assms(2)] by blast
  note out = wr'(2) [unfolded writeMetric_def summaryText_def newline_def zeroSummary_def r2(1,2)]
  have "WritePrometheus (Some MetricsSnapshot) fmtG wr w = ((None, wr'), w2\<lparr>wMetrics := r2\<rparr>)"
    using n s wr'(1) by (simp add: WritePrometheus_def r2_def r1_def Let_def)
  moreover have "sorted (sortedSummaryKeys (summaries (wMetrics w))) \<and> distinct (sortedSummaryKeys (summaries (wMetrics w)))
      \<and> set (sortedSummaryKeys (summaries (wMetrics w))) = fst ` set (summaries (wMetrics w))"
    using assms(6) by (simp add: sortedSummaryKeys_def)
  moreover have "sorted (sortedKeys m) \<and> set (sortedKeys m) = fst ` set m \<and> distinct (sortedKeys m) = distinct (map fst m)" for m
    by (simp add: sortedKeys_def)
  ultimately show ?thesis
    unfolding run [symmetric] waiting [symmetric]
    by (intro exI [of _ wr'] exI [of _ "w2\<lparr>wMetrics := r2\<rparr>"] exI [of _ "sortedKeys (counters (wMetrics w))"]
        exI [of _ "sortedKeys (gauges r2)"] exI [of _ "sortedSummaryKeys (summaries (wMetrics w))"])
      (simp add: out r2 s assms(4))
qed

theorem export_complete_and_fresh_witness:
  "\<exists>wr' w'. WritePrometheus (Some MetricsSnapshot) (\<lambda>_. ''0'') \<lparr>wrFail = \<lambda>_. None, wrCalls = 0, wrOut = []\<rparr>
       (calmWorld [sampleRow ''a'' StatusRunning, sampleRow ''b'' StatusPending, sampleRow ''c'' StatusPending] ()) = ((None, wr'), w')
     \<and> mapGet 0 (gauges (wMetrics w')) ''gotaskqueue_queue_backlog'' = float64OfInt 2
     \<and> mapGet 0 (gauges (wMetrics w')) ''gotaskqueue_worker_running_tasks'' = float64OfInt 1"
proof -
  let ?w = "calmWorld [sampleRow ''a'' StatusRunning, sampleRow ''b'' StatusPending, sampleRow ''c'' StatusPending] ()"
  have d: "distinct (map fst (counters (wMetrics ?w)))" "distinct (map fst (gauges (wMetrics ?w)))"
    "distinct (map fst (summaries (wMetrics ?w)))" by (simp_all add: NewRegistry_def)
  have s: "sound ?w" "\<forall>n. wrFail \<lparr>wrFail = \<lambda>_. None, wrCalls = 0, wrOut = []\<rparr> n = None" "pgFault (pgNext ?w) = NoFault"
    by (simp_all add: db_inv_def table_ok_def sampleRow_inv)
  from export_complete_and_fresh [OF s d, of "\<lambda>_. ''0''"] show ?thesis
    by (elim exE conjE) (simp del: One_nat_def)
qed

end
