(* ===== verification/Calendar.thy ===== *)
theory Calendar
  imports GoStd
begin

text \<open>
  What the program uses of \<open>time.Time.Format\<close>: the civil date and the time of day of an instant,
  the layout of the dashboard in UTC, and RFC 3339 in the zone of the server for JSON. The date is computed by cycles of 400, 100, 4 and 1 years, and is shown to be the
  one whose day number, counted over the Gregorian calendar, is the given day.
\<close>

section \<open>The calendar\<close>

definition isLeap :: "int \<Rightarrow> bool" where
  "isLeap y \<longleftrightarrow> y mod 4 = 0 \<and> (y mod 100 \<noteq> 0 \<or> y mod 400 = 0)"

definition monthLengths :: "int \<Rightarrow> int list" where
  "monthLengths y = [31, if isLeap y then 29 else 28, 31, 30, 31, 30, 31, 31, 30, 31, 30, 31]"

text \<open>Days before the first of January of a year, counted from January 1 of year 1.\<close>

definition daysBeforeYear :: "int \<Rightarrow> int" where
  "daysBeforeYear y = 365 * (y - 1) + (y - 1) div 4 - (y - 1) div 100 + (y - 1) div 400"

definition dayNumber :: "int \<Rightarrow> nat \<Rightarrow> int \<Rightarrow> int" where
  "dayNumber y m d = daysBeforeYear y + sum_list (take (m - 1) (monthLengths y)) + d - 1"

section \<open>The date of a day\<close>

fun monthDay :: "int list \<Rightarrow> int \<Rightarrow> nat \<times> int" where
  "monthDay [] k = (1, k + 1)"
| "monthDay (n # ns) k = (if k < n then (1, k + 1) else (case monthDay ns (k - n) of (m, d) \<Rightarrow> (Suc m, d)))"

text \<open>The year and the day in it, from 0.\<close>

definition yearDay :: "int \<Rightarrow> int \<times> int" where
  "yearDay d =
     (let n400 = d div 146097; r400 = d mod 146097;
          n100 = min 3 (r400 div 36524); r100 = r400 - 36524 * n100;
          n4 = r100 div 1461; r4 = r100 mod 1461;
          n1 = min 3 (r4 div 365)
      in (400 * n400 + 100 * n100 + 4 * n4 + n1 + 1, r4 - 365 * n1))"

definition civil :: "int \<Rightarrow> int \<times> nat \<times> int" where
  "civil d = (case yearDay d of (y, k) \<Rightarrow> (y, monthDay (monthLengths y) k))"

lemma yearDay_correct:
  assumes "yearDay d = (y, k)"
  shows "daysBeforeYear y + k = d" "0 \<le> k" "k < (if isLeap y then 366 else 365)"
proof -
  define a where "a = d div 146097"
  define r where "r = d mod 146097"
  define b where "b = min 3 (r div 36524)"
  define s where "s = r - 36524 * b"
  define c where "c = s div 1461"
  define t where "t = s mod 1461"
  define e where "e = min 3 (t div 365)"
  have d: "d = 146097 * a + r" by (simp add: a_def r_def)
  have r: "0 \<le> r" "r < 146097" by (simp_all add: r_def)
  have b: "0 \<le> b" "b \<le> 3" using r by (auto simp: b_def)
  have s: "0 \<le> s" "s \<le> 36524" "b < 3 \<longrightarrow> s < 36524" using r by (auto simp: s_def b_def min_def)
  have st: "s = 1461 * c + t" by (simp add: c_def t_def)
  have t: "0 \<le> t" "t < 1461" by (simp_all add: t_def)
  have c: "0 \<le> c" "c \<le> 24" "c = 24 \<and> b < 3 \<longrightarrow> t < 1460"
  proof -
    show "0 \<le> c" using s(1) by (simp add: c_def pos_imp_zdiv_nonneg_iff)
    show "c \<le> 24" using s(2) st t(1) by linarith
    show "c = 24 \<and> b < 3 \<longrightarrow> t < 1460" using s(3) st by auto
  qed
  have e: "0 \<le> e" "e \<le> 3" using t by (auto simp: e_def)
  have yk: "y = 400 * a + 100 * b + 4 * c + e + 1" "k = t - 365 * e"
    using assms by (simp_all add: yearDay_def Let_def a_def r_def b_def s_def c_def t_def e_def)
  have k: "0 \<le> k" "e < 3 \<longrightarrow> k < 365" "k < 366" "e = 3 \<and> t < 1460 \<longrightarrow> k < 365"
    using t by (auto simp: yk e_def min_def)
  have q: "(y - 1) div 4 = 100 * a + 25 * b + c" "(y - 1) div 100 = 4 * a + b" "(y - 1) div 400 = a"
    using b c e by (simp_all add: yk)
  show "daysBeforeYear y + k = d" unfolding daysBeforeYear_def q using d st by (simp add: yk s_def)
  show "0 \<le> k" by (rule k(1))
  have "y = e + 1 + 4 * (100 * a + 25 * b + c)" "y = 4 * c + e + 1 + 100 * (4 * a + b)" "y = 100 * b + 4 * c + e + 1 + 400 * a"
    by (simp_all add: yk)
  then have m: "y mod 4 = (e + 1) mod 4" "y mod 100 = (4 * c + e + 1) mod 100" "y mod 400 = (100 * b + 4 * c + e + 1) mod 400"
    by (metis mod_mult_self2)+
  show "k < (if isLeap y then 366 else 365)"
  proof (cases "e = 3 \<and> \<not> (c = 24 \<and> b < 3)")
    case True
    then have "isLeap y" unfolding isLeap_def m using b c by (cases "c = 24") auto
    with k(3) show ?thesis by simp
  next
    case False
    then have "k < 365" using k(2,4) c(3) e by auto
    then show ?thesis by simp
  qed
qed

lemma monthDay_correct:
  assumes "0 \<le> k" "k < sum_list ns" "\<forall>n \<in> set ns. 0 < n" "monthDay ns k = (m, d)"
  shows "1 \<le> m \<and> m \<le> length ns \<and> 1 \<le> d \<and> d \<le> ns ! (m - 1) \<and> sum_list (take (m - 1) ns) + d - 1 = k"
  using assms
proof (induction ns arbitrary: k m d)
  case (Cons n ns)
  show ?case
  proof (cases "k < n")
    case False
    obtain m' d' where md: "monthDay ns (k - n) = (m', d')" by fastforce
    from Cons.IH [OF _ _ _ md] Cons.prems False
    have "1 \<le> m' \<and> m' \<le> length ns \<and> 1 \<le> d' \<and> d' \<le> ns ! (m' - 1) \<and> sum_list (take (m' - 1) ns) + d' - 1 = k - n" by simp
    moreover have "m = Suc m'" "d = d'" using Cons.prems(4) False md by simp_all
    ultimately show ?thesis by (cases m') auto
  qed (use Cons.prems in auto)
qed simp

lemma sum_monthLengths: "sum_list (monthLengths y) = (if isLeap y then 366 else 365)"
  by (simp add: monthLengths_def)

text \<open>The computed date is the date of the day: it is a date of the calendar and has the given day number.\<close>

lemma civil_correct:
  assumes "civil n = (y, m, d)"
  shows "1 \<le> m" "m \<le> 12" "1 \<le> d" "d \<le> monthLengths y ! (m - 1)" "dayNumber y m d = n"
proof -
  obtain k where k: "yearDay n = (y, k)" "monthDay (monthLengths y) k = (m, d)"
    using assms by (auto simp: civil_def split: prod.splits)
  note yd = yearDay_correct [OF k(1)]
  have "1 \<le> m \<and> m \<le> length (monthLengths y) \<and> 1 \<le> d \<and> d \<le> monthLengths y ! (m - 1)
      \<and> sum_list (take (m - 1) (monthLengths y)) + d - 1 = k"
    by (rule monthDay_correct [OF yd(2) _ _ k(2)]) (use yd(3) in \<open>simp_all add: sum_monthLengths\<close>, simp add: monthLengths_def)
  then show "1 \<le> m" "m \<le> 12" "1 \<le> d" "d \<le> monthLengths y ! (m - 1)" "dayNumber y m d = n"
    using yd(1) by (auto simp: dayNumber_def monthLengths_def)
qed

section \<open>Layout\<close>

text \<open>\<open>appendInt\<close>: a number padded with zeros to a width.\<close>

definition appendInt :: "nat \<Rightarrow> int \<Rightarrow> string" where
  "appendInt width x =
     (if x < 0 then ''-'' else '''')
     @ (let ds = natDigits (nat \<bar>x\<bar>) in replicate (width - length ds) (CHR ''0'') @ ds)"

definition secondsPerDay :: int where "secondsPerDay = 86400"

text \<open>The date and the time of day of a second, with a separator between them.\<close>

definition dateTime :: "char \<Rightarrow> int \<Rightarrow> string" where
  "dateTime sep s =
     (let r = s mod secondsPerDay
      in case civil (s div secondsPerDay) of (y, m, d) \<Rightarrow>
           appendInt 4 y @ ''-'' @ appendInt 2 (int m) @ ''-'' @ appendInt 2 d @ [sep]
           @ appendInt 2 (r div 3600) @ '':'' @ appendInt 2 (r div 60 mod 60) @ '':'' @ appendInt 2 (r mod 60))"

text \<open>\<open>t.UTC().Format("2006-01-02 15:04:05 UTC")\<close>.\<close>

definition formatUTC :: "Time \<Rightarrow> string" where
  "formatUTC t = dateTime (CHR '' '') (t div Second) @ '' UTC''"

text \<open>
  \<open>time.RFC3339Nano\<close>, as \<open>MarshalJSON\<close> writes it: the time of day at the offset of the local zone, in seconds east of
  UTC, the fraction of the second without trailing zeros, and the offset in minutes. A year of more or less than four
  digits and an offset of a day or more are errors.
\<close>

definition fractionText :: "int \<Rightarrow> string" where
  "fractionText ns = (if ns = 0 then [] else CHR ''.'' # rev (dropWhile (\<lambda>c. c = CHR ''0'') (rev (appendInt 9 ns))))"

definition zoneText :: "int \<Rightarrow> string" where
  "zoneText offset =
     (if offset = 0 then ''Z''
      else let minutes = \<bar>offset\<bar> div 60
        in (if offset \<le> - 60 then ''-'' else ''+'') @ appendInt 2 (minutes div 60) @ '':'' @ appendInt 2 (minutes mod 60))"

definition formatRFC3339 :: "int \<Rightarrow> Time \<Rightarrow> string option" where
  "formatRFC3339 offset t =
     (let s = t div Second + offset; y = fst (civil (s div secondsPerDay))
      in if y < 0 \<or> 9999 < y \<or> 24 \<le> \<bar>offset\<bar> div 60 div 60 then None
         else Some (dateTime (CHR ''T'') s @ fractionText (t mod Second) @ zoneText offset))"

section \<open>Reading a time back\<close>

definition decimalNat :: "string \<Rightarrow> nat" where
  "decimalNat s = foldl (\<lambda>a c. a * 10 + (of_char c - 48)) 0 s"

text \<open>The seconds a reader of the text computes from its digits.\<close>

definition readUTC :: "string \<Rightarrow> int" where
  "readUTC s =
     (let f = \<lambda>i n. int (decimalNat (take n (drop i s)))
      in dayNumber (f 0 4) (nat (f 5 2)) (f 8 2) * secondsPerDay + f 11 2 * 3600 + f 14 2 * 60 + f 17 2)"

lemma decimalNat_snoc: "decimalNat (s @ [c]) = decimalNat s * 10 + (of_char c - 48)"
  by (simp add: decimalNat_def)

lemma of_char_digit: "d < 10 \<Longrightarrow> of_char (digitChar d) = 48 + d"
  by (simp add: digitChar_def)

lemma decimalNat_digits: "decimalNat (natDigits n) = n"
proof (induction n rule: natDigits.induct)
  case (1 n)
  show ?case
  proof (cases "n < 10")
    case True
    then show ?thesis by (simp add: natDigits.simps [of n] decimalNat_def of_char_digit)
  next
    case False
    then show ?thesis
      using 1 by (subst natDigits.simps) (simp add: decimalNat_snoc of_char_digit)
  qed
qed

lemma decimalNat_zeros: "decimalNat (replicate k (CHR ''0'') @ s) = decimalNat s"
  by (induction k) (simp_all add: decimalNat_def)

lemma length_natDigits: "n < 10 ^ Suc k \<Longrightarrow> length (natDigits n) \<le> Suc k"
proof (induction k arbitrary: n)
  case (Suc k)
  show ?case
  proof (cases "n < 10")
    case False
    have "n div 10 < 10 ^ Suc k" using Suc.prems by (simp add: less_mult_imp_div_less)
    from Suc.IH [OF this] False show ?thesis by (subst natDigits.simps) simp
  qed (simp add: natDigits.simps [of n])
qed (simp add: natDigits.simps)

lemma appendInt_value: "0 \<le> x \<Longrightarrow> int (decimalNat (appendInt w x)) = x"
  by (simp add: appendInt_def Let_def decimalNat_zeros decimalNat_digits)

lemma appendInt_length:
  assumes "0 \<le> x" "x < 10 ^ w" "0 < w"
  shows "length (appendInt w x) = w"
proof -
  obtain k where w: "w = Suc k" using assms(3) by (cases w) auto
  have "nat x < nat (10 ^ w)" using assms by simp
  then have "nat x < 10 ^ Suc k" by (simp add: w nat_power_eq nat_mult_distrib)
  from length_natDigits [OF this] show ?thesis using assms(1) by (simp add: appendInt_def Let_def w)
qed

lemma div_step:
  assumes "0 < (n::int)"
  shows "y div n = (y - 1) div n + (if y mod n = 0 then 1 else 0)"
proof (cases "y mod n = 0")
  case True
  then have "y - 1 = n * (y div n - 1) + (n - 1)" by (simp add: algebra_simps minus_mod_eq_mult_div [symmetric])
  from int_div_pos_eq [OF this] assms True show ?thesis by simp
next
  case False
  have "0 \<le> y mod n" "y mod n < n" using assms by simp_all
  then have "y - 1 = n * (y div n) + (y mod n - 1)" "0 \<le> y mod n - 1" "y mod n - 1 < n" using False by simp_all
  from int_div_pos_eq [OF this] False show ?thesis by simp
qed

lemma leap_count:
  "(Q \<longrightarrow> P) \<Longrightarrow> (R \<longrightarrow> Q) \<Longrightarrow> (if P \<and> (\<not> Q \<or> R) then 366 else 365)
    = 365 + (if P then 1 else 0) - (if Q then 1 else 0) + (if R then 1 else (0::int))"
  by (cases P; cases Q; cases R) simp_all

lemma daysBeforeYear_Suc: "daysBeforeYear (y + 1) = daysBeforeYear y + (if isLeap y then 366 else 365)"
proof -
  have "y mod 100 mod 4 = y mod 4" "y mod 400 mod 100 = y mod 100" by (simp_all add: mod_mod_cancel)
  then have "y mod 100 = 0 \<longrightarrow> y mod 4 = 0" "y mod 400 = 0 \<longrightarrow> y mod 100 = 0" by auto
  from leap_count [OF this] have leap: "(if isLeap y then 366 else 365) = 365 + (if y mod 4 = 0 then 1 else 0) - (if y mod 100 = 0 then 1 else 0)
      + (if y mod 400 = 0 then 1 else (0::int))" by (simp only: isLeap_def)
  have d: "y div 4 = (y - 1) div 4 + (if y mod 4 = 0 then 1 else 0)" "y div 100 = (y - 1) div 100 + (if y mod 100 = 0 then 1 else 0)"
    "y div 400 = (y - 1) div 400 + (if y mod 400 = 0 then 1 else 0)" by (rule div_step; simp)+
  have sum: "365 * y + (a + i) - (b + j) + (c + k) = 365 * (y - 1) + a - b + c + (365 + i - j + k)" for a b c i j k :: int by simp
  have "daysBeforeYear (y + 1) = 365 * y + y div 4 - y div 100 + y div 400" by (simp add: daysBeforeYear_def)
  then show ?thesis unfolding leap d unfolding daysBeforeYear_def sum .
qed

lemma daysBeforeYear_mono:
  assumes "x \<le> y"
  shows "daysBeforeYear x \<le> daysBeforeYear y"
proof -
  have "daysBeforeYear x \<le> daysBeforeYear (x + int k)" for k
  proof (induction k)
    case (Suc k)
    then show ?case using daysBeforeYear_Suc [of "x + int k"] by (simp add: algebra_simps split: if_splits)
  qed simp
  from this [of "nat (y - x)"] assms show ?thesis by simp
qed

text \<open>The layout has fixed fields for the years 0 to 9999, and every field is read back from its place.\<close>

lemma readUTC_parts:
  assumes "length y = 4" "length m = 2" "length d = 2" "length h = 2" "length mi = 2" "length s = 2"
  shows "readUTC (y @ ''-'' @ m @ ''-'' @ d @ [sep] @ h @ '':'' @ mi @ '':'' @ s @ z) =
    dayNumber (int (decimalNat y)) (decimalNat m) (int (decimalNat d)) * secondsPerDay
      + int (decimalNat h) * 3600 + int (decimalNat mi) * 60 + int (decimalNat s)"
  using assms by (simp add: readUTC_def Let_def)

lemma dateTime_reads:
  assumes c: "civil (s div secondsPerDay) = (y, m, d)" and y: "0 \<le> y" "y \<le> 9999"
  shows "readUTC (dateTime sep s @ z) = s" "length (dateTime sep s) = 19"
proof -
  define r where "r = s mod secondsPerDay"
  note cc = civil_correct [OF c]
  have d: "0 \<le> d" "d < 10 ^ 2"
  proof -
    have "\<forall>n \<in> set (monthLengths y). n \<le> 31" by (simp add: monthLengths_def)
    moreover have "monthLengths y ! (m - 1) \<in> set (monthLengths y)"
      by (rule nth_mem) (use cc(1,2) in \<open>simp add: monthLengths_def\<close>)
    ultimately have "monthLengths y ! (m - 1) \<le> 31" by blast
    then show "0 \<le> d" "d < 10 ^ 2" using cc(3,4) by simp_all
  qed
  have r: "0 \<le> r" "r < 86400" by (simp_all add: r_def secondsPerDay_def)
  have rs: "r = r div 3600 * 3600 + r div 60 mod 60 * 60 + r mod 60"
  proof -
    have "r div 3600 = r div 60 div 60" by (simp add: zdiv_zmult2_eq [symmetric])
    then show ?thesis using div_mult_mod_eq [of r 60] div_mult_mod_eq [of "r div 60" 60] by linarith
  qed
  have sr: "s = s div secondsPerDay * secondsPerDay + r" by (simp add: r_def)
  have l: "length (appendInt 4 y) = 4" "length (appendInt 2 (int m)) = 2" "length (appendInt 2 d) = 2"
    "length (appendInt 2 (r div 3600)) = 2" "length (appendInt 2 (r div 60 mod 60)) = 2" "length (appendInt 2 (r mod 60)) = 2"
    using y d r cc(2) by (simp_all add: appendInt_length)
  have p: "dateTime sep s = appendInt 4 y @ ''-'' @ appendInt 2 (int m) @ ''-'' @ appendInt 2 d @ [sep]
       @ appendInt 2 (r div 3600) @ '':'' @ appendInt 2 (r div 60 mod 60) @ '':'' @ appendInt 2 (r mod 60)"
    by (simp add: dateTime_def Let_def c r_def)
  have "decimalNat (appendInt 2 (int m)) = m" using appendInt_value [of "int m" 2] by simp
  moreover have "int (decimalNat (appendInt 4 y)) = y" "int (decimalNat (appendInt 2 d)) = d"
    "int (decimalNat (appendInt 2 (r div 3600))) = r div 3600" "int (decimalNat (appendInt 2 (r div 60 mod 60))) = r div 60 mod 60"
    "int (decimalNat (appendInt 2 (r mod 60))) = r mod 60"
    using y d r by (simp_all add: appendInt_value pos_imp_zdiv_nonneg_iff)
  ultimately have "readUTC (dateTime sep s @ z) = dayNumber y m d * secondsPerDay + r div 3600 * 3600 + r div 60 mod 60 * 60 + r mod 60"
    unfolding p append_assoc readUTC_parts [OF l] by simp
  with cc(5) rs sr show "readUTC (dateTime sep s @ z) = s" by simp
  show "length (dateTime sep s) = 19" unfolding p using l by simp
qed

lemma year_range:
  assumes "0 \<le> s" "s < secondsPerDay * daysBeforeYear 10000" and c: "civil (s div secondsPerDay) = (y, m, d)"
  shows "1 \<le> y" "y \<le> 9999"
proof -
  have q: "0 \<le> s div secondsPerDay" "s div secondsPerDay < daysBeforeYear 10000"
    using assms(1,2) by (simp_all add: secondsPerDay_def pos_imp_zdiv_nonneg_iff)
  obtain k where k: "yearDay (s div secondsPerDay) = (y, k)" using c by (auto simp: civil_def split: prod.splits)
  note yd = yearDay_correct [OF k]
  show "1 \<le> y"
  proof (rule ccontr)
    assume "\<not> 1 \<le> y"
    then have "daysBeforeYear (y + 1) \<le> daysBeforeYear 1" by (intro daysBeforeYear_mono) simp
    then have "daysBeforeYear (y + 1) \<le> 0" by (simp add: daysBeforeYear_def)
    then show False using yd(1,3) q(1) unfolding daysBeforeYear_Suc by linarith
  qed
  show "y \<le> 9999" using daysBeforeYear_mono [of 10000 y] yd(1,2) q(2) by linarith
qed

lemma readUTC_formatUTC:
  assumes "0 \<le> t" "t div Second < secondsPerDay * daysBeforeYear 10000"
  shows "readUTC (formatUTC t) = t div Second" "length (formatUTC t) = 23"
proof -
  obtain y m d where c: "civil (t div Second div secondsPerDay) = (y, m, d)" by (metis prod.exhaust)
  have "0 \<le> t div Second" using assms(1) by (simp add: Second_def pos_imp_zdiv_nonneg_iff)
  from year_range [OF this assms(2) c] have "0 \<le> y" "y \<le> 9999" by simp_all
  from dateTime_reads [OF c this] show "readUTC (formatUTC t) = t div Second" "length (formatUTC t) = 23"
    by (simp_all add: formatUTC_def)
qed

section \<open>Reading an RFC 3339 time\<close>

text \<open>The instant the text denotes: the digits of the fraction count as nanoseconds after padding, and the offset is
  subtracted.\<close>

definition readFraction :: "string \<Rightarrow> int" where
  "readFraction ds = int (decimalNat ds) * 10 ^ (9 - length ds)"

definition readZone :: "string \<Rightarrow> int" where
  "readZone z = (case z of
     [] \<Rightarrow> 0
   | c # cs \<Rightarrow>
       let seconds = int (decimalNat (take 2 cs)) * 3600 + int (decimalNat (take 2 (drop 3 cs))) * 60
       in if c = CHR ''+'' then seconds else if c = CHR ''-'' then - seconds else 0)"

definition isDecimal :: "char \<Rightarrow> bool" where
  "isDecimal c \<longleftrightarrow> 48 \<le> (of_char c :: nat) \<and> (of_char c :: nat) \<le> 57"

definition readRFC3339 :: "string \<Rightarrow> Time" where
  "readRFC3339 s =
     (let rest = drop 19 s;
          ds = (if take 1 rest = ''.'' then takeWhile isDecimal (drop 1 rest) else []);
          zone = (if take 1 rest = ''.'' then drop (1 + length ds) rest else rest)
      in (readUTC s - readZone zone) * Second + readFraction ds)"

lemma decimalNat_append_zeros: "decimalNat (s @ replicate k (CHR ''0'')) = decimalNat s * 10 ^ k"
proof (induction k)
  case (Suc k)
  have "s @ replicate (Suc k) (CHR ''0'') = (s @ replicate k (CHR ''0'')) @ [CHR ''0'']" by (simp add: replicate_append_same)
  then show ?case using Suc by (simp only: decimalNat_snoc) simp
qed simp

lemma strip_zeros:
  obtains k where "s = rev (dropWhile (\<lambda>c. c = x) (rev s)) @ replicate k x"
proof -
  have "rev s = takeWhile (\<lambda>c. c = x) (rev s) @ dropWhile (\<lambda>c. c = x) (rev s)" by simp
  then have "s = rev (dropWhile (\<lambda>c. c = x) (rev s)) @ rev (takeWhile (\<lambda>c. c = x) (rev s))" by (metis rev_append rev_rev_ident)
  moreover have "rev (takeWhile (\<lambda>c. c = x) (rev s)) = replicate (length (takeWhile (\<lambda>c. c = x) (rev s))) x"
    by (rule replicate_eqI) (auto dest: set_takeWhileD)
  ultimately show thesis using that by metis
qed

lemma natDigits_decimal: "c \<in> set (natDigits n) \<Longrightarrow> isDecimal c"
proof (induction n rule: natDigits.induct)
  case (1 n)
  have "isDecimal (digitChar (n mod 10))" by (simp add: isDecimal_def of_char_digit)
  moreover have "isDecimal (digitChar n)" if "n < 10" using that by (simp add: isDecimal_def of_char_digit)
  ultimately show ?case using 1 by (subst (asm) natDigits.simps) (auto split: if_splits)
qed

lemma appendInt_decimal: "0 \<le> x \<Longrightarrow> c \<in> set (appendInt w x) \<Longrightarrow> isDecimal c"
  using natDigits_decimal by (auto simp: appendInt_def Let_def isDecimal_def)

lemma fraction_reads:
  assumes "0 \<le> ns" "ns < Second"
  obtains "ns = 0" "fractionText ns = []"
    | ds where "fractionText ns = CHR ''.'' # ds" "\<forall>c \<in> set ds. isDecimal c" "readFraction ds = ns"
proof (cases "ns = 0")
  case False
  let ?ds = "rev (dropWhile (\<lambda>c. c = CHR ''0'') (rev (appendInt 9 ns)))"
  obtain k where k: "appendInt 9 ns = ?ds @ replicate k (CHR ''0'')" by (rule strip_zeros)
  have "length (appendInt 9 ns) = 9" using assms by (simp add: appendInt_length Second_def)
  then have l: "length ?ds + k = 9" by (subst (asm) k) simp
  have "int (decimalNat (appendInt 9 ns)) = ns" using assms(1) by (rule appendInt_value)
  then have "int (decimalNat ?ds * 10 ^ k) = ns" by (subst (asm) k) (simp only: decimalNat_append_zeros)
  moreover have "9 - length ?ds = k" using l by simp
  ultimately have "readFraction ?ds = ns" unfolding readFraction_def by simp
  moreover have "set ?ds \<subseteq> set (appendInt 9 ns)" by (subst (2) k) auto
  then have "\<forall>c \<in> set ?ds. isDecimal c" using appendInt_decimal [OF assms(1)] by blast
  moreover have "fractionText ns = CHR ''.'' # ?ds" using False by (simp add: fractionText_def)
  ultimately show thesis using that(2) by blast
qed (use that in \<open>simp add: fractionText_def\<close>)

lemma zone_reads:
  assumes "offset mod 60 = 0" "\<bar>offset\<bar> div 60 div 60 < 24"
  shows "readZone (zoneText offset) = offset" "\<exists>c cs. zoneText offset = c # cs \<and> c \<in> {CHR ''Z'', CHR ''+'', CHR ''-''}"
proof -
  show "\<exists>c cs. zoneText offset = c # cs \<and> c \<in> {CHR ''Z'', CHR ''+'', CHR ''-''}" by (auto simp: zoneText_def Let_def)
  show "readZone (zoneText offset) = offset"
  proof (cases "offset = 0")
    case True
    then show ?thesis by (simp add: zoneText_def readZone_def)
  next
    case False
    define m where "m = \<bar>offset\<bar> div 60"
    have "\<bar>offset\<bar> mod 60 = 0" using assms(1) by (simp add: mod_eq_0_iff_dvd)
    then have o: "\<bar>offset\<bar> = m * 60" using div_mult_mod_eq [of "\<bar>offset\<bar>" 60] by (simp add: m_def)
    have m: "0 \<le> m div 60" "m div 60 < 24" "0 \<le> m mod 60" "m mod 60 < 60"
      using assms(2) by (simp_all add: m_def pos_imp_zdiv_nonneg_iff)
    then have l: "length (appendInt 2 (m div 60)) = 2" "length (appendInt 2 (m mod 60)) = 2" by (simp_all add: appendInt_length)
    have v: "int (decimalNat (appendInt 2 (m div 60))) * 3600 + int (decimalNat (appendInt 2 (m mod 60))) * 60 = \<bar>offset\<bar>"
      unfolding appendInt_value [OF m(1)] appendInt_value [OF m(3)] o using div_mult_mod_eq [of m 60] by linarith
    have sg: "offset \<le> - 60 \<longleftrightarrow> offset < 0" using o by presburger
    have "zoneText offset = (if offset < 0 then CHR ''-'' else CHR ''+'') # appendInt 2 (m div 60) @ '':'' @ appendInt 2 (m mod 60)"
      using False by (simp add: zoneText_def Let_def sg m_def)
    then have "readZone (zoneText offset) = (if offset < 0 then - \<bar>offset\<bar> else \<bar>offset\<bar>)"
      using l v by (simp add: readZone_def Let_def)
    then show ?thesis by simp
  qed
qed

text \<open>What was formatted denotes the same instant, whatever the zone.\<close>

lemma readRFC3339_format:
  assumes "formatRFC3339 offset t = Some x" "offset mod 60 = 0"
  shows "readRFC3339 x = t"
proof -
  define s where "s = t div Second + offset"
  obtain y m d where c: "civil (s div secondsPerDay) = (y, m, d)" by (metis prod.exhaust)
  from assms(1) c have y: "0 \<le> y" "y \<le> 9999" and z: "\<bar>offset\<bar> div 60 div 60 < 24"
    and x: "x = dateTime (CHR ''T'') s @ fractionText (t mod Second) @ zoneText offset"
    by (auto simp: formatRFC3339_def Let_def s_def [symmetric] split: if_splits)
  note dt = dateTime_reads [OF c y, of "CHR ''T''"]
  note zn = zone_reads [OF assms(2) z]
  obtain zc zs where zc: "zoneText offset = zc # zs" "zc \<in> {CHR ''Z'', CHR ''+'', CHR ''-''}" using zn(2) by blast
  have rest: "drop 19 x = fractionText (t mod Second) @ zoneText offset" unfolding x using dt(2) by simp
  have rd: "readUTC x = s" unfolding x by (rule dt(1))
  have ns: "0 \<le> t mod Second" "t mod Second < Second" by (simp_all add: Second_def)
  have t: "t = t div Second * Second + t mod Second" by simp
  from fraction_reads [OF ns] show ?thesis
  proof cases
    case 1
    then show ?thesis using zc zn(1) t unfolding readRFC3339_def Let_def rest rd by (auto simp: s_def readFraction_def decimalNat_def)
  next
    case (2 ds)
    have "\<not> isDecimal zc" using zc(2) by (auto simp: isDecimal_def)
    then have "takeWhile isDecimal (ds @ zoneText offset) = ds" using 2(2) by (simp add: zc(1) takeWhile_append2)
    then show ?thesis using 2 zn(1) t unfolding readRFC3339_def Let_def rest rd by (simp add: s_def)
  qed
qed

end
