(* ===== verification/JsonText.thy ===== *)
theory JsonText
  imports Json
begin

text \<open>
  What the program uses of \<open>encoding/json\<close> to write text: \<open>json.Indent\<close> for the payload on the detail page.
  The functions go through the text byte by byte and know whether they are inside a string and whether the
  last byte there was a backslash.
\<close>

section \<open>Space between tokens\<close>

text \<open>The place in the text: between tokens, in a string, or after a backslash in a string.\<close>

datatype place = Between | InString | Escaped

definition placeAfter :: "place \<Rightarrow> char \<Rightarrow> place" where
  "placeAfter p c = (case p of
     Between \<Rightarrow> if c = CHR 0x22 then InString else Between
   | InString \<Rightarrow> if c = CHR 0x5C then Escaped else if c = CHR 0x22 then Between else InString
   | Escaped \<Rightarrow> InString)"

text \<open>The text without the space between its tokens.\<close>

fun dropSpace :: "place \<Rightarrow> string \<Rightarrow> string" where
  "dropSpace p [] = []"
| "dropSpace p (c # cs) = (if p = Between \<and> isJsonSpace c then dropSpace p cs else c # dropSpace (placeAfter p c) cs)"

section \<open>Indentation\<close>

definition appendNewline :: "nat \<Rightarrow> string" where
  "appendNewline depth = CHR 0x0A # concat (replicate depth ''  '')"

text \<open>
  The loop of \<open>appendIndent\<close> with the prefix empty and two spaces of indentation. \<open>need\<close> says that an object or
  array was opened and its first line is still to come, so that an empty one stays on its line.
\<close>

fun indentLoop :: "place \<Rightarrow> bool \<Rightarrow> nat \<Rightarrow> string \<Rightarrow> string" where
  "indentLoop p need depth [] = []"
| "indentLoop p need depth (c # cs) =
     (if p \<noteq> Between then c # indentLoop (placeAfter p c) need depth cs
      else if isJsonSpace c then indentLoop p need depth cs
      else if c = CHR 0x7D \<or> c = CHR '']'' then
        (if need then c # indentLoop p False depth cs
         else appendNewline (depth - 1) @ c # indentLoop p False (depth - 1) cs)
      else
        (let depth' = (if need then Suc depth else depth)
         in (if need then appendNewline depth' else [])
            @ (if c = CHR 0x7B \<or> c = CHR ''['' then c # indentLoop p True depth' cs
               else if c = CHR '','' then c # appendNewline depth' @ indentLoop p False depth' cs
               else if c = CHR '':'' then c # CHR '' '' # indentLoop p False depth' cs
               else c # indentLoop (placeAfter p c) False depth' cs)))"

text \<open>Space before the value is dropped, space after it is kept.\<close>

definition trailingSpace :: "string \<Rightarrow> string" where
  "trailingSpace s = rev (takeWhile isJsonSpace (rev s))"

definition jsonIndent :: "string \<Rightarrow> string option" where
  "jsonIndent src =
     (if jsonValid src
      then let s = skipSpace src; trail = trailingSpace s
        in Some (indentLoop Between False 0 (take (length s - length trail) s) @ trail)
      else None)"

section \<open>Indentation changes space only\<close>

lemma dropSpace_spaces: "\<forall>c \<in> set u. isJsonSpace c \<Longrightarrow> dropSpace Between (u @ s) = dropSpace Between s"
  by (induction u) auto

lemma space_appendNewline: "\<forall>c \<in> set (appendNewline d). isJsonSpace c"
  by (auto simp: appendNewline_def isJsonSpace_def)

lemmas dropSpace_newline = dropSpace_spaces [OF space_appendNewline]

lemma placeAfter_Between: "c \<noteq> CHR 0x22 \<Longrightarrow> placeAfter Between c = Between"
  by (simp add: placeAfter_def)

lemma dropSpace_indentLoop: "dropSpace p (indentLoop p need depth s) = dropSpace p s"
proof (induction p need depth s rule: indentLoop.induct)
  case (2 p need depth c cs)
  show ?case
  proof (cases "p = Between")
    case True
    have sp: "isJsonSpace (CHR '' '')" by (simp add: isJsonSpace_def)
    have "\<not> isJsonSpace c \<Longrightarrow> c = CHR 0x7D \<or> c = CHR '']'' \<or> c = CHR 0x7B \<or> c = CHR ''['' \<or> c = CHR '','' \<or> c = CHR '':''
        \<Longrightarrow> placeAfter Between c = Between" by (auto simp: placeAfter_def)
    then show ?thesis using 2 True sp by (auto simp: dropSpace_newline placeAfter_Between Let_def)
  qed (use 2 in simp)
qed simp

lemma dropSpace_append: "dropSpace p (u @ v) = dropSpace p u @ dropSpace (foldl placeAfter p u) v"
  by (induction p u rule: dropSpace.induct) (auto simp: placeAfter_def isJsonSpace_def)

lemma placeAfter_spaces: "\<forall>c \<in> set u. isJsonSpace c \<Longrightarrow> foldl placeAfter Between u = Between"
  by (induction u) (auto simp: placeAfter_def isJsonSpace_def)

lemmas placeAfter_newline = placeAfter_spaces [OF space_appendNewline]

lemma place_indentLoop: "foldl placeAfter p (indentLoop p need depth s) = foldl placeAfter p s"
proof (induction p need depth s rule: indentLoop.induct)
  case (2 p need depth c cs)
  show ?case
  proof (cases "p = Between")
    case True
    have sp: "isJsonSpace c \<Longrightarrow> placeAfter Between c = Between" "placeAfter Between (CHR '' '') = Between"
      by (auto simp: placeAfter_def isJsonSpace_def)
    show ?thesis using 2 True sp by (auto simp: placeAfter_newline placeAfter_Between Let_def)
  qed (use 2 in simp)
qed simp

lemma trailingSpace_split: "take (length s - length (trailingSpace s)) s @ trailingSpace s = s"
proof -
  have "rev (takeWhile isJsonSpace (rev s) @ dropWhile isJsonSpace (rev s)) = s" by (simp only: takeWhile_dropWhile_id rev_rev_ident)
  then have s: "s = rev (dropWhile isJsonSpace (rev s)) @ trailingSpace s" unfolding trailingSpace_def rev_append by (rule sym)
  then have "length s - length (trailingSpace s) = length (rev (dropWhile isJsonSpace (rev s)))"
    by (metis add_diff_cancel_right' length_append)
  with s show ?thesis by (metis append_eq_conv_conj)
qed

lemma dropSpace_skipSpace: "dropSpace Between (skipSpace s) = dropSpace Between s"
  unfolding skipSpace_def by (metis dropSpace_spaces set_takeWhileD takeWhile_dropWhile_id)

text \<open>The indented text has the same tokens: the two texts agree once the space between tokens is dropped.\<close>

lemma jsonIndent_tokens:
  assumes "jsonIndent s = Some t"
  shows "dropSpace Between t = dropSpace Between s"
proof -
  let ?s = "skipSpace s"
  let ?b = "take (length ?s - length (trailingSpace ?s)) ?s"
  have "t = indentLoop Between False 0 ?b @ trailingSpace ?s"
    using assms by (simp add: jsonIndent_def Let_def split: if_splits)
  then have "dropSpace Between t = dropSpace Between (?b @ trailingSpace ?s)"
    by (simp add: dropSpace_append dropSpace_indentLoop place_indentLoop)
  then show ?thesis by (simp add: trailingSpace_split dropSpace_skipSpace)
qed


lemma in_appendNewline: "x \<in> set (appendNewline d) \<Longrightarrow> isJsonSpace x"
  using space_appendNewline by blast

lemma in_indentLoop: "x \<in> set (indentLoop p need depth s) \<Longrightarrow> x \<in> set s \<or> isJsonSpace x"
proof (induction p need depth s rule: indentLoop.induct)
  case (2 p need depth c cs)
  have "isJsonSpace (CHR '' '')" by (simp add: isJsonSpace_def)
  with 2 show ?case by (auto simp: Let_def dest: in_appendNewline split: if_splits)
qed simp

lemma set_indentLoop: "set (indentLoop p need depth s) \<subseteq> set s \<union> {c. isJsonSpace c}"
  using in_indentLoop by blast

lemma set_jsonIndent: "jsonIndent s = Some t \<Longrightarrow> set t \<subseteq> set s \<union> {c. isJsonSpace c}"
proof -
  assume "jsonIndent s = Some t"
  then have t: "t = indentLoop Between False 0 (take (length (skipSpace s) - length (trailingSpace (skipSpace s))) (skipSpace s))
      @ trailingSpace (skipSpace s)"
    by (simp add: jsonIndent_def Let_def split: if_splits)
  have "set (skipSpace s) \<subseteq> set s" unfolding skipSpace_def using set_dropWhileD by fastforce
  moreover have "set (trailingSpace (skipSpace s)) \<subseteq> {c. isJsonSpace c}" by (auto simp: trailingSpace_def dest: set_takeWhileD)
  ultimately show ?thesis unfolding t using set_indentLoop set_take_subset by (fastforce simp del: indentLoop.simps)
qed

end
