(* ===== verification/Dashboard.thy ===== *)
theory Dashboard
  imports HttpTasks MetricsExport Calendar JsonText
begin

text \<open>
  The dashboard of \<open>internal/httpserver/dashboard.go\<close>, the metrics endpoint and the routes of
  \<open>server.go\<close>. A page is given by the view its template is executed with; \<open>templateErr\<close> is the error of that
  execution. The text of the pages is in \<open>Templates\<close>.
\<close>

section \<open>Views\<close>

record statusCountView =
  cvStatus :: Status
  cvCount :: int

record dashboardSnapshot =
  dsQueueBacklog :: int
  dsRunningTasks :: int

record dashboardView =
  dvGeneratedAt :: Time
  dvTotalTasks :: int
  dvStatusCounts :: "statusCountView list"
  dvSnapshot :: dashboardSnapshot
  dvRecentTasks :: "Task list"
  dvRecentFailed :: "Task list"
  dvRecentDead :: "Task list"

record dashboardTaskDetailView =
  tdTask :: Task

text \<open>A failed rendering ends in an error text after whatever part of the page was written.\<close>

datatype html_response =
    DashboardPage dashboardView
  | DetailPage dashboardTaskDetailView
  | HttpError int string
  | RenderFailed int string

definition recentDashboardLimit :: int where "recentDashboardLimit = 5"
definition recentTaskListLimit :: int where "recentTaskListLimit = 10"

definition dashboardStatusCounts :: "(Status \<rightharpoonup> int) \<Rightarrow> statusCountView list" where
  "dashboardStatusCounts counts =
     map (\<lambda>status. \<lparr>cvStatus = status, cvCount = (case counts status of None \<Rightarrow> 0 | Some n \<Rightarrow> n)\<rparr>)
       [StatusScheduled, StatusPending, StatusRunning, StatusSuccess, StatusFailed, StatusRetrying, StatusDead]"

definition handleDashboard :: "'r CreatorGetter \<Rightarrow> (dashboardView \<Rightarrow> goerror option) \<Rightarrow> 'r world \<Rightarrow> html_response \<times> 'r world" where
  "handleDashboard tasks templateErr w =
     (case timeNow w of (now, w1) \<Rightarrow>
      case cgCountByStatus tasks w1 of
        (Inl _, w2) \<Rightarrow> (HttpError 500 ''load dashboard status counts failed'', w2)
      | (Inr counts, w2) \<Rightarrow>
          (case cgMetricsSnapshot tasks now w2 of
             (Inl _, w3) \<Rightarrow> (HttpError 500 ''load dashboard metrics snapshot failed'', w3)
           | (Inr snapshot, w3) \<Rightarrow>
               (case cgRecentByStatus tasks StatusFailed recentDashboardLimit w3 of
                  (Inl _, w4) \<Rightarrow> (HttpError 500 ''load recent failed tasks failed'', w4)
                | (Inr recentFailed, w4) \<Rightarrow>
                    (case cgRecentByStatus tasks StatusDead recentDashboardLimit w4 of
                       (Inl _, w5) \<Rightarrow> (HttpError 500 ''load recent dead tasks failed'', w5)
                     | (Inr recentDead, w5) \<Rightarrow>
                         (case cgRecent tasks recentTaskListLimit w5 of
                            (Inl _, w6) \<Rightarrow> (HttpError 500 ''load recent tasks failed'', w6)
                          | (Inr recentTasks, w6) \<Rightarrow>
                              let statusCounts = dashboardStatusCounts counts;
                                  view = \<lparr>dvGeneratedAt = now,
                                    dvTotalTasks = foldl (\<lambda>total c. wrap64 (total + cvCount c)) 0 statusCounts,
                                    dvStatusCounts = statusCounts,
                                    dvSnapshot = \<lparr>dsQueueBacklog = QueueBacklog snapshot, dsRunningTasks = RunningTasks snapshot\<rparr>,
                                    dvRecentTasks = recentTasks, dvRecentFailed = recentFailed, dvRecentDead = recentDead\<rparr>
                              in case templateErr view of
                                   Some _ \<Rightarrow> (RenderFailed 500 ''render dashboard failed'', w6)
                                 | None \<Rightarrow> (DashboardPage view, w6))))))"

definition handleDashboardTaskDetail :: "'r CreatorGetter \<Rightarrow> (dashboardTaskDetailView \<Rightarrow> goerror option) \<Rightarrow> string \<Rightarrow> 'r world
    \<Rightarrow> html_response \<times> 'r world" where
  "handleDashboardTaskDetail tasks templateErr pathID w =
     (let i = TrimSpace pathID
      in if i = '''' then (HttpError 400 ''task id is required'', w)
         else case cgGet tasks i w of
           (Inl err, w1) \<Rightarrow>
             if errorsIs err ErrNotFound then (HttpError 404 ''task not found'', w1)
             else (HttpError 500 ''load task detail failed'', w1)
         | (Inr found, w1) \<Rightarrow>
             (case templateErr \<lparr>tdTask = found\<rparr> of
                Some _ \<Rightarrow> (RenderFailed 500 ''render task detail failed'', w1)
              | None \<Rightarrow> (DetailPage \<lparr>tdTask = found\<rparr>, w1)))"

definition handleMetrics :: "(Time \<Rightarrow> 'r world \<Rightarrow> (goerror + Snapshot) \<times> 'r world) option \<Rightarrow> (float64 \<Rightarrow> string)
    \<Rightarrow> writer \<Rightarrow> 'r world \<Rightarrow> (html_response option \<times> writer) \<times> 'r world" where
  "handleMetrics provider fmtG wr w =
     (case WritePrometheus provider fmtG wr w of
        ((Some err, wr1), w1) \<Rightarrow> ((Some (HttpError 500 ''collect metrics failed''), wr1), w1)
      | ((None, wr1), w1) \<Rightarrow> ((None, wr1), w1))"

section \<open>Helpers of the templates\<close>

definition formatDashboardTime :: "Time \<Rightarrow> string" where
  "formatDashboardTime value = (if timeIsZero value then ''-'' else formatUTC value)"

definition formatDashboardOptionalTime :: "Time option \<Rightarrow> string" where
  "formatDashboardOptionalTime value = (case value of None \<Rightarrow> ''-'' | Some t \<Rightarrow> formatDashboardTime t)"

definition dashboardLastError :: "string option \<Rightarrow> string" where
  "dashboardLastError value = (case value of None \<Rightarrow> ''-'' | Some s \<Rightarrow> if s = '''' then ''-'' else s)"

definition dashboardTaskDetailPath :: "string \<Rightarrow> string" where
  "dashboardTaskDetailPath i = ''/dashboard/tasks/'' @ i"

definition dashboardTaskStatusClass :: "Status \<Rightarrow> string" where
  "dashboardTaskStatusClass status = status"

definition dashboardStringValue :: "string option \<Rightarrow> string" where
  "dashboardStringValue value = (case value of None \<Rightarrow> ''-'' | Some s \<Rightarrow> if s = '''' then ''-'' else s)"

definition dashboardPrettyJSON :: "string \<Rightarrow> string" where
  "dashboardPrettyJSON payload =
     (if payload = '''' then ''{}'' else case jsonIndent payload of None \<Rightarrow> payload | Some formatted \<Rightarrow> formatted)"

section \<open>Properties\<close>

lemma valid_statuses: "IsValid s \<longleftrightarrow> s \<in> set [StatusScheduled, StatusPending, StatusRunning, StatusSuccess,
    StatusFailed, StatusRetrying, StatusDead]"
  by (auto simp: IsValid_def)

lemma foldl_wrap64:
  assumes "\<forall>x \<in> set xs. 0 \<le> x" "0 \<le> a" "a + sum_list xs \<le> maxInt"
  shows "foldl (\<lambda>t x. wrap64 (t + x)) a xs = a + sum_list xs"
  using assms
proof (induction xs arbitrary: a)
  case (Cons x xs)
  have "0 \<le> sum_list xs" by (rule sum_list_nonneg) (use Cons.prems(1) in auto)
  then have "wrap64 (a + x) = a + x" using Cons.prems by (intro wrap64_id) (auto simp: minInt_def)
  then show ?case using Cons.IH [of "a + x"] Cons.prems by simp
qed simp

lemma foldl_map_count: "foldl (\<lambda>t c. wrap64 (t + cvCount c)) a cs = foldl (\<lambda>t x. wrap64 (t + x)) a (map cvCount cs)"
  by (induction cs arbitrary: a) auto

text \<open>The figures of the dashboard agree with the table. The statuses appear in the fixed order, each
  with the number of tasks in that status in the table the first statement found, and the total is the
  number of all its tasks, each counted once (as long as there are fewer than 2 ^ 63).\<close>

theorem dashboard_counts_every_task:
  assumes "sound w" "handleDashboard (serviceStore (appService p q)) templateErr w = (DashboardPage v, w')"
    and "int (length (pgTable w)) \<le> maxInt"
  shows "dvTotalTasks v = int (length (pgTable w))
    \<and> dvStatusCounts v = map (\<lambda>s. \<lparr>cvStatus = s, cvCount = int (length (filter (\<lambda>r. c_status r = s) (pgTable w)))\<rparr>)
        [StatusScheduled, StatusPending, StatusRunning, StatusSuccess, StatusFailed, StatusRetrying, StatusDead]"
proof -
  let ?ss = "[StatusScheduled, StatusPending, StatusRunning, StatusSuccess, StatusFailed, StatusRetrying, StatusDead]"
  let ?n = "\<lambda>s. int (length (filter (\<lambda>r. c_status r = s) (pgTable w)))"
  obtain now w1 where n: "timeNow w = (now, w1)" by fastforce
  have w1: "pgNext w1 = pgNext w" "pgTable w1 = pgTable w" using n by (auto simp: timeNow_def pgNext_def pgTable_def)
  from assms(2) n obtain counts w2 where c: "CountByStatus w1 = (Inr counts, w2)"
    by (cases "CountByStatus w1" rule: prod.exhaust; cases "fst (CountByStatus w1)")
      (auto simp: handleDashboard_def serviceStore_def ServiceCountByStatus_def appService_def pgCreatorGetter_def)
  have v: "dvStatusCounts v = dashboardStatusCounts counts"
    "dvTotalTasks v = foldl (\<lambda>total c. wrap64 (total + cvCount c)) 0 (dashboardStatusCounts counts)"
    using assms(2) n c
    by (auto simp: handleDashboard_def serviceStore_def ServiceCountByStatus_def appService_def pgCreatorGetter_def Let_def
        split: prod.splits sum.splits option.splits)
  have "(case counts s of None \<Rightarrow> 0 | Some k \<Rightarrow> k) = ?n s" for s
    using pgExec_Inr(1) [OF c [unfolded CountByStatus_def]] w1 by (auto simp: filter_empty_conv)
  then have d: "dashboardStatusCounts counts = map (\<lambda>s. \<lparr>cvStatus = s, cvCount = ?n s\<rparr>) ?ss"
    unfolding dashboardStatusCounts_def by simp
  have "set (map c_status (pgTable w)) \<subseteq> set ?ss"
    using sound_pgTable [OF assms(1)] valid_statuses
    by (auto simp: db_inv_def table_ok_def tasks_check_def tasks_status_check_iff)
  then have s: "(\<Sum>s \<leftarrow> ?ss. ?n s) = int (length (pgTable w))"
    by (intro sum_list_count_partition) (simp_all add: status_simps)
  have "map cvCount (dashboardStatusCounts counts) = map ?n ?ss" by (simp add: d)
  then have "dvTotalTasks v = foldl (\<lambda>t x. wrap64 (t + x)) 0 (map ?n ?ss)"
    unfolding v(2) foldl_map_count by simp
  also have "\<dots> = 0 + (\<Sum>s \<leftarrow> ?ss. ?n s)"
    by (rule foldl_wrap64) (use s assms(3) in \<open>auto\<close>)
  finally show ?thesis using v(1) d s by simp
qed

theorem dashboard_counts_every_task_witness:
  "\<exists>v w'. handleDashboard (serviceStore (sampleService obligingRedis)) (\<lambda>_. None)
       (calmWorld [sampleRow ''a'' StatusPending] ()) = (DashboardPage v, w') \<and> dvTotalTasks v = 1"
proof -
  let ?w = "calmWorld [sampleRow ''a'' StatusPending] ()"
  have s: "sound ?w" by simp
  obtain v w' where d: "handleDashboard (serviceStore (sampleService obligingRedis)) (\<lambda>_. None) ?w = (DashboardPage v, w')"
    by (simp add: handleDashboard_def serviceStore_def ServiceCountByStatus_def ServiceMetricsSnapshot_def
        ServiceRecentByStatus_def ServiceRecent_def sampleService_def appService_def pgCreatorGetter_def timeNow_def
        CountByStatus_def MetricsSnapshot_def RecentByStatus_def Recent_def pgExec_def pgSelect_def scanRows_def Let_def
        recentDashboardLimit_def recentTaskListLimit_def)
  from dashboard_counts_every_task [OF s d [unfolded sampleService_def]] d show ?thesis by (auto simp: maxInt_def)
qed

end
