(* ===== verification/Html.thy ===== *)
theory Html
  imports Json
begin

text \<open>
  What the program uses of \<open>html/template\<close>: the escapers that the package inserts into a template, by the place
  of an action in the page (text, the title, a quoted attribute, the URL of a link), and what a browser reads
  back from the escaped text.
\<close>

section \<open>Escapers\<close>

text \<open>\<open>htmlReplacementTable\<close>. The replacer works rune by rune, but only ASCII runes have a replacement, and no
  byte of a longer rune is ASCII.\<close>

definition htmlReplacement :: "char \<Rightarrow> string" where
  "htmlReplacement c =
     (if c = CHR 0x00 then [CHR 0xEF, CHR 0xBF, CHR 0xBD]
      else if c = CHR 0x22 then ''&#34;'' else if c = CHR ''&'' then ''&amp;''
      else if c = CHR 0x27 then ''&#39;'' else if c = CHR ''+'' then ''&#43;''
      else if c = CHR ''<'' then ''&lt;'' else if c = CHR ''>'' then ''&gt;'' else [c])"

definition htmlReplacer :: "string \<Rightarrow> string" where
  "htmlReplacer s = concat (map htmlReplacement s)"

text \<open>The escapers of plain strings: in text, in the title, in a quoted attribute.\<close>

definition htmlEscaper :: "string \<Rightarrow> string" where "htmlEscaper s = htmlReplacer s"
definition rcdataEscaper :: "string \<Rightarrow> string" where "rcdataEscaper s = htmlReplacer s"
definition attrEscaper :: "string \<Rightarrow> string" where "attrEscaper s = htmlReplacer s"

text \<open>\<open>urlFilter\<close> lets through a relative URL and the schemes http, https and mailto.\<close>

definition isSafeURL :: "string \<Rightarrow> bool" where
  "isSafeURL s =
     (let protocol = takeWhile (\<lambda>c. c \<noteq> CHR '':'') s
      in CHR '':'' \<in> set s \<and> CHR ''/'' \<notin> set protocol \<longrightarrow>
         foldName protocol \<in> {''HTTP'', ''HTTPS'', ''MAILTO''})"

definition urlFilter :: "string \<Rightarrow> string" where
  "urlFilter s = (if isSafeURL s then s else ''#ZgotmplZ'')"

text \<open>\<open>urlNormalizer\<close> leaves reserved and unreserved characters and valid escapes alone.\<close>

definition urlReserved :: "char \<Rightarrow> bool" where
  "urlReserved c \<longleftrightarrow> c \<in> set ''!#$&*+,/:;=?@[]''"

definition urlUnreserved :: "char \<Rightarrow> bool" where
  "urlUnreserved c \<longleftrightarrow>
     (let n = byteOf c
      in c \<in> set ''-._~'' \<or> 97 \<le> n \<and> n \<le> 122 \<or> 65 \<le> n \<and> n \<le> 90 \<or> 48 \<le> n \<and> n \<le> 57)"

definition percent :: "char \<Rightarrow> string" where
  "percent c = [CHR ''%'', hexDigit (byteOf c div 16), hexDigit (byteOf c mod 16)]"

fun validEscape :: "string \<Rightarrow> bool" where
  "validEscape (a # b # _) \<longleftrightarrow> hexValue a \<noteq> None \<and> hexValue b \<noteq> None"
| "validEscape _ \<longleftrightarrow> False"

fun urlNormalizer :: "string \<Rightarrow> string" where
  "urlNormalizer [] = []"
| "urlNormalizer (c # cs) =
     (if urlReserved c \<or> urlUnreserved c \<or> c = CHR ''%'' \<and> validEscape cs then [c] else percent c) @ urlNormalizer cs"

text \<open>The URL of a link, in a quoted attribute.\<close>

definition hrefEscaper :: "string \<Rightarrow> string" where
  "hrefEscaper s = attrEscaper (urlNormalizer (urlFilter s))"

section \<open>What a browser reads\<close>

text \<open>The character references that the escapers write, and everything else as it is.\<close>

definition htmlReferences :: "(string \<times> char) list" where
  "htmlReferences = [(''&#34;'', CHR 0x22), (''&amp;'', CHR ''&''), (''&#39;'', CHR 0x27), (''&#43;'', CHR ''+''),
     (''&lt;'', CHR ''<''), (''&gt;'', CHR ''>'')]"

fun htmlUnescape :: "string \<Rightarrow> string" where
  "htmlUnescape [] = []"
| "htmlUnescape (c # s) =
     (case find (\<lambda>(r, x). take (length r) (c # s) = r) htmlReferences of
        Some (r, x) \<Rightarrow> x # htmlUnescape (drop (length r - 1) s)
      | None \<Rightarrow> c # htmlUnescape s)"

declare htmlUnescape.simps(2) [simp del]

lemma htmlReplacer_simps [simp]:
  "htmlReplacer [] = []" "htmlReplacer (c # s) = htmlReplacement c @ htmlReplacer s"
  "htmlReplacer (s @ t) = htmlReplacer s @ htmlReplacer t"
  by (simp_all add: htmlReplacer_def)

lemma htmlUnescape_reference:
  "htmlUnescape (''&#34;'' @ s) = CHR 0x22 # htmlUnescape s" "htmlUnescape (''&amp;'' @ s) = CHR ''&'' # htmlUnescape s"
  "htmlUnescape (''&#39;'' @ s) = CHR 0x27 # htmlUnescape s" "htmlUnescape (''&#43;'' @ s) = CHR ''+'' # htmlUnescape s"
  "htmlUnescape (''&lt;'' @ s) = CHR ''<'' # htmlUnescape s" "htmlUnescape (''&gt;'' @ s) = CHR ''>'' # htmlUnescape s"
  by (simp_all add: htmlUnescape.simps(2) htmlReferences_def)

lemma htmlUnescape_other: "c \<noteq> CHR ''&'' \<Longrightarrow> htmlUnescape (c # s) = c # htmlUnescape s"
  by (simp add: htmlUnescape.simps(2) htmlReferences_def)

text \<open>A browser shows exactly the text that was escaped.\<close>

lemma htmlUnescape_replacement:
  "c \<noteq> CHR 0x00 \<Longrightarrow> htmlUnescape (htmlReplacement c @ s) = c # htmlUnescape s"
  by (simp add: htmlReplacement_def htmlUnescape_reference htmlUnescape_other del: append.simps)
    (simp add: htmlUnescape_other)

lemma htmlUnescape_htmlReplacer: "CHR 0x00 \<notin> set s \<Longrightarrow> htmlUnescape (htmlReplacer s) = s"
  by (induction s) (auto simp: htmlUnescape_replacement)

text \<open>The characters that delimit tags and attribute values.\<close>

definition isMarkup :: "char \<Rightarrow> bool" where
  "isMarkup c \<longleftrightarrow> c \<in> {CHR ''<'', CHR ''>'', CHR 0x22, CHR 0x27}"

lemma htmlReplacer_no_markup: "filter isMarkup (htmlReplacer s) = []"
  by (induction s) (auto simp: htmlReplacement_def isMarkup_def)

lemmas escaper_defs = htmlEscaper_def rcdataEscaper_def attrEscaper_def hrefEscaper_def

text \<open>The path of a link is not changed when it is made of ordinary characters.\<close>

lemma urlNormalizer_id: "\<forall>c \<in> set s. urlReserved c \<or> urlUnreserved c \<Longrightarrow> urlNormalizer s = s"
  by (induction s) auto

lemma isSafeURL_rooted: "isSafeURL (CHR ''/'' # s)"
  by (simp add: isSafeURL_def)

end
