(* ===== verification/Templates.thy ===== *)
theory Templates
  imports Dashboard Html
begin

text \<open>
  The pages of the dashboard, \<open>internal/httpserver/templates\<close>: each template as the text that its execution
  writes. The static text is that of the files, a line as its number of tabs and the rest; an action is the
  value of its pipeline through the escaper that \<open>html/template\<close> chooses for its place. The functions a
  template calls are those of the function maps of \<open>dashboard.go\<close>.
\<close>

section \<open>Text\<close>

fun lay :: "(nat \<times> string) list \<Rightarrow> string" where
  "lay [] = []"
| "lay [(n, s)] = replicate n (CHR 0x09) @ s"
| "lay ((n, s) # l # ls) = replicate n (CHR 0x09) @ s @ CHR 0x0A # lay (l # ls)"

section \<open>The dashboard\<close>

definition dashboardHead :: "string" where
  \<open>dashboardHead =
     lay [(0, ''<!doctype html>''),
       (0, ''<html lang="en">''),
       (0, ''<head>''),
       (0, ''<meta charset="utf-8">''),
       (0, ''<meta name="viewport" content="width=device-width, initial-scale=1">''),
       (0, ''<title>GoTaskQueue Dashboard</title>''),
       (0, ''<style>''),
       (0, '':root {''),
       (1, ''color-scheme: light;''),
       (1, ''--bg: #f7f8fa;''),
       (1, ''--panel: #ffffff;''),
       (1, ''--text: #17202a;''),
       (1, ''--muted: #5d6977;''),
       (1, ''--line: #dfe4ea;''),
       (1, ''--accent: #0f766e;''),
       (1, ''--danger: #b42318;''),
       (1, ''--warn: #b54708;''),
       (1, ''--ink-soft: #eef6f5;''),
       (0, ''}''),
       (0, ''* { box-sizing: border-box; }''),
       (0, ''body {''),
       (1, ''margin: 0;''),
       (1, ''background: var(--bg);''),
       (1, ''color: var(--text);''),
       (1, ''font-family: ui-sans-serif, system-ui, -apple-system, BlinkMacSystemFont, "Segoe UI", sans-serif;''),
       (1, ''font-size: 14px;''),
       (1, ''line-height: 1.4;''),
       (0, ''}''),
       (0, ''main {''),
       (1, ''max-width: 1180px;''),
       (1, ''margin: 0 auto;''),
       (1, ''padding: 28px 20px 40px;''),
       (0, ''}''),
       (0, ''header {''),
       (1, ''display: flex;''),
       (1, ''align-items: baseline;''),
       (1, ''justify-content: space-between;''),
       (1, ''gap: 16px;''),
       (1, ''margin-bottom: 22px;''),
       (0, ''}''),
       (0, ''h1, h2 { margin: 0; letter-spacing: 0; }''),
       (0, ''h1 { font-size: 28px; font-weight: 700; }''),
       (0, ''h2 { font-size: 16px; font-weight: 700; }''),
       (0, ''a { color: var(--accent); text-decoration: none; }''),
       (0, ''a:hover { text-decoration: underline; }''),
       (0, ''.muted { color: var(--muted); }''),
       (0, ''.overview {''),
       (1, ''display: grid;''),
       (1, ''grid-template-columns: repeat(3, minmax(0, 1fr));''),
       (1, ''gap: 12px;''),
       (1, ''margin-bottom: 18px;''),
       (0, ''}''),
       (0, ''.metric, .panel {''),
       (1, ''background: var(--panel);''),
       (1, ''border: 1px solid var(--line);''),
       (1, ''border-radius: 8px;''),
       (0, ''}''),
       (0, ''.metric { padding: 16px; }''),
       (0, ''.metric .label {''),
       (1, ''color: var(--muted);''),
       (1, ''font-size: 12px;''),
       (1, ''text-transform: uppercase;''),
       (1, ''font-weight: 700;''),
       (0, ''}''),
       (0, ''.metric .value {''),
       (1, ''font-size: 30px;''),
       (1, ''font-weight: 750;''),
       (1, ''margin-top: 6px;''),
       (0, ''}''),
       (0, ''.grid {''),
       (1, ''display: grid;''),
       (1, ''grid-template-columns: minmax(0, 0.9fr) minmax(0, 1.1fr);''),
       (1, ''gap: 16px;''),
       (1, ''align-items: start;''),
       (0, ''}''),
       (0, ''.panel { padding: 16px; }''),
       (0, ''.status-list {''),
       (1, ''display: grid;''),
       (1, ''grid-template-columns: repeat(2, minmax(0, 1fr));''),
       (1, ''gap: 8px;''),
       (1, ''margin-top: 14px;''),
       (0, ''}''),
       (0, ''.status {''),
       (1, ''display: flex;''),
       (1, ''justify-content: space-between;''),
       (1, ''gap: 12px;''),
       (1, ''padding: 10px 12px;''),
       (1, ''border: 1px solid var(--line);''),
       (1, ''border-radius: 6px;''),
       (1, ''background: #fbfcfd;''),
       (0, ''}''),
       (0, ''.status code {''),
       (1, ''font-family: ui-monospace, SFMono-Regular, Menlo, monospace;''),
       (0, ''}''),
       (0, ''table {''),
       (1, ''width: 100%;''),
       (1, ''border-collapse: collapse;''),
       (1, ''margin-top: 12px;''),
       (0, ''}''),
       (0, ''th, td {''),
       (1, ''text-align: left;''),
       (1, ''border-bottom: 1px solid var(--line);''),
       (1, ''padding: 10px 8px;''),
       (1, ''vertical-align: top;''),
       (0, ''}''),
       (0, ''th {''),
       (1, ''color: var(--muted);''),
       (1, ''font-size: 12px;''),
       (1, ''font-weight: 700;''),
       (1, ''text-transform: uppercase;''),
       (0, ''}''),
       (0, ''td code {''),
       (1, ''font-family: ui-monospace, SFMono-Regular, Menlo, monospace;''),
       (1, ''font-size: 12px;''),
       (1, ''word-break: break-word;''),
       (0, ''}''),
       (0, ''.error {''),
       (1, ''color: var(--danger);''),
       (1, ''max-width: 360px;''),
       (1, ''word-break: break-word;''),
       (0, ''}''),
       (0, ''.stack {''),
       (1, ''display: grid;''),
       (1, ''gap: 16px;''),
       (0, ''}''),
       (0, ''.table-wrap {''),
       (1, ''margin-top: 12px;''),
       (1, ''overflow-x: auto;''),
       (0, ''}''),
       (0, ''.task-link {''),
       (1, ''font-weight: 700;''),
       (0, ''}''),
       (0, ''.status-pill {''),
       (1, ''display: inline-flex;''),
       (1, ''align-items: center;''),
       (1, ''padding: 3px 8px;''),
       (1, ''border-radius: 999px;''),
       (1, ''font-size: 12px;''),
       (1, ''font-weight: 700;''),
       (1, ''border: 1px solid var(--line);''),
       (1, ''background: #fbfcfd;''),
       (0, ''}''),
       (0, ''.status-pill.success { color: #027a48; background: #ecfdf3; border-color: #abefc6; }''),
       (0, ''.status-pill.failed, .status-pill.dead { color: var(--danger); background: #fef3f2; border-color: #fecdca; }''),
       (0, ''.status-pill.retrying, .status-pill.scheduled { color: var(--warn); background: #fffaeb; border-color: #fedf89; }''),
       (0, ''.status-pill.running { color: #175cd3; background: #eff8ff; border-color: #b2ddff; }''),
       (0, ''.status-pill.pending { color: #344054; background: var(--ink-soft); border-color: #cfe7e4; }''),
       (0, ''.empty {''),
       (1, ''margin-top: 12px;''),
       (1, ''padding: 14px;''),
       (1, ''color: var(--muted);''),
       (1, ''background: #fbfcfd;''),
       (1, ''border: 1px solid var(--line);''),
       (1, ''border-radius: 6px;''),
       (0, ''}''),
       (0, ''@media (max-width: 820px) {''),
       (1, ''header { display: block; }''),
       (1, ''.overview, .grid, .status-list { grid-template-columns: 1fr; }''),
       (1, ''main { padding: 22px 14px 32px; }''),
       (0, ''}''),
       (0, ''</style>''),
       (0, '''')]\<close>

definition taskTableRow :: "Task \<Rightarrow> string" where
  \<open>taskTableRow t =
     lay [(0, ''''), (2, ''<tr>''), (3, ''<td><a class="task-link" href="'')]
     @ hrefEscaper (dashboardTaskDetailPath (ID t))
     @ ''"><code>''
     @ htmlEscaper (ID t)
     @ lay [(0, ''</code></a></td>''), (3, ''<td>'')]
     @ htmlEscaper (Type t)
     @ lay [(0, ''</td>''), (3, ''<td>'')]
     @ htmlEscaper (FormatInt (RetryCount t))
     @ '' / ''
     @ htmlEscaper (FormatInt (MaxRetries t))
     @ lay [(0, ''</td>''), (3, ''<td>'')]
     @ htmlEscaper (formatDashboardTime (UpdatedAt t))
     @ lay [(0, ''</td>''), (3, ''<td class="error">'')]
     @ htmlEscaper (dashboardLastError (LastError t))
     @ lay [(0, ''</td>''), (2, ''</tr>''), (2, '''')]\<close>

definition recentTaskTableRow :: "Task \<Rightarrow> string" where
  \<open>recentTaskTableRow t =
     lay [(0, ''''), (2, ''<tr>''), (3, ''<td><a class="task-link" href="'')]
     @ hrefEscaper (dashboardTaskDetailPath (ID t))
     @ ''"><code>''
     @ htmlEscaper (ID t)
     @ lay [(0, ''</code></a></td>''), (3, ''<td><span class="status-pill '')]
     @ attrEscaper (dashboardTaskStatusClass (Status t))
     @ ''">''
     @ htmlEscaper (Status t)
     @ lay [(0, ''</span></td>''), (3, ''<td>'')]
     @ htmlEscaper (Type t)
     @ lay [(0, ''</td>''), (3, ''<td>'')]
     @ htmlEscaper (formatDashboardTime (RunAt t))
     @ lay [(0, ''</td>''), (3, ''<td>'')]
     @ htmlEscaper (formatDashboardTime (UpdatedAt t))
     @ lay [(0, ''</td>''), (2, ''</tr>''), (2, '''')]\<close>

definition taskTable :: "Task list \<Rightarrow> string" where
  \<open>taskTable ts =
     lay [(0, ''''), (0, '''')]
     @ (if ts \<noteq> []
       then lay [(0, ''''),
         (0, ''<div class="table-wrap">''),
         (0, ''<table>''),
         (1, ''<thead>''),
         (2, ''<tr>''),
         (3, ''<th>ID</th>''),
         (3, ''<th>Type</th>''),
         (3, ''<th>Retries</th>''),
         (3, ''<th>Updated</th>''),
         (3, ''<th>Error</th>''),
         (2, ''</tr>''),
         (1, ''</thead>''),
         (1, ''<tbody>''),
         (2, '''')]
       @ concat (map taskTableRow ts)
       @ lay [(0, ''''),
         (1, ''</tbody>''),
         (0, ''</table>''),
         (0, ''</div>''),
         (0, '''')]
       else lay [(0, ''''), (0, ''<div class="empty">No tasks found.</div>''), (0, '''')])
     @ lay [(0, ''''), (0, '''')]\<close>

definition recentTaskTable :: "Task list \<Rightarrow> string" where
  \<open>recentTaskTable ts =
     lay [(0, ''''), (0, '''')]
     @ (if ts \<noteq> []
       then lay [(0, ''''),
         (0, ''<div class="table-wrap">''),
         (0, ''<table>''),
         (1, ''<thead>''),
         (2, ''<tr>''),
         (3, ''<th>ID</th>''),
         (3, ''<th>Status</th>''),
         (3, ''<th>Type</th>''),
         (3, ''<th>Run At</th>''),
         (3, ''<th>Updated</th>''),
         (2, ''</tr>''),
         (1, ''</thead>''),
         (1, ''<tbody>''),
         (2, '''')]
       @ concat (map recentTaskTableRow ts)
       @ lay [(0, ''''),
         (1, ''</tbody>''),
         (0, ''</table>''),
         (0, ''</div>''),
         (0, '''')]
       else lay [(0, ''''), (0, ''<div class="empty">No tasks found.</div>''), (0, '''')])
     @ lay [(0, ''''), (0, '''')]\<close>

definition statusCountItem :: "statusCountView \<Rightarrow> string" where
  \<open>statusCountItem c =
     lay [(0, ''''), (4, ''<div class="status">''), (5, ''<code>'')]
     @ htmlEscaper (cvStatus c)
     @ lay [(0, ''</code>''), (5, ''<strong>'')]
     @ htmlEscaper (FormatInt (cvCount c))
     @ lay [(0, ''</strong>''), (4, ''</div>''), (4, '''')]\<close>

definition dashboardTemplate :: "dashboardView \<Rightarrow> string" where
  \<open>dashboardTemplate v =
     dashboardHead
     @ lay [(0, ''</head>''),
       (0, ''<body>''),
       (0, ''<main>''),
       (1, ''<header>''),
       (2, ''<div>''),
       (3, ''<h1>GoTaskQueue</h1>''),
       (3, ''<div class="muted">Read-only dashboard</div>''),
       (2, ''</div>''),
       (2, ''<div class="muted">Updated '')]
     @ htmlEscaper (formatDashboardTime (dvGeneratedAt v))
     @ lay [(0, ''</div>''),
       (1, ''</header>''),
       (0, ''''),
       (1, ''<section class="overview" aria-label="Task overview">''),
       (2, ''<div class="metric">''),
       (3, ''<div class="label">Total tasks</div>''),
       (3, ''<div class="value">'')]
     @ htmlEscaper (FormatInt (dvTotalTasks v))
     @ lay [(0, ''</div>''),
       (2, ''</div>''),
       (2, ''<div class="metric">''),
       (3, ''<div class="label">Queue backlog</div>''),
       (3, ''<div class="value">'')]
     @ htmlEscaper (FormatInt (dsQueueBacklog (dvSnapshot v)))
     @ lay [(0, ''</div>''),
       (2, ''</div>''),
       (2, ''<div class="metric">''),
       (3, ''<div class="label">Running tasks</div>''),
       (3, ''<div class="value">'')]
     @ htmlEscaper (FormatInt (dsRunningTasks (dvSnapshot v)))
     @ lay [(0, ''</div>''),
       (2, ''</div>''),
       (1, ''</section>''),
       (0, ''''),
       (1, ''<section class="grid">''),
       (2, ''<div class="panel">''),
       (3, ''<h2>Task Status</h2>''),
       (3, ''<div class="status-list">''),
       (4, '''')]
     @ concat (map statusCountItem (dvStatusCounts v))
     @ lay [(0, ''''),
       (3, ''</div>''),
       (2, ''</div>''),
       (0, ''''),
       (2, ''<div class="stack">''),
       (3, ''<div class="panel">''),
       (4, ''<h2>Recent Failed Tasks</h2>''),
       (4, '''')]
     @ taskTable (dvRecentFailed v)
     @ lay [(0, ''''),
       (3, ''</div>''),
       (3, ''<div class="panel">''),
       (4, ''<h2>Recent Dead Tasks</h2>''),
       (4, '''')]
     @ taskTable (dvRecentDead v)
     @ lay [(0, ''''),
       (3, ''</div>''),
       (2, ''</div>''),
       (1, ''</section>''),
       (0, ''''),
       (1, ''<section class="panel" style="margin-top: 16px;">''),
       (2, ''<h2>Recent Tasks</h2>''),
       (2, '''')]
     @ recentTaskTable (dvRecentTasks v)
     @ lay [(0, ''''),
       (1, ''</section>''),
       (0, ''</main>''),
       (0, ''</body>''),
       (0, ''</html>''),
       (0, '''')]
     @ lay [(0, ''''), (0, '''')]
     @ lay [(0, ''''), (0, '''')]\<close>

section \<open>The detail page\<close>

definition detailStyle :: "string" where
  \<open>detailStyle =
     lay [(0, '' - GoTaskQueue</title>''),
       (0, ''<style>''),
       (0, '':root {''),
       (1, ''color-scheme: light;''),
       (1, ''--bg: #f7f8fa;''),
       (1, ''--panel: #ffffff;''),
       (1, ''--text: #17202a;''),
       (1, ''--muted: #5d6977;''),
       (1, ''--line: #dfe4ea;''),
       (1, ''--accent: #0f766e;''),
       (1, ''--danger: #b42318;''),
       (1, ''--warn: #b54708;''),
       (1, ''--ink-soft: #eef6f5;''),
       (0, ''}''),
       (0, ''* { box-sizing: border-box; }''),
       (0, ''body {''),
       (1, ''margin: 0;''),
       (1, ''background: var(--bg);''),
       (1, ''color: var(--text);''),
       (1, ''font-family: ui-sans-serif, system-ui, -apple-system, BlinkMacSystemFont, "Segoe UI", sans-serif;''),
       (1, ''font-size: 14px;''),
       (1, ''line-height: 1.45;''),
       (0, ''}''),
       (0, ''main {''),
       (1, ''max-width: 920px;''),
       (1, ''margin: 0 auto;''),
       (1, ''padding: 28px 20px 40px;''),
       (0, ''}''),
       (0, ''h1, h2 { margin: 0; }''),
       (0, ''h1 { font-size: 28px; font-weight: 700; }''),
       (0, ''h2 { font-size: 16px; font-weight: 700; margin-bottom: 12px; }''),
       (0, ''a { color: var(--accent); text-decoration: none; }''),
       (0, ''a:hover { text-decoration: underline; }''),
       (0, ''.muted { color: var(--muted); }''),
       (0, ''.panel {''),
       (1, ''background: var(--panel);''),
       (1, ''border: 1px solid var(--line);''),
       (1, ''border-radius: 8px;''),
       (1, ''padding: 16px;''),
       (1, ''margin-top: 16px;''),
       (0, ''}''),
       (0, ''.status-pill {''),
       (1, ''display: inline-flex;''),
       (1, ''align-items: center;''),
       (1, ''padding: 4px 9px;''),
       (1, ''border-radius: 999px;''),
       (1, ''font-size: 12px;''),
       (1, ''font-weight: 700;''),
       (1, ''border: 1px solid var(--line);''),
       (1, ''background: #fbfcfd;''),
       (0, ''}''),
       (0, ''.status-pill.success { color: #027a48; background: #ecfdf3; border-color: #abefc6; }''),
       (0, ''.status-pill.failed, .status-pill.dead { color: var(--danger); background: #fef3f2; border-color: #fecdca; }''),
       (0, ''.status-pill.retrying, .status-pill.scheduled { color: var(--warn); background: #fffaeb; border-color: #fedf89; }''),
       (0, ''.status-pill.running { color: #175cd3; background: #eff8ff; border-color: #b2ddff; }''),
       (0, ''.status-pill.pending { color: #344054; background: var(--ink-soft); border-color: #cfe7e4; }''),
       (0, ''.meta {''),
       (1, ''display: grid;''),
       (1, ''grid-template-columns: repeat(2, minmax(0, 1fr));''),
       (1, ''gap: 12px 20px;''),
       (0, ''}''),
       (0, ''.field-label {''),
       (1, ''color: var(--muted);''),
       (1, ''font-size: 12px;''),
       (1, ''font-weight: 700;''),
       (1, ''text-transform: uppercase;''),
       (1, ''margin-bottom: 4px;''),
       (0, ''}''),
       (0, ''code, pre {''),
       (1, ''font-family: ui-monospace, SFMono-Regular, Menlo, monospace;''),
       (0, ''}''),
       (0, ''pre {''),
       (1, ''margin: 0;''),
       (1, ''padding: 14px;''),
       (1, ''border-radius: 8px;''),
       (1, ''border: 1px solid var(--line);''),
       (1, ''background: #fbfcfd;''),
       (1, ''overflow-x: auto;''),
       (1, ''white-space: pre-wrap;''),
       (1, ''word-break: break-word;''),
       (0, ''}''),
       (0, ''@media (max-width: 720px) {''),
       (1, ''main { padding: 22px 14px 32px; }''),
       (1, ''.meta { grid-template-columns: 1fr; }''),
       (0, ''}''),
       (0, ''</style>''),
       (0, '''')]\<close>

text \<open>Everything before the payload.\<close>

definition detailTop :: "Task \<Rightarrow> string" where
  \<open>detailTop t =
     lay [(0, ''<!doctype html>''),
       (0, ''<html lang="en">''),
       (0, ''<head>''),
       (0, ''<meta charset="utf-8">''),
       (0, ''<meta name="viewport" content="width=device-width, initial-scale=1">''),
       (0, ''<title>Task '')]
     @ rcdataEscaper (ID t)
     @ detailStyle
     @ lay [(0, ''</head>''),
       (0, ''<body>''),
       (0, ''<main>''),
       (1, ''<div class="muted"><a href="/dashboard">Back to dashboard</a></div>''),
       (1, ''<div style="margin-top: 12px;">''),
       (2, ''<h1><code>'')]
     @ htmlEscaper (ID t)
     @ lay [(0, ''</code></h1>''), (2, ''<div class="muted" style="margin-top: 8px;">''), (3, ''<span class="status-pill '')]
     @ attrEscaper (dashboardTaskStatusClass (Status t))
     @ ''">''
     @ htmlEscaper (Status t)
     @ lay [(0, ''</span>''), (3, ''<span style="margin-left: 10px;">'')]
     @ htmlEscaper (Type t)
     @ lay [(0, ''</span>''),
       (2, ''</div>''),
       (1, ''</div>''),
       (0, ''''),
       (1, ''<section class="panel">''),
       (2, ''<h2>Task Details</h2>''),
       (2, ''<div class="meta">''),
       (3, ''<div><div class="field-label">Task Type</div><div>'')]
     @ htmlEscaper (Type t)
     @ lay [(0, ''</div></div>''), (3, ''<div><div class="field-label">Idempotency Key</div><div>'')]
     @ (if IdempotencyKey t \<noteq> None
       then ''<code>''
       @ htmlEscaper (dashboardStringValue (IdempotencyKey t))
       @ ''</code>''
       else ''-'')
     @ lay [(0, ''</div></div>''), (3, ''<div><div class="field-label">Retries</div><div>'')]
     @ htmlEscaper (FormatInt (RetryCount t))
     @ '' / ''
     @ htmlEscaper (FormatInt (MaxRetries t))
     @ lay [(0, ''</div></div>''), (3, ''<div><div class="field-label">Timeout Seconds</div><div>'')]
     @ htmlEscaper (FormatInt (TimeoutSeconds t))
     @ lay [(0, ''</div></div>''), (3, ''<div><div class="field-label">Worker ID</div><div>'')]
     @ (if WorkerID t \<noteq> None
       then ''<code>''
       @ htmlEscaper (dashboardStringValue (WorkerID t))
       @ ''</code>''
       else ''-'')
     @ lay [(0, ''</div></div>''), (3, ''<div><div class="field-label">Last Error</div><div>'')]
     @ htmlEscaper (dashboardLastError (LastError t))
     @ lay [(0, ''</div></div>''), (3, ''<div><div class="field-label">Run At</div><div>'')]
     @ htmlEscaper (formatDashboardTime (RunAt t))
     @ lay [(0, ''</div></div>''), (3, ''<div><div class="field-label">Next Retry At</div><div>'')]
     @ htmlEscaper (formatDashboardOptionalTime (NextRetryAt t))
     @ lay [(0, ''</div></div>''), (3, ''<div><div class="field-label">Started At</div><div>'')]
     @ htmlEscaper (formatDashboardOptionalTime (StartedAt t))
     @ lay [(0, ''</div></div>''), (3, ''<div><div class="field-label">Finished At</div><div>'')]
     @ htmlEscaper (formatDashboardOptionalTime (FinishedAt t))
     @ lay [(0, ''</div></div>''), (3, ''<div><div class="field-label">Created At</div><div>'')]
     @ htmlEscaper (formatDashboardTime (CreatedAt t))
     @ lay [(0, ''</div></div>''), (3, ''<div><div class="field-label">Updated At</div><div>'')]
     @ htmlEscaper (formatDashboardTime (UpdatedAt t))
     @ lay [(0, ''</div></div>''),
       (2, ''</div>''),
       (1, ''</section>''),
       (0, ''''),
       (1, ''<section class="panel">''),
       (2, ''<h2>Payload</h2>''),
       (2, '''')]\<close>

definition dashboardTaskDetailTemplate :: "dashboardTaskDetailView \<Rightarrow> string" where
  \<open>dashboardTaskDetailTemplate v = (let t = tdTask v in
     detailTop t
     @ ''<pre>''
     @ htmlEscaper (dashboardPrettyJSON (Payload t))
     @ ''</pre>''
     @ lay [(0, ''''),
       (1, ''</section>''),
       (0, ''</main>''),
       (0, ''</body>''),
       (0, ''</html>''),
       (0, '''')])\<close>

section \<open>Responses\<close>

text \<open>The body of a response: a page, or the message of \<open>http.Error\<close> and a line feed. A page that could not be
  written to its end has no certain body.\<close>

definition htmlBody :: "html_response \<Rightarrow> string option" where
  "htmlBody res = (case res of
     DashboardPage v \<Rightarrow> Some (dashboardTemplate v)
   | DetailPage v \<Rightarrow> Some (dashboardTaskDetailTemplate v)
   | HttpError code msg \<Rightarrow> Some (msg @ [CHR 0x0A])
   | RenderFailed code msg \<Rightarrow> None)"

section \<open>Data cannot become markup\<close>

lemma escaped_no_markup [simp]:
  "filter isMarkup (htmlEscaper s) = []" "filter isMarkup (rcdataEscaper s) = []"
  "filter isMarkup (attrEscaper s) = []" "filter isMarkup (hrefEscaper s) = []"
  by (simp_all add: escaper_defs htmlReplacer_no_markup)

lemma filter_concat_map:
  assumes "\<And>x. filter p (f x) = k"
  shows "filter p (concat (map f xs)) = concat (replicate (length xs) k)"
  by (induction xs) (simp_all add: assms)

lemma statusCountItem_markup: "filter isMarkup (statusCountItem c) = filter isMarkup (statusCountItem c')"
  by (simp add: statusCountItem_def)

lemma taskTableRow_markup: "filter isMarkup (taskTableRow t) = filter isMarkup (taskTableRow t')"
  by (simp add: taskTableRow_def)

lemma recentTaskTableRow_markup: "filter isMarkup (recentTaskTableRow t) = filter isMarkup (recentTaskTableRow t')"
  by (simp add: recentTaskTableRow_def)

lemma same_length_concat:
  assumes "length xs = length ys" "\<And>x y. filter p (f x) = filter p (f y)"
  shows "filter p (concat (map f xs)) = filter p (concat (map f ys))"
  using assms(1) by (induction xs ys rule: list_induct2) (auto simp: assms(2))

lemma tables_markup:
  assumes "length ts = length ts'"
  shows "filter isMarkup (taskTable ts) = filter isMarkup (taskTable ts')"
    "filter isMarkup (recentTaskTable ts) = filter isMarkup (recentTaskTable ts')"
proof -
  have e: "ts \<noteq> [] \<longleftrightarrow> ts' \<noteq> []" using assms by auto
  note rows = same_length_concat [OF assms taskTableRow_markup] same_length_concat [OF assms recentTaskTableRow_markup]
  show "filter isMarkup (taskTable ts) = filter isMarkup (taskTable ts')"
    "filter isMarkup (recentTaskTable ts) = filter isMarkup (recentTaskTable ts')"
    by (simp_all only: taskTable_def recentTaskTable_def e if_distrib [of "filter isMarkup"] filter_append rows)
qed

text \<open>C19. Nothing a client stores can become markup of a page. The quotes and angle brackets of the dashboard are
  decided by the template and the number of listed tasks alone, those of the detail page by the template and
  by whether the task has an idempotency key and a worker; so identifiers, types, errors and payloads can
  neither open a tag nor end an attribute, whatever bytes they contain.\<close>

theorem page_markup_independent_of_data:
  "(length (dvStatusCounts v) = length (dvStatusCounts v') \<and> length (dvRecentTasks v) = length (dvRecentTasks v')
      \<and> length (dvRecentFailed v) = length (dvRecentFailed v') \<and> length (dvRecentDead v) = length (dvRecentDead v')
      \<longrightarrow> filter isMarkup (dashboardTemplate v) = filter isMarkup (dashboardTemplate v'))
    \<and> ((IdempotencyKey t = None \<longleftrightarrow> IdempotencyKey t' = None) \<and> (WorkerID t = None \<longleftrightarrow> WorkerID t' = None)
      \<longrightarrow> filter isMarkup (dashboardTaskDetailTemplate \<lparr>tdTask = t\<rparr>)
          = filter isMarkup (dashboardTaskDetailTemplate \<lparr>tdTask = t'\<rparr>))"
proof (intro conjI impI)
  assume l: "length (dvStatusCounts v) = length (dvStatusCounts v') \<and> length (dvRecentTasks v) = length (dvRecentTasks v')
      \<and> length (dvRecentFailed v) = length (dvRecentFailed v') \<and> length (dvRecentDead v) = length (dvRecentDead v')"
  have "filter isMarkup (taskTable (dvRecentFailed v)) = filter isMarkup (taskTable (dvRecentFailed v'))"
    "filter isMarkup (taskTable (dvRecentDead v)) = filter isMarkup (taskTable (dvRecentDead v'))"
    "filter isMarkup (recentTaskTable (dvRecentTasks v)) = filter isMarkup (recentTaskTable (dvRecentTasks v'))"
    "filter isMarkup (concat (map statusCountItem (dvStatusCounts v))) = filter isMarkup (concat (map statusCountItem (dvStatusCounts v')))"
    using l by (blast intro: tables_markup same_length_concat statusCountItem_markup)+
  then show "filter isMarkup (dashboardTemplate v) = filter isMarkup (dashboardTemplate v')"
    unfolding dashboardTemplate_def filter_append escaped_no_markup by (simp only:)
next
  assume "(IdempotencyKey t = None \<longleftrightarrow> IdempotencyKey t' = None) \<and> (WorkerID t = None \<longleftrightarrow> WorkerID t' = None)"
  then have e: "IdempotencyKey t \<noteq> None \<longleftrightarrow> IdempotencyKey t' \<noteq> None" "WorkerID t \<noteq> None \<longleftrightarrow> WorkerID t' \<noteq> None" by auto
  show "filter isMarkup (dashboardTaskDetailTemplate \<lparr>tdTask = t\<rparr>)
      = filter isMarkup (dashboardTaskDetailTemplate \<lparr>tdTask = t'\<rparr>)"
    by (simp only: dashboardTaskDetailTemplate_def detailTop_def Let_def dashboardTaskDetailView.select_convs e
        if_distrib [of "filter isMarkup"] filter_append escaped_no_markup)
qed


theorem page_markup_independent_of_data_witness:
  "let t = scanTask (sampleRow ''a'' StatusPending)
   in filter isMarkup (dashboardTaskDetailTemplate \<lparr>tdTask = t\<lparr>Type := ''<script>'', Payload := ''<b>''\<rparr>\<rparr>)
      = filter isMarkup (dashboardTaskDetailTemplate \<lparr>tdTask = t\<rparr>)"
  using page_markup_independent_of_data [where t = "(scanTask (sampleRow ''a'' StatusPending))\<lparr>Type := ''<script>'', Payload := ''<b>''\<rparr>"
      and t' = "scanTask (sampleRow ''a'' StatusPending)"] by (simp add: Let_def)

section \<open>What the pages show\<close>

text \<open>C21. The detail page shows the payload as it is stored, up to the space between its tokens. Between the tags of
  the payload there is no markup; what a browser reads there is the payload itself when it is not valid JSON, and
  otherwise a text with the same tokens, strings included.\<close>

theorem detail_page_shows_payload:
  assumes "Payload t \<noteq> []" "CHR 0x00 \<notin> set (Payload t)"
  shows "\<exists>pre x post. dashboardTaskDetailTemplate \<lparr>tdTask = t\<rparr> = pre @ ''<pre>'' @ x @ ''</pre>'' @ post
    \<and> filter isMarkup x = [] \<and> dropSpace Between (htmlUnescape x) = dropSpace Between (Payload t)
    \<and> (\<not> jsonValid (Payload t) \<longrightarrow> htmlUnescape x = Payload t)"
proof -
  let ?p = "dashboardPrettyJSON (Payload t)"
  have p: "?p = (case jsonIndent (Payload t) of None \<Rightarrow> Payload t | Some s \<Rightarrow> s)" using assms(1) by (simp add: dashboardPrettyJSON_def)
  have "CHR 0x00 \<notin> set ?p"
  proof (cases "jsonIndent (Payload t)")
    case (Some s)
    have "\<not> isJsonSpace (CHR 0x00)" by (simp add: isJsonSpace_def)
    with set_jsonIndent [OF Some] assms(2) show ?thesis unfolding p Some by auto
  qed (simp add: p assms(2))
  then have u: "htmlUnescape (htmlEscaper ?p) = ?p" by (simp add: htmlEscaper_def htmlUnescape_htmlReplacer)
  have "dropSpace Between ?p = dropSpace Between (Payload t)"
    using jsonIndent_tokens [of "Payload t"] by (simp add: p split: option.split)
  moreover have "?p = Payload t" if "\<not> jsonValid (Payload t)" using that by (simp add: p jsonIndent_def)
  moreover have "\<exists>pre post. dashboardTaskDetailTemplate \<lparr>tdTask = t\<rparr> = pre @ ''<pre>'' @ htmlEscaper ?p @ ''</pre>'' @ post"
    unfolding dashboardTaskDetailTemplate_def Let_def dashboardTaskDetailView.select_convs by (intro exI) (rule refl)
  ultimately show ?thesis using u escaped_no_markup(1) [of ?p] by metis
qed

theorem detail_page_shows_payload_witness:
  "\<exists>pre x post. dashboardTaskDetailTemplate \<lparr>tdTask = scanTask (sampleRow ''a'' StatusPending)\<rparr> = pre @ ''<pre>'' @ x @ ''</pre>'' @ post
     \<and> dropSpace Between (htmlUnescape x) = ''{}''"
proof -
  have "dropSpace Between ''{}'' = ''{}''" by (simp add: isJsonSpace_def placeAfter_def)
  with detail_page_shows_payload [of "scanTask (sampleRow ''a'' StatusPending)"] show ?thesis by (auto simp del: dropSpace.simps)
qed

text \<open>A time on the dashboard reads back to its second. For every instant after the zero time and before the year
  10000 the text has the fixed width of the layout, and its digits, read by the Gregorian calendar, give the
  whole seconds of the instant; the zero time and a missing time are shown as a dash.\<close>

theorem dashboard_time_reads_back:
  "(0 < t \<and> t div Second < secondsPerDay * daysBeforeYear 10000 \<longrightarrow>
      readUTC (formatDashboardTime t) = t div Second \<and> length (formatDashboardTime t) = 23
      \<and> formatDashboardOptionalTime (Some t) = formatDashboardTime t)
    \<and> formatDashboardTime 0 = ''-'' \<and> formatDashboardOptionalTime None = ''-''"
  using readUTC_formatUTC [of t]
  by (auto simp: formatDashboardTime_def formatDashboardOptionalTime_def timeIsZero_def)

theorem dashboard_time_reads_back_witness:
  "readUTC (formatDashboardTime ((unixEpochSeconds + 1700000000) * Second + 5)) = unixEpochSeconds + 1700000000"
  using dashboard_time_reads_back [of "(unixEpochSeconds + 1700000000) * Second + 5"]
  by (simp add: Second_def unixEpochSeconds_def secondsPerDay_def daysBeforeYear_def)

end
