(* ===== verification/Server.thy ===== *)
theory Server
  imports Templates
begin

text \<open>
  \<open>internal/httpserver/server.go\<close>: the routes \<open>New\<close> registers and the dispatch of a request to
  its handler. \<open>net/http\<close>'s \<open>ServeMux\<close> is modelled by its documented rules: a pattern may carry
  a method, \<open>GET\<close> also serves \<open>HEAD\<close>, a wildcard matches one path segment, a pattern that ends
  in a slash matches every longer path, the most specific matching pattern wins, and a path that only other
  methods serve is answered with 405. A request is given by its method, its path as the list of unescaped
  segments, whether the path ends in a slash, and its body; a path that is not clean is redirected by
  \<open>net/http\<close> before any of this.
\<close>

section \<open>Patterns\<close>

datatype segment = Lit string | Wild

record 'h pattern =
  ptMethod :: string
  ptSegments :: "segment list"
  ptSlash :: bool
  ptHandler :: 'h

record Request =
  reqMethod :: string
  reqSegments :: "string list"
  reqSlash :: bool
  reqBody :: string

fun segmentMatches :: "segment \<Rightarrow> string \<Rightarrow> bool" where
  "segmentMatches (Lit s) x \<longleftrightarrow> x = s"
| "segmentMatches Wild x \<longleftrightarrow> True"

definition pathMatches :: "'h pattern \<Rightarrow> Request \<Rightarrow> bool" where
  "pathMatches p req \<longleftrightarrow>
     (if ptSlash p
      then (length (ptSegments p) < length (reqSegments req)
             \<or> length (ptSegments p) = length (reqSegments req) \<and> reqSlash req)
           \<and> list_all2 segmentMatches (ptSegments p) (take (length (ptSegments p)) (reqSegments req))
      else \<not> reqSlash req \<and> list_all2 segmentMatches (ptSegments p) (reqSegments req))"

definition methodMatches :: "string \<Rightarrow> string \<Rightarrow> bool" where
  "methodMatches pm m \<longleftrightarrow> m = pm \<or> pm = ''GET'' \<and> m = ''HEAD''"

text \<open>The search goes segment by segment: a literal before a wildcard, and both before the end of a pattern
  that matches every longer path.\<close>

fun moreSpecific :: "segment list \<Rightarrow> segment list \<Rightarrow> bool" where
  "moreSpecific [] _ \<longleftrightarrow> False"
| "moreSpecific (_ # _) [] \<longleftrightarrow> True"
| "moreSpecific (Lit a # ps) (Lit b # qs) \<longleftrightarrow> moreSpecific ps qs"
| "moreSpecific (Lit a # ps) (Wild # qs) \<longleftrightarrow> True"
| "moreSpecific (Wild # ps) (Lit b # qs) \<longleftrightarrow> False"
| "moreSpecific (Wild # ps) (Wild # qs) \<longleftrightarrow> moreSpecific ps qs"

fun mostSpecific :: "'h pattern list \<Rightarrow> 'h pattern option" where
  "mostSpecific [] = None"
| "mostSpecific (p # ps) = (case mostSpecific ps of
     None \<Rightarrow> Some p
   | Some q \<Rightarrow> if moreSpecific (ptSegments q) (ptSegments p) \<or> ptSlash p \<and> \<not> ptSlash q then Some q else Some p)"

datatype 'h mux_result = Matched 'h "string list" | MethodNotAllowed "string list" | NotFound

text \<open>The segments the wildcards of a pattern matched, which \<open>PathValue\<close> returns.\<close>

definition pathValues :: "'h pattern \<Rightarrow> Request \<Rightarrow> string list" where
  "pathValues p req = map snd (filter (\<lambda>(s, x). s = Wild) (zip (ptSegments p) (reqSegments req)))"

definition muxFind :: "'h pattern list \<Rightarrow> Request \<Rightarrow> 'h mux_result" where
  "muxFind ps req =
     (let here = filter (\<lambda>p. pathMatches p req) ps
      in case mostSpecific (filter (\<lambda>p. methodMatches (ptMethod p) (reqMethod req)) here) of
           Some p \<Rightarrow> Matched (ptHandler p) (pathValues p req)
         | None \<Rightarrow> if here = [] then NotFound else MethodNotAllowed (map ptMethod here))"

section \<open>The server\<close>

datatype handler = Healthz | DashboardHandler | DashboardTaskDetail | CreateTask | GetTask | MetricsHandler

definition pat :: "string \<Rightarrow> segment list \<Rightarrow> bool \<Rightarrow> handler \<Rightarrow> handler pattern" where
  "pat m segs slash h = \<lparr>ptMethod = m, ptSegments = segs, ptSlash = slash, ptHandler = h\<rparr>"

text \<open>The patterns in the order of the source; \<open>/metrics\<close> is served only when there is a registry.\<close>

definition routes :: "bool \<Rightarrow> handler pattern list" where
  "routes registry =
     [pat ''GET'' [Lit ''healthz''] False Healthz,
      pat ''GET'' [] True DashboardHandler,
      pat ''GET'' [Lit ''dashboard''] False DashboardHandler,
      pat ''GET'' [Lit ''dashboard'', Lit ''tasks'', Wild] False DashboardTaskDetail,
      pat ''POST'' [Lit ''tasks''] False CreateTask,
      pat ''GET'' [Lit ''tasks'', Wild] False GetTask]
     @ (if registry then [pat ''GET'' [Lit ''metrics''] False MetricsHandler] else [])"

text \<open>\<open>svProvider\<close> is \<open>None\<close> when the server has no registry, and \<open>Some provider\<close> otherwise, with the
  registry's own optional snapshot provider.\<close>

record httpserverConfig =
  hsAddr :: string

record 'r Server =
  svAddr :: string
  svTasks :: "'r CreatorGetter"
  svProvider :: "(Time \<Rightarrow> 'r world \<Rightarrow> (goerror + Snapshot) \<times> 'r world) option option"

definition ServerNew :: "httpserverConfig \<Rightarrow> 'r CreatorGetter
    \<Rightarrow> (Time \<Rightarrow> 'r world \<Rightarrow> (goerror + Snapshot) \<times> 'r world) option option \<Rightarrow> 'r Server" where
  "ServerNew cfg tasks registry = \<lparr>svAddr = hsAddr cfg, svTasks = tasks, svProvider = registry\<rparr>"

text \<open>Rendering of templates and numbers, and the connection the export is written to.\<close>

record rendering =
  rdDashboard :: "dashboardView \<Rightarrow> goerror option"
  rdDetail :: "dashboardTaskDetailView \<Rightarrow> goerror option"
  rdFloat :: "float64 \<Rightarrow> string"
  rdWriter :: writer

datatype response =
    PlainText int string
  | JsonResponse json_response
  | HtmlResponse html_response
  | MetricsText "html_response option" writer
  | NotAllowed "string list"
  | NoRoute

definition ServeHTTP :: "'r Server \<Rightarrow> rendering \<Rightarrow> Request \<Rightarrow> 'r world \<Rightarrow> response \<times> 'r world" where
  "ServeHTTP s rd req w =
     (case muxFind (routes (svProvider s \<noteq> None)) req of
        NotFound \<Rightarrow> (NoRoute, w)
      | MethodNotAllowed ms \<Rightarrow> (NotAllowed ms, w)
      | Matched h vs \<Rightarrow>
          (case h of
             Healthz \<Rightarrow> (PlainText 200 ''ok'', w)
           | DashboardHandler \<Rightarrow> map_prod HtmlResponse (\<lambda>w. w) (handleDashboard (svTasks s) (rdDashboard rd) w)
           | DashboardTaskDetail \<Rightarrow>
               map_prod HtmlResponse (\<lambda>w. w) (handleDashboardTaskDetail (svTasks s) (rdDetail rd) (concat vs) w)
           | CreateTask \<Rightarrow> map_prod JsonResponse (\<lambda>w. w) (handleCreateTask (svTasks s) (reqBody req) w)
           | GetTask \<Rightarrow> map_prod JsonResponse (\<lambda>w. w) (handleGetTask (svTasks s) (concat vs) w)
           | MetricsHandler \<Rightarrow>
               map_prod (\<lambda>(r, wr). MetricsText r wr) (\<lambda>w. w)
                 (handleMetrics (case svProvider s of Some p \<Rightarrow> p | None \<Rightarrow> None) (rdFloat rd) (rdWriter rd) w)))"

section \<open>Listening and stopping\<close>

text \<open>
  \<open>Run\<close> and \<open>RunListener\<close> are \<open>ListenAndServe\<close> and \<open>Serve\<close> of \<open>http.Server\<close>: after \<open>Shutdown\<close> has begun
  they return \<open>ErrServerClosed\<close>, otherwise they serve connection after connection until accepting one
  fails for good. The events say what happens; \<open>None\<close> means that the call has not returned. \<open>listen\<close> is the
  error of \<open>net.Listen\<close> for an address.
\<close>

datatype serve_event = Accepted | AcceptedLater | AcceptFailed goerror | ShutdownBegins

fun serveLoop :: "serve_event list \<Rightarrow> goerror option" where
  "serveLoop [] = None"
| "serveLoop (Accepted # es) = serveLoop es"
| "serveLoop (AcceptedLater # es) = serveLoop es"
| "serveLoop (AcceptFailed e # es) = Some e"
| "serveLoop (ShutdownBegins # es) = Some ErrServerClosed"

definition ServerRunListener :: "bool \<Rightarrow> serve_event list \<Rightarrow> goerror option" where
  "ServerRunListener inShutdown es = (if inShutdown then Some ErrServerClosed else serveLoop es)"

definition ServerRun :: "'r Server \<Rightarrow> (string \<Rightarrow> goerror option) \<Rightarrow> bool \<Rightarrow> serve_event list \<Rightarrow> goerror option" where
  "ServerRun s listen inShutdown es =
     (if inShutdown then Some ErrServerClosed
      else case listen (svAddr s) of Some e \<Rightarrow> Some e | None \<Rightarrow> ServerRunListener inShutdown es)"

text \<open>\<open>Shutdown\<close> closes the listener and polls until every connection is idle, at \<open>idleAt\<close>, or the context
  expires; it returns the time and the error.\<close>

definition ServerShutdown :: "Time \<Rightarrow> goerror option \<Rightarrow> Time option \<Rightarrow> Time \<Rightarrow> Time \<times> goerror option" where
  "ServerShutdown deadline closeErr idleAt now =
     (case idleAt of
        Some t \<Rightarrow> if t \<le> deadline then (max now t, closeErr) else (max now deadline, Some DeadlineExceeded)
      | None \<Rightarrow> (max now deadline, Some DeadlineExceeded))"

lemma ServerRun_after_Shutdown:
  "ServerRun s listen True es = Some ErrServerClosed"
  "listen (svAddr s) = None \<Longrightarrow> \<forall>e. AcceptFailed e \<notin> set es \<Longrightarrow> ServerRun s listen False (es @ ShutdownBegins # fs) = Some ErrServerClosed"
proof -
  have "\<forall>e. AcceptFailed e \<notin> set es \<Longrightarrow> serveLoop (es @ ShutdownBegins # fs) = Some ErrServerClosed"
    by (induction es rule: serveLoop.induct) auto
  then show "listen (svAddr s) = None \<Longrightarrow> \<forall>e. AcceptFailed e \<notin> set es \<Longrightarrow> ServerRun s listen False (es @ ShutdownBegins # fs) = Some ErrServerClosed"
    by (simp add: ServerRun_def ServerRunListener_def)
qed (simp add: ServerRun_def)

section \<open>Routing\<close>

lemma list_all2_seg_simps [simp]:
  "list_all2 segmentMatches [] xs \<longleftrightarrow> xs = []"
  "list_all2 segmentMatches (p # ps) xs \<longleftrightarrow> (\<exists>y ys. xs = y # ys \<and> segmentMatches p y \<and> list_all2 segmentMatches ps ys)"
  by (auto simp: list_all2_Cons1)

text \<open>What the routes come down to: the handler of a request, as a table of cases.\<close>

definition handlerOf :: "bool \<Rightarrow> Request \<Rightarrow> handler mux_result" where
  "handlerOf registry req =
     (let m = reqMethod req; reads = (m = ''GET'' \<or> m = ''HEAD''); segs = reqSegments req
      in if \<not> reqSlash req \<and> segs = [''tasks''] \<and> m = ''POST'' then Matched CreateTask []
         else if \<not> reads then MethodNotAllowed (map ptMethod (filter (\<lambda>p. pathMatches p req) (routes registry)))
         else if reqSlash req then Matched DashboardHandler []
         else case segs of
           [a] \<Rightarrow> if a = ''healthz'' then Matched Healthz []
                  else if a = ''metrics'' \<and> registry then Matched MetricsHandler []
                  else Matched DashboardHandler []
         | [a, i] \<Rightarrow> if a = ''tasks'' then Matched GetTask [i] else Matched DashboardHandler []
         | [a, b, i] \<Rightarrow> if a = ''dashboard'' \<and> b = ''tasks'' then Matched DashboardTaskDetail [i] else Matched DashboardHandler []
         | _ \<Rightarrow> Matched DashboardHandler [])"

lemma muxFind_routes:
  assumes "reqSegments req = [] \<longrightarrow> reqSlash req"
  shows "muxFind (routes registry) req = handlerOf registry req"
proof -
  have "reqSegments req = [] \<or> (\<exists>a. reqSegments req = [a]) \<or> (\<exists>a b. reqSegments req = [a, b])
      \<or> (\<exists>a b c. reqSegments req = [a, b, c]) \<or> (\<exists>a b c d ds. reqSegments req = a # b # c # d # ds)"
    by (metis list.exhaust)
  then show ?thesis
    using assms
    by (elim disjE exE; cases "reqSlash req"; cases "reqMethod req = ''GET'' \<or> reqMethod req = ''HEAD''")
      (auto simp: muxFind_def routes_def pat_def handlerOf_def pathMatches_def methodMatches_def pathValues_def Let_def)
qed

text \<open>C23. The registered patterns and the table of cases agree. Creation is served for \<open>POST /tasks\<close> only; a
  task for \<open>GET /tasks/{id}\<close>, its page for \<open>GET /dashboard/tasks/{id}\<close>, each with exactly the identifier
  of the path; the health check and (with a registry) the metrics under their names; every other path that is read
  gets the dashboard, also an unknown one; any other method is refused with 405. The mux itself never answers
  404; a handler can, for a task that is not there.\<close>

theorem request_routing:
  assumes "reqSegments req = [] \<longrightarrow> reqSlash req"
  shows "muxFind (routes registry) req = handlerOf registry req \<and> muxFind (routes registry) req \<noteq> NotFound"
  unfolding muxFind_routes [OF assms] by (auto simp: handlerOf_def Let_def split: list.split)

theorem request_routing_witness:
  "muxFind (routes True) \<lparr>reqMethod = ''GET'', reqSegments = [''tasks'', ''a''], reqSlash = False, reqBody = ''''\<rparr>
     = Matched GetTask [''a'']
   \<and> muxFind (routes True) \<lparr>reqMethod = ''GET'', reqSegments = [''tasks''], reqSlash = False, reqBody = ''''\<rparr>
     = Matched DashboardHandler []"
  using request_routing [of "\<lparr>reqMethod = ''GET'', reqSegments = [''tasks'', ''a''], reqSlash = False, reqBody = ''''\<rparr>" True]
    request_routing [of "\<lparr>reqMethod = ''GET'', reqSegments = [''tasks''], reqSlash = False, reqBody = ''''\<rparr>" True]
  by (simp add: handlerOf_def Let_def)

section \<open>Reading\<close>

text \<open>\<open>w'\<close> is \<open>w\<close> after reading: nothing was sent, and the table changed by other sessions only.\<close>

definition reads :: "'r world \<Rightarrow> 'r world \<Rightarrow> bool" where
  "reads w w' \<longleftrightarrow> wEnv w' = wEnv w \<and> wSent w' = wSent w \<and> wHttp w' = wHttp w \<and> wRedis w' = wRedis w
     \<and> ((\<forall>n t. pgOthers (envPg (wEnv w) n) t = t) \<longrightarrow> wTable w' = wTable w)"

lemma reads_refl [simp]: "reads w w"
  by (simp add: reads_def)

lemma reads_trans [trans]: "reads a b \<Longrightarrow> reads b c \<Longrightarrow> reads a c"
  by (simp add: reads_def)

lemma reads_timeNow: "timeNow w = (now, w') \<Longrightarrow> reads w w'"
  by (auto simp: timeNow_def reads_def)

lemma reads_metrics [simp]: "reads a (w\<lparr>wMetrics := m\<rparr>) \<longleftrightarrow> reads a w"
  by (simp add: reads_def)

lemma reads_pgExec:
  assumes "pgExec stmt w = (res, w')" "\<And>c t. snd (stmt c t) = t"
  shows "reads w w'"
proof -
  have "wTable w' = pgOthers (envPg (wEnv w) (wPgCalls w)) (wTable w)"
    using assms(1) assms(2) [of "envPg (wEnv w) (wPgCalls w)" "pgOthers (envPg (wEnv w) (wPgCalls w)) (wTable w)"]
    by (auto simp: pgExec_def Let_def split: pg_fault.splits prod.splits)
  then show ?thesis using db_onlyD [OF db_only_pgExec [OF assms(1)]] by (simp add: reads_def)
qed

lemma pgSelect_reads: "snd (pgSelect p key limit c t) = t"
  by (simp add: pgSelect_def Let_def)

lemma scanRows_reads:
  assumes "scanRows (pgExec (pgSelect p key limit) w) = (res, w')"
  shows "reads w w'"
  using assms by (cases "pgExec (pgSelect p key limit) w") (auto simp: scanRows_def pgSelect_reads dest: reads_pgExec)

locale reading_store =
  fixes cg :: "'r CreatorGetter"
  assumes get_reads: "cgGet cg i w = (r1, w1) \<Longrightarrow> reads w w1"
    and snapshot_reads: "cgMetricsSnapshot cg now w = (r2, w2) \<Longrightarrow> reads w w2"
    and counts_reads: "cgCountByStatus cg w = (r3, w3) \<Longrightarrow> reads w w3"
    and status_reads: "cgRecentByStatus cg st n w = (r4, w4) \<Longrightarrow> reads w w4"
    and recent_reads: "cgRecent cg n w = (r5, w5) \<Longrightarrow> reads w w5"
begin

lemma dashboard_reads:
  assumes "handleDashboard cg te w = (res, w')"
  shows "reads w w'"
  using assms unfolding handleDashboard_def Let_def
  by (auto split: prod.splits sum.splits option.splits dest!: reads_timeNow counts_reads snapshot_reads status_reads recent_reads)
    (simp_all add: reads_def)

lemma detail_reads: "handleDashboardTaskDetail cg te i w = (res, w') \<Longrightarrow> reads w w'"
  by (auto simp: handleDashboardTaskDetail_def Let_def split: if_splits prod.splits sum.splits option.splits dest: get_reads)

lemma get_task_reads: "handleGetTask cg i w = (res, w') \<Longrightarrow> reads w w'"
  by (auto simp: handleGetTask_def Let_def split: if_splits prod.splits sum.splits dest: get_reads)

lemma metrics_reads: "handleMetrics (Some (cgMetricsSnapshot cg)) f wr w = (res, w') \<Longrightarrow> reads w w'"
  by (auto simp: handleMetrics_def WritePrometheus_def Let_def split: prod.splits sum.splits option.splits
      dest!: snapshot_reads reads_timeNow intro: reads_trans)

lemma served_reads:
  assumes "ServeHTTP \<lparr>svAddr = addr, svTasks = cg, svProvider = Some (Some (cgMetricsSnapshot cg))\<rparr> rd req w = (res, w')"
    and "\<not> (reqMethod req = ''POST'' \<and> reqSegments req = [''tasks''] \<and> \<not> reqSlash req)"
    and "reqSegments req = [] \<longrightarrow> reqSlash req"
  shows "reads w w'"
proof -
  have "handlerOf True req \<noteq> Matched CreateTask vs" for vs
    using assms(2) by (auto simp: handlerOf_def Let_def split: list.split)
  then show ?thesis
    using assms(1) unfolding ServeHTTP_def
    by (auto simp: muxFind_routes [OF assms(3)] map_prod_def split: mux_result.splits handler.splits prod.splits
        dest: dashboard_reads detail_reads get_task_reads metrics_reads)
qed

end

interpretation srd: reading_store "serviceStore (appService p q)" for p q
proof
  fix i w r1 w1 assume "cgGet (serviceStore (appService p q)) i w = (r1, w1)"
  then have g: "Get i w = (r1, w1)" by (simp add: serviceStore_def ServiceGet_def appService_def pgCreatorGetter_def)
  obtain r0 where "pgExec (\<lambda>c t. (Inr (filter (\<lambda>r. c_id r = i) t), t)) w = (r0, w1)"
    using g by (auto simp: Get_def split: prod.splits)
  then show "reads w w1" by (rule reads_pgExec) simp
qed (auto simp: serviceStore_def appService_def pgCreatorGetter_def ServiceMetricsSnapshot_def MetricsSnapshot_def
    ServiceCountByStatus_def CountByStatus_def ServiceRecentByStatus_def RecentByStatus_def ServiceRecent_def Recent_def Let_def
    dest: scanRows_reads elim!: reads_pgExec)

text \<open>The server of the application: the service behind it, and the store as the snapshot provider of its registry.\<close>

definition appServer :: "string \<Rightarrow> 'r RedisStreamPublisher \<Rightarrow> 'r RedisScheduledQueue \<Rightarrow> 'r Server" where
  "appServer addr p q = \<lparr>svAddr = addr, svTasks = serviceStore (appService p q), svProvider = Some (Some MetricsSnapshot)\<rparr>"

lemma serviceStore_snapshot: "cgMetricsSnapshot (serviceStore (appService p q)) = MetricsSnapshot"
  by (rule ext) (simp add: serviceStore_def appService_def pgCreatorGetter_def ServiceMetricsSnapshot_def fun_eq_iff)

text \<open>C18. Only \<open>POST /tasks\<close> writes. Whatever the method, path and body of any other request, serving it sends
  nothing to Redis and nothing by HTTP, and the table is exactly as it was when no other session writes; a request
  with a method that is not served has no effect at all.\<close>

theorem only_post_tasks_writes:
  assumes "ServeHTTP (appServer addr p q) rd req w = (res, w')" "reqSegments req = [] \<longrightarrow> reqSlash req"
    and "\<not> (reqMethod req = ''POST'' \<and> reqSegments req = [''tasks''] \<and> \<not> reqSlash req)"
  shows "wSent w' = wSent w \<and> wHttp w' = wHttp w \<and> wRedis w' = wRedis w
    \<and> ((\<forall>n t. pgOthers (envPg (wEnv w) n) t = t) \<longrightarrow> wTable w' = wTable w)
    \<and> (reqMethod req \<notin> {''GET'', ''HEAD''} \<longrightarrow> w' = w \<and> (\<exists>ms. res = NotAllowed ms))"
proof -
  have "reads w w'"
    by (rule srd.served_reads [where p = p and q = q, OF _ assms(3,2)])
      (use assms(1) in \<open>simp add: appServer_def serviceStore_snapshot\<close>)
  moreover have "w' = w \<and> (\<exists>ms. res = NotAllowed ms)" if "reqMethod req \<notin> {''GET'', ''HEAD''}"
    using assms(1,3) that by (auto simp: ServeHTTP_def muxFind_routes [OF assms(2)] handlerOf_def Let_def)
  ultimately show ?thesis by (simp add: reads_def)
qed

theorem only_post_tasks_writes_witness:
  "let p = \<lparr>rspClient = obligingRedis, rspStreamName = ''tasks:stream''\<rparr>;
       q = \<lparr>rsqClient = obligingRedis, rsqKey = ''tasks:scheduled''\<rparr>;
       rd = \<lparr>rdDashboard = \<lambda>_. None, rdDetail = \<lambda>_. None, rdFloat = \<lambda>_. '''',
             rdWriter = \<lparr>wrFail = \<lambda>_. None, wrCalls = 0, wrOut = ''''\<rparr>\<rparr>;
       w = calmWorld [sampleRow ''a'' StatusPending] ()
   in wTable (snd (ServeHTTP (appServer '':8080'' p q) rd
          \<lparr>reqMethod = ''GET'', reqSegments = [''tasks'', ''a''], reqSlash = False, reqBody = ''''\<rparr> w)) = wTable w
      \<and> snd (ServeHTTP (appServer '':8080'' p q) rd
          \<lparr>reqMethod = ''DELETE'', reqSegments = [''tasks'', ''a''], reqSlash = False, reqBody = ''''\<rparr> w) = w"
proof -
  let ?get = "\<lparr>reqMethod = ''GET'', reqSegments = [''tasks'', ''a''], reqSlash = False, reqBody = ''''\<rparr>"
  let ?delete = "\<lparr>reqMethod = ''DELETE'', reqSegments = [''tasks'', ''a''], reqSlash = False, reqBody = ''''\<rparr>"
  let ?w = "calmWorld [sampleRow ''a'' StatusPending] ()"
  show ?thesis
    unfolding Let_def
    by (intro conjI; use only_post_tasks_writes [OF surjective_pairing, where req = ?get and w = ?w]
          only_post_tasks_writes [OF surjective_pairing, where req = ?delete and w = ?w] in \<open>simp\<close>)
qed

section \<open>Following a link\<close>

text \<open>The request a browser sends for the path of a link: its segments, and whether it ends in a slash.\<close>

fun splitSlash :: "string \<Rightarrow> string list" where
  "splitSlash [] = ['''']"
| "splitSlash (c # cs) = (if c = CHR ''/'' then '''' # splitSlash cs
     else case splitSlash cs of s # ss \<Rightarrow> (c # s) # ss | [] \<Rightarrow> [[c]])"

definition getRequest :: "string \<Rightarrow> Request" where
  "getRequest path =
     (let parts = splitSlash (drop 1 path); slash = (last parts = '''')
      in \<lparr>reqMethod = ''GET'', reqSegments = (if slash then butlast parts else parts), reqSlash = slash, reqBody = ''''\<rparr>)"

lemma splitSlash_plain: "CHR ''/'' \<notin> set s \<Longrightarrow> splitSlash s = [s]"
  by (induction s) auto

lemma splitSlash_Cons:
  "CHR ''/'' \<notin> set s \<Longrightarrow> splitSlash (s @ CHR ''/'' # t) = s # splitSlash t"
  by (induction s) auto

definition plainID :: "string \<Rightarrow> bool" where
  "plainID i \<longleftrightarrow> i \<noteq> '''' \<and> (\<forall>c \<in> set i. urlUnreserved c)"

lemma unreserved_plain: "urlUnreserved c \<Longrightarrow> c \<noteq> CHR ''/'' \<and> c \<noteq> CHR 0x00"
proof -
  have "\<not> urlUnreserved (CHR ''/'')" "\<not> urlUnreserved (CHR 0x00)" by (simp_all add: urlUnreserved_def Let_def)
  then show "urlUnreserved c \<Longrightarrow> c \<noteq> CHR ''/'' \<and> c \<noteq> CHR 0x00" by metis
qed

lemma hexDigit_unreserved: "d < 16 \<Longrightarrow> urlUnreserved (hexDigit d)"
  by (auto simp: hexDigit_def urlUnreserved_def Let_def)

lemma newID_plain:
  assumes "newID w = (i, w')"
  shows "plainID i"
proof -
  obtain bs where i: "i = ''task_'' @ hexEncode bs" using assms by (auto simp: newID_def randRead_def)
  have "urlUnreserved c" if "c \<in> set (hexEncode bs)" for c
  proof -
    have "unat b div 16 < 16" "unat b mod 16 < 16" for b :: "8 word"
      using unsigned_less [where 'a = nat, of b] by (simp_all add: less_mult_imp_div_less)
    with that show ?thesis by (auto simp: hexEncode_def intro: hexDigit_unreserved)
  qed
  moreover have "\<forall>c \<in> set ''task_''. urlUnreserved c" by (simp add: urlUnreserved_def Let_def)
  ultimately show ?thesis by (auto simp: plainID_def i)
qed

lemma link_unescaped:
  assumes "plainID i"
  shows "htmlUnescape (hrefEscaper (dashboardTaskDetailPath i)) = dashboardTaskDetailPath i"
proof -
  let ?p = "dashboardTaskDetailPath i"
  have "urlFilter ?p = ?p" by (simp add: urlFilter_def dashboardTaskDetailPath_def isSafeURL_rooted)
  moreover have "\<forall>c \<in> set ''/dashboard/tasks/''. urlReserved c \<or> urlUnreserved c"
    by (simp add: urlReserved_def urlUnreserved_def Let_def)
  then have "\<forall>c \<in> set ?p. urlReserved c \<or> urlUnreserved c" using assms by (auto simp: plainID_def dashboardTaskDetailPath_def)
  then have "urlNormalizer ?p = ?p" by (rule urlNormalizer_id)
  moreover have "CHR 0x00 \<notin> set ?p"
    using assms unreserved_plain by (fastforce simp: plainID_def dashboardTaskDetailPath_def)
  ultimately show ?thesis by (simp add: hrefEscaper_def attrEscaper_def htmlUnescape_htmlReplacer)
qed

lemma link_request:
  assumes "plainID i"
  shows "getRequest (dashboardTaskDetailPath i)
    = \<lparr>reqMethod = ''GET'', reqSegments = [''dashboard'', ''tasks'', i], reqSlash = False, reqBody = ''''\<rparr>"
proof -
  have "CHR ''/'' \<notin> set i" using assms unreserved_plain by (auto simp: plainID_def)
  then have "splitSlash (''dashboard'' @ CHR ''/'' # ''tasks'' @ CHR ''/'' # i) = [''dashboard'', ''tasks'', i]"
    using splitSlash_Cons [of "''dashboard''" "''tasks'' @ CHR ''/'' # i"] splitSlash_Cons [of "''tasks''" i]
      splitSlash_plain [of i] by simp
  then have "splitSlash (drop 1 (dashboardTaskDetailPath i)) = [''dashboard'', ''tasks'', i]"
    by (simp add: dashboardTaskDetailPath_def)
  then show ?thesis using assms by (simp add: getRequest_def plainID_def Let_def)
qed

lemma newID_trimmed:
  assumes "newID w = (i, w')"
  shows "TrimSpace i = i \<and> i \<noteq> []"
proof -
  have "i = ''task_'' @ hexEncode (map (envRand (wEnv w) (wRandReads w)) [0..<16])"
    using assms by (auto simp: newID_def randRead_def)
  then show ?thesis using TrimSpace_hexID [of "map (envRand (wEnv w) (wRandReads w)) [0..<16]"] by simp
qed

lemma detail_page_of_row:
  assumes "TrimSpace i = i \<and> i \<noteq> []" "quiet 1 w" "db_inv (wTable w)" "\<forall>v. err v = None"
  shows "fst (handleDashboardTaskDetail (serviceStore (appService p q)) err i w) = (case row (wTable w) i of
      Some r \<Rightarrow> DetailPage \<lparr>tdTask = scanTask r\<rparr> | None \<Rightarrow> HttpError 404 ''task not found'')"
proof -
  have q: "quiet (Suc 0) w" using assms(2) by simp
  show ?thesis
    using assms(1,4) Get_quiet [OF q assms(3), of i] Get_quiet_missing [OF q, of i]
    by (auto simp: handleDashboardTaskDetail_def serviceStore_def ServiceGet_def appService_def pgCreatorGetter_def
        split: option.split)
qed

text \<open>C20. The link of a task on the dashboard opens the page of that task. In both tables the row of a task whose
  identifier was generated by the store has exactly the link to its detail page. In a quiet session the request for what a
  browser reads there is answered with the page of the stored task of this identifier, as rendered from its row, or with 404 if
  there is none. (The task service stands behind the server, and the template executes without an error.)\<close>

theorem dashboard_link_opens_task:
  assumes "newID w0 = (ID t, w1)"
    and "quiet 1 w" "db_inv (wTable w)" "\<forall>v. rdDetail rd v = None"
  shows "\<exists>href. htmlUnescape href = ''/dashboard/tasks/'' @ ID t
    \<and> (\<exists>pre post. taskTableRow t = pre @ ''href='' @ [CHR 0x22] @ href @ [CHR 0x22] @ post)
    \<and> (\<exists>pre post. recentTaskTableRow t = pre @ ''href='' @ [CHR 0x22] @ href @ [CHR 0x22] @ post)
    \<and> (\<exists>page. fst (ServeHTTP (appServer addr p q) rd (getRequest (htmlUnescape href)) w) = HtmlResponse page
        \<and> (case row (wTable w) (ID t) of
             Some r \<Rightarrow> page = DetailPage \<lparr>tdTask = scanTask r\<rparr>
               \<and> htmlBody page = Some (dashboardTaskDetailTemplate \<lparr>tdTask = scanTask r\<rparr>)
           | None \<Rightarrow> page = HttpError 404 ''task not found''))"
proof -
  note plain = newID_plain [OF assms(1)]
  let ?h = "hrefEscaper (dashboardTaskDetailPath (ID t))"
  let ?l = \<open>lay [(0, []), (2, ''<tr>''), (3, ''<td><a class="task-link" href="'')]\<close>
  let ?pre = \<open>CHR 0x0A # replicate 2 (CHR 0x09) @ ''<tr>'' @ CHR 0x0A # replicate 3 (CHR 0x09) @ ''<td><a class="task-link" ''\<close>
  have l: "?l = ?pre @ ''href='' @ [CHR 0x22]" and q: \<open>''"><code>'' = [CHR 0x22] @ ''><code>''\<close> by simp_all
  have "\<exists>pre post. taskTableRow t = pre @ ''href='' @ [CHR 0x22] @ ?h @ [CHR 0x22] @ post"
    "\<exists>pre post. recentTaskTableRow t = pre @ ''href='' @ [CHR 0x22] @ ?h @ [CHR 0x22] @ post"
    unfolding taskTableRow_def recentTaskTableRow_def l q append_assoc by (intro exI, rule refl)+
  moreover have "ServeHTTP (appServer addr p q) rd (getRequest (dashboardTaskDetailPath (ID t))) w
      = map_prod HtmlResponse (\<lambda>w. w) (handleDashboardTaskDetail (serviceStore (appService p q)) (rdDetail rd) (ID t) w)"
    unfolding link_request [OF plain] ServeHTTP_def by (subst muxFind_routes) (simp_all add: handlerOf_def Let_def appServer_def)
  moreover obtain page where "fst (handleDashboardTaskDetail (serviceStore (appService p q)) (rdDetail rd) (ID t) w) = page"
    and "(case row (wTable w) (ID t) of
             Some r \<Rightarrow> page = DetailPage \<lparr>tdTask = scanTask r\<rparr>
               \<and> htmlBody page = Some (dashboardTaskDetailTemplate \<lparr>tdTask = scanTask r\<rparr>)
           | None \<Rightarrow> page = HttpError 404 ''task not found'')"
    using detail_page_of_row [OF newID_trimmed [OF assms(1)], of w "rdDetail rd" p q] assms(2-4)
    by (simp add: htmlBody_def split: option.split)
  ultimately show ?thesis
    unfolding dashboardTaskDetailPath_def using link_unescaped [OF plain, unfolded dashboardTaskDetailPath_def]
    by (intro exI [of _ "hrefEscaper (''/dashboard/tasks/'' @ ID t)"]) simp
qed

theorem dashboard_link_opens_task_witness:
  "let i = fst (newID (calmWorld [] ())); t = scanTask (sampleRow i StatusPending)
   in \<exists>href pre post. htmlUnescape href = ''/dashboard/tasks/'' @ i
      \<and> taskTableRow t = pre @ ''href='' @ [CHR 0x22] @ href @ [CHR 0x22] @ post
      \<and> fst (ServeHTTP (appServer ''a'' \<lparr>rspClient = obligingRedis, rspStreamName = ''tasks:stream''\<rparr>
            \<lparr>rsqClient = obligingRedis, rsqKey = ''tasks:scheduled''\<rparr>)
          \<lparr>rdDashboard = \<lambda>_. None, rdDetail = \<lambda>_. None, rdFloat = \<lambda>_. [], rdWriter = \<lparr>wrFail = \<lambda>_. None, wrCalls = 0, wrOut = []\<rparr>\<rparr> (getRequest (htmlUnescape href))
          (calmWorld [sampleRow i StatusPending] ())) = HtmlResponse (DetailPage \<lparr>tdTask = t\<rparr>)"
proof -
  let ?i = "fst (newID (calmWorld [] ()))"
  let ?t = "scanTask (sampleRow ?i StatusPending)" and ?w = "calmWorld [sampleRow ?i StatusPending] ()"
  have n: "newID (calmWorld [] ()) = (ID ?t, snd (newID (calmWorld [] ())))" by simp
  have w: "quiet 1 ?w" "db_inv (wTable ?w)" "row (wTable ?w) (ID ?t) = Some (sampleRow ?i StatusPending)"
    by (simp_all add: quiet_def db_inv_def table_ok_def sampleRow_inv row_def)
  let ?rd = "\<lparr>rdDashboard = \<lambda>_. None, rdDetail = \<lambda>_. None, rdFloat = \<lambda>_. [],
      rdWriter = \<lparr>wrFail = \<lambda>_. None, wrCalls = 0, wrOut = []\<rparr>\<rparr>"
  have d: "\<forall>v. rdDetail ?rd v = None" by simp
  let ?get = "\<lambda>href. fst (ServeHTTP (appServer ''a'' \<lparr>rspClient = obligingRedis, rspStreamName = ''tasks:stream''\<rparr>
            \<lparr>rsqClient = obligingRedis, rsqKey = ''tasks:scheduled''\<rparr>) ?rd (getRequest (htmlUnescape href)) ?w)"
  from dashboard_link_opens_task [OF n w(1,2) d] obtain href pre post page where
    h: "htmlUnescape href = ''/dashboard/tasks/'' @ ID ?t" "taskTableRow ?t = pre @ ''href='' @ [CHR 0x22] @ href @ [CHR 0x22] @ post"
      "?get href = HtmlResponse page"
    and p: "case row (wTable ?w) (ID ?t) of Some r \<Rightarrow> page = DetailPage \<lparr>tdTask = scanTask r\<rparr>
         \<and> htmlBody page = Some (dashboardTaskDetailTemplate \<lparr>tdTask = scanTask r\<rparr>)
       | None \<Rightarrow> page = HttpError 404 ''task not found''" by blast
  from p have page: "page = DetailPage \<lparr>tdTask = ?t\<rparr>" unfolding w(3) option.case by blast
  have i: "ID ?t = ?i" by simp
  show ?thesis
    unfolding Let_def by (rule exI [of _ href], rule exI [of _ pre], rule exI [of _ post], rule conjI [OF h(1) [unfolded i]],
        rule conjI [OF h(2) h(3) [unfolded page]])
qed

end
