(* ===== verification/App.thy ===== *)
theory App
  imports Scheduler WorkerPool Dependencies Server
begin

text \<open>
  The application, \<open>internal/app/app.go\<close>, which assembles the components from the configuration, runs them and shuts them down.
\<close>

section \<open>Assembly\<close>

definition appAssemble :: "Config \<Rightarrow> 'r redis_client \<Rightarrow> 'r HandlerRegistry
    \<Rightarrow> 'r Service \<times> 'r Server \<times> 'r Worker \<times> 'r Scheduler" where
  "appAssemble cfg client handlerRegistry =
     (let streamPublisher = NewRedisStreamPublisher client (rcStreamName (cfgRedis cfg));
          scheduledQueue = NewRedisScheduledQueue client (rcScheduledSetKey (cfgRedis cfg));
          deadPublisher = NewRedisDeadStreamPublisher client (rcDeadStreamName (cfgRedis cfg));
          taskService = ServiceWithMetrics True
            (NewService pgCreatorGetter (PublishTask streamPublisher) (ScheduleTask scheduledQueue));
          server = ServerNew \<lparr>hsAddr = hcAddr (cfgHTTP cfg)\<rparr> (serviceStore taskService)
            (Some (WithSnapshotProvider MetricsSnapshot None));
          streamConsumer = NewRedisStreamConsumer client (rcStreamName (cfgRedis cfg)) (rcConsumerGroup (cfgRedis cfg))
            (rcConsumerName (cfgRedis cfg)) (wrap64 (5 * Second));
          workerRunner = WithDeadPublisher (Some (PublishDead deadPublisher)) (WithMetrics True
            (WithBatchSize (wcBatchSize (cfgWorker cfg)) (WithConcurrency (wcConcurrency (cfgWorker cfg))
              (WithHandlerRegistry (Some handlerRegistry)
                (WorkerNew (redisConsumer streamConsumer) pgWorkerStore (rcConsumerName (cfgRedis cfg)))))));
          schedulerRunner = SchedulerWithDeadPublisher (Some (PublishDead deadPublisher))
            (SchedulerNew pgTaskStore (PublishTask streamPublisher) (redisScheduledQueue scheduledQueue)
              (secondsDuration (scIntervalSeconds (cfgScheduler cfg))) (scfBatchSize (cfgScheduler cfg)))
      in (taskService, server, workerRunner, schedulerRunner))"

text \<open>The assembled components are the ones the properties of the other theories are about.\<close>

lemma appAssemble_eq:
  "appAssemble cfg client shippedHandlers =
     (let rc = cfgRedis cfg;
          p = \<lparr>rspClient = client, rspStreamName = rcStreamName rc\<rparr>;
          q = \<lparr>rsqClient = client, rsqKey = rcScheduledSetKey rc\<rparr>;
          dp = \<lparr>rdpClient = client, rdpStreamName = rcDeadStreamName rc\<rparr>;
          c = \<lparr>rscClient = client, rscStreamName = rcStreamName rc, rscGroupName = rcConsumerGroup rc,
               rscConsumer = rcConsumerName rc, rscBlock = wrap64 (5 * Second)\<rparr>
      in (appService p q, appServer (hcAddr (cfgHTTP cfg)) p q, appWorker c dp (wcConcurrency (cfgWorker cfg)) (wcBatchSize (cfgWorker cfg)),
          appScheduler p q dp (secondsDuration (scIntervalSeconds (cfgScheduler cfg))) (scfBatchSize (cfgScheduler cfg))))"
  by (simp add: appAssemble_def appService_def appWorker_def appScheduler_def NewService_def ServiceWithMetrics_def
      NewRedisStreamPublisher_def NewRedisScheduledQueue_def NewRedisDeadStreamPublisher_def NewRedisStreamConsumer_def ServerNew_def appServer_def
      WithSnapshotProvider_def Let_def)

section \<open>Running and shutting down\<close>

text \<open>The \<open>server\<close> field is set while \<open>Run\<close> assembles the components, and read by \<open>Run\<close> only.\<close>

record App =
  apConfig :: Config

definition AppNew :: "Config \<Rightarrow> App" where
  "AppNew cfg = \<lparr>apConfig = cfg\<rparr>"

definition shutdownTimeout :: Duration where
  "shutdownTimeout = wrap64 (10 * Second)"

datatype runner = ServerRunner | WorkerRunner | SchedulerRunner

text \<open>The case the \<open>select\<close> takes, and what the application does after it.\<close>

datatype app_event = ShutdownRequested | RunnerExited runner "goerror option"

datatype app_action = DoConn conn_action | Start runner | CancelRunners | ShutdownServer | AwaitRunner runner

definition earlyError :: "app_event \<Rightarrow> goerror option" where
  "earlyError ev = (case ev of
     ShutdownRequested \<Rightarrow> None
   | RunnerExited ServerRunner err \<Rightarrow> (if err \<noteq> None \<and> \<not> errIs err ErrServerClosed then err else None)
   | RunnerExited _ err \<Rightarrow> err)"

definition runnerDone :: "app_event \<Rightarrow> runner \<Rightarrow> bool" where
  "runnerDone ev r = (case ev of ShutdownRequested \<Rightarrow> False | RunnerExited r' _ \<Rightarrow> r = r')"

definition appShutdown :: "app_event \<Rightarrow> app_action list" where
  "appShutdown ev =
     [CancelRunners, ShutdownServer]
     @ (if \<not> runnerDone ev ServerRunner then [AwaitRunner ServerRunner] else [])
     @ (if \<not> runnerDone ev WorkerRunner then [AwaitRunner WorkerRunner] else [])
     @ (if \<not> runnerDone ev SchedulerRunner then [AwaitRunner SchedulerRunner] else [])"

definition AppRun :: "(string \<Rightarrow> string) \<Rightarrow> App \<Rightarrow> conn \<Rightarrow> 'r itself \<Rightarrow> app_event \<Rightarrow> goerror option \<times> app_action list" where
  "AppRun quote a cn ty ev =
     (case Connect (apConfig a) cn of
        (Some err, acts) \<Rightarrow> (Some err, map DoConn acts)
      | (None, acts) \<Rightarrow>
          (case (appHandlerRegistry quote :: goerror + 'r HandlerRegistry) of
             Inl err \<Rightarrow> (Some err, map DoConn acts @ map DoConn (depsClose cn))
           | Inr _ \<Rightarrow>
               (earlyError ev,
                map DoConn acts @ [Start ServerRunner, Start WorkerRunner, Start SchedulerRunner]
                  @ appShutdown ev @ map DoConn (depsClose cn))))"

text \<open>\<open>waitForRunner\<close> in time: it returns when the runner's result is there or the context expires,
  whichever is first, and at once if that is past.\<close>

definition waitForRunner :: "Time \<Rightarrow> Time option \<Rightarrow> Time \<Rightarrow> Time" where
  "waitForRunner deadline exitTime now =
     max now (case exitTime of None \<Rightarrow> deadline | Some t \<Rightarrow> min t deadline)"

text \<open>The end of the shut-down that begins at \<open>start\<close>: first the server, then the runners that have not exited yet.\<close>

definition shutdownEnd :: "Time \<Rightarrow> goerror option \<Rightarrow> Time option \<Rightarrow> (runner \<Rightarrow> Time option) \<Rightarrow> app_event \<Rightarrow> Time" where
  "shutdownEnd start closeErr idleAt exitTime ev =
     (let deadline = start + shutdownTimeout
      in fold (\<lambda>r now. if runnerDone ev r then now else waitForRunner deadline (exitTime r) now)
           [ServerRunner, WorkerRunner, SchedulerRunner] (fst (ServerShutdown deadline closeErr idleAt start)))"

section \<open>The main program\<close>

text \<open>\<open>cmd/gotaskqueue/main.go\<close>: load the configuration from the environment, run the application until a signal
  or an early exit, and report an error as exit code 1.\<close>

definition mainProgram :: "(string \<Rightarrow> string) \<Rightarrow> (string \<Rightarrow> string) \<Rightarrow> conn \<Rightarrow> 'r itself \<Rightarrow> app_event \<Rightarrow> int \<times> app_action list" where
  "mainProgram getenv quote cn ty ev =
     (let cfg = Load getenv; application = AppNew cfg
      in case AppRun quote application cn ty ev of
           (Some err, acts) \<Rightarrow> (1, acts)
         | (None, acts) \<Rightarrow> (0, acts))"

section \<open>Properties\<close>

text \<open>The number of times a client is opened and closed.\<close>

definition balanced :: "conn_action list \<Rightarrow> bool" where
  "balanced acts \<longleftrightarrow> count_list acts OpenRedis = count_list acts CloseRedis \<and> count_list acts OpenPool = count_list acts ClosePool"

text \<open>C30. Start-up and shut-down are in order. However the connection attempts and the first exit turn out,
  every client that was opened is closed exactly once. When the connections are there, the application
  opens the clients, starts each runner once, cancels the runners, shuts the server down, awaits each runner that has not
  exited yet exactly once, and then closes the clients; it does nothing else and nothing twice. It reports the error of the
  runner that exited first, and none when it was asked to stop or the server was closed. When a connection
  fails, it reports this and starts no runner.\<close>

theorem app_run_orderly:
  assumes "AppRun quote a cn TYPE('r) ev = (res, acts)"
  shows "balanced (concat (map (\<lambda>a. case a of DoConn c \<Rightarrow> [c] | _ \<Rightarrow> []) acts))
    \<and> (fst (Connect (apConfig a) cn) \<noteq> None \<longrightarrow> res = fst (Connect (apConfig a) cn) \<and> (\<forall>r. Start r \<notin> set acts))
    \<and> (fst (Connect (apConfig a) cn) = None \<longrightarrow> res = earlyError ev
        \<and> (\<forall>r. AwaitRunner r \<in> set acts \<longleftrightarrow> \<not> runnerDone ev r)
        \<and> distinct acts
        \<and> (\<exists>starts awaits. acts = [DoConn OpenRedis, DoConn OpenPool] @ starts @ [CancelRunners, ShutdownServer] @ awaits
              @ [DoConn CloseRedis, DoConn ClosePool]
            \<and> distinct starts \<and> set starts = range Start \<and> distinct awaits \<and> set awaits = AwaitRunner ` {r. \<not> runnerDone ev r}))"
proof (cases "fst (Connect (apConfig a) cn)")
  case (Some e)
  with assms show ?thesis
    by (auto simp: AppRun_def Connect_def balanced_def split: prod.splits option.splits)
next
  case None
  define awaits where "awaits = (if \<not> runnerDone ev ServerRunner then [AwaitRunner ServerRunner] else [])
     @ (if \<not> runnerDone ev WorkerRunner then [AwaitRunner WorkerRunner] else [])
     @ (if \<not> runnerDone ev SchedulerRunner then [AwaitRunner SchedulerRunner] else [])"
  have aw: "distinct awaits" "set awaits = AwaitRunner ` {r. \<not> runnerDone ev r}"
  proof -
    show "distinct awaits" by (simp add: awaits_def)
    have u: "{r. \<not> runnerDone ev r} = {r \<in> {ServerRunner, WorkerRunner, SchedulerRunner}. \<not> runnerDone ev r}"
      using runner.exhaust by blast
    show "set awaits = AwaitRunner ` {r. \<not> runnerDone ev r}" unfolding u by (auto simp: awaits_def)
  qed
  have c: "Connect (apConfig a) cn = (None, [OpenRedis, OpenPool])"
    using None by (auto simp: Connect_def split: option.splits)
  have acts: "acts = [DoConn OpenRedis, DoConn OpenPool, Start ServerRunner, Start WorkerRunner, Start SchedulerRunner]
      @ [CancelRunners, ShutdownServer] @ awaits @ [DoConn CloseRedis, DoConn ClosePool]" and res: "res = earlyError ev"
    using assms c by (auto simp: AppRun_def appHandlerRegistry_eq appShutdown_def awaits_def depsClose_def)
  have range: "set [Start ServerRunner, Start WorkerRunner, Start SchedulerRunner] = range Start"
    using runner.exhaust by (auto simp: image_iff)
  have "balanced (concat (map (\<lambda>a. case a of DoConn c \<Rightarrow> [c] | _ \<Rightarrow> []) acts))"
    by (simp add: acts awaits_def balanced_def)
  moreover have "AwaitRunner r \<in> set acts \<longleftrightarrow> \<not> runnerDone ev r" for r
    using aw(2) by (auto simp: acts)
  moreover have "distinct acts" using aw by (auto simp: acts)
  moreover have "\<exists>starts awaits. acts = [DoConn OpenRedis, DoConn OpenPool] @ starts @ [CancelRunners, ShutdownServer] @ awaits
              @ [DoConn CloseRedis, DoConn ClosePool]
            \<and> distinct starts \<and> set starts = range Start \<and> distinct awaits \<and> set awaits = AwaitRunner ` {r. \<not> runnerDone ev r}"
    using range aw
    by (intro exI [of _ "[Start ServerRunner, Start WorkerRunner, Start SchedulerRunner]"] exI [of _ awaits]) (simp add: acts)
  ultimately show ?thesis
    using None res by blast
qed

theorem app_run_orderly_witness:
  "\<exists>acts. AppRun (\<lambda>s. s) (AppNew (Load (\<lambda>_. ''''))) \<lparr>cnRedisPing = None, cnPoolNew = None, cnPoolPing = None, cnRedisClose = None\<rparr>
       TYPE(unit) (RunnerExited WorkerRunner (Some (NewError ''x''))) = (Some (NewError ''x''), acts)
     \<and> AwaitRunner SchedulerRunner \<in> set acts \<and> AwaitRunner WorkerRunner \<notin> set acts"
proof -
  let ?cn = "\<lparr>cnRedisPing = None, cnPoolNew = None, cnPoolPing = None, cnRedisClose = None\<rparr>"
  let ?ev = "RunnerExited WorkerRunner (Some (NewError ''x''))"
  obtain res acts where h: "AppRun (\<lambda>s. s) (AppNew (Load (\<lambda>_. ''''))) ?cn TYPE(unit) ?ev = (res, acts)" by fastforce
  from app_run_orderly [OF h] h show ?thesis
    by (auto simp: Connect_def earlyError_def runnerDone_def)
qed

text \<open>C31. The shut-down ends by its deadline. From the moment it begins, waiting for the server's connections
  and for the runners takes ten seconds at most, even when a connection never becomes idle and no runner
  ever exits; and when the connections are idle and every runner has exited by some time before that, it
  ends by then. This is the waiting up to the message that the shut-down is complete; the deferred closing of the
  clients comes after it.\<close>

theorem shutdown_bounded:
  "shutdownEnd start closeErr idleAt exitTime ev \<le> start + 10 * Second
    \<and> ((\<forall>r. \<not> runnerDone ev r \<longrightarrow> (\<exists>t. exitTime r = Some t \<and> t \<le> T)) \<and> (\<exists>t. idleAt = Some t \<and> t \<le> T)
          \<and> start \<le> T \<and> T \<le> start + 10 * Second
        \<longrightarrow> shutdownEnd start closeErr idleAt exitTime ev \<le> T)"
proof -
  let ?D = "start + 10 * Second" and ?s = "fst (ServerShutdown (start + 10 * Second) closeErr idleAt start)"
  have "shutdownTimeout = 10 * Second" by (simp add: shutdownTimeout_def wrap64_def Second_def)
  then have e: "shutdownEnd start closeErr idleAt exitTime ev =
      fold (\<lambda>r now. if runnerDone ev r then now else waitForRunner ?D (exitTime r) now)
        [ServerRunner, WorkerRunner, SchedulerRunner] ?s"
    by (simp add: shutdownEnd_def Let_def)
  have fold_le: "fold f rs x \<le> B" if "x \<le> B" "\<And>r y. y \<le> B \<Longrightarrow> f r y \<le> B" for f and rs :: "runner list" and x B :: Time
    using that by (induction rs arbitrary: x) auto
  have "?s \<le> ?D" by (auto simp: ServerShutdown_def Second_def split: option.split)
  then have "shutdownEnd start closeErr idleAt exitTime ev \<le> ?D"
    unfolding e by (rule fold_le) (auto simp: waitForRunner_def split: option.split)
  moreover have "shutdownEnd start closeErr idleAt exitTime ev \<le> T"
    if "\<forall>r. \<not> runnerDone ev r \<longrightarrow> (\<exists>t. exitTime r = Some t \<and> t \<le> T)" "\<exists>t. idleAt = Some t \<and> t \<le> T" "start \<le> T" "T \<le> ?D"
  proof -
    have "?s \<le> T" using that(2-4) by (auto simp: ServerShutdown_def)
    then show ?thesis
      unfolding e by (rule fold_le) (use that(1) in \<open>auto simp: waitForRunner_def\<close>)
  qed
  ultimately show ?thesis by blast
qed

theorem shutdown_bounded_witness:
  "shutdownEnd 0 None (Some 5) (\<lambda>_. Some 7) ShutdownRequested \<le> 9
    \<and> shutdownEnd 0 None None (\<lambda>_. None) ShutdownRequested \<le> 10 * Second"
  using shutdown_bounded [of 0 None "Some 5" "\<lambda>_. Some 7" ShutdownRequested 9]
    shutdown_bounded [of 0 None None "\<lambda>_. None" ShutdownRequested 9] by (auto simp: Second_def)

text \<open>The exit code of the process: 0 exactly when the application stopped without an error.\<close>

lemma mainProgram_exit_code:
  "mainProgram getenv quote cn TYPE('r) ev
     = (if fst (AppRun quote (AppNew (Load getenv)) cn TYPE('r) ev) = None then 0 else 1,
        snd (AppRun quote (AppNew (Load getenv)) cn TYPE('r) ev))"
  by (simp add: mainProgram_def Let_def split: prod.split option.split)

text \<open>A server that returns after its orderly shut-down does not count as an error.\<close>

lemma orderly_server_exit:
  assumes "listen (svAddr s) = None" "\<forall>e. AcceptFailed e \<notin> set es"
  shows "earlyError (RunnerExited ServerRunner (ServerRun s listen False (es @ ShutdownBegins # fs))) = None"
  by (simp add: ServerRun_after_Shutdown(2) [where listen = listen and s = s, OF assms] earlyError_def errIs_def)

text \<open>An interval setting that overflows stops the scheduler. The interval is the setting in seconds,
  multiplied out in 64 bits. Up to 9223372036 seconds it is positive; from 9223372037 on the product can
  wrap around to a value that is not positive, and then the scheduler panics after its first tick, and
  with it the process.\<close>

theorem interval_overflow_panics:
  assumes "fst (Tick (appScheduler p q dp (secondsDuration n) b) w) = None"
  shows "((\<exists>msg. fst (SchedulerRun (appScheduler p q dp (secondsDuration n) b) es w) = Panicked msg)
            \<longleftrightarrow> secondsDuration n \<le> 0)
    \<and> (1 \<le> n \<and> n \<le> 9223372036 \<longrightarrow> 0 < secondsDuration n) \<and> secondsDuration 9223372037 \<le> 0"
proof -
  have loop: "fst (schedulerLoop s es v) \<noteq> Panicked msg" for s :: "'a Scheduler" and es v msg
    by (induction s es v rule: schedulerLoop.induct) auto
  have "secondsDuration 9223372037 \<le> 0" by (simp add: secondsDuration_def wrap64_def Second_def)
  moreover have "0 < secondsDuration n" if "1 \<le> n" "n \<le> 9223372036"
    using secondsDuration_exact [of n] that by (simp add: Second_def)
  ultimately show ?thesis
    using assms loop by (auto simp: SchedulerRun_def split: prod.splits option.splits)
qed

theorem interval_overflow_panics_witness:
  "let s = appScheduler \<lparr>rspClient = obligingRedis, rspStreamName = ''tasks:stream''\<rparr>
         \<lparr>rsqClient = obligingRedis, rsqKey = ''tasks:scheduled''\<rparr> \<lparr>rdpClient = obligingRedis, rdpStreamName = ''tasks:dead''\<rparr>
         (secondsDuration (envInt (\<lambda>_. FormatInt 9223372037) ''SCHEDULER_INTERVAL_SECONDS'' 2)) 100
   in \<exists>msg. fst (SchedulerRun s [CtxDone] (calmWorld [] ())) = Panicked msg"
proof -
  have "envInt (\<lambda>_. FormatInt 9223372037) ''SCHEDULER_INTERVAL_SECONDS'' 2 = 9223372037"
    using natDigits_value [of 9223372037] by (simp add: envInt_eq FormatInt_def wrap64_def)
  moreover have t: "fst (Tick (appScheduler \<lparr>rspClient = obligingRedis, rspStreamName = ''tasks:stream''\<rparr>
         \<lparr>rsqClient = obligingRedis, rsqKey = ''tasks:scheduled''\<rparr> \<lparr>rdpClient = obligingRedis, rdpStreamName = ''tasks:dead''\<rparr>
         (secondsDuration 9223372037) 100) (calmWorld [] ())) = None"
    by (simp add: Tick_def timeNow_def recoverExpiredRunning_def scheduleDueZSetTasks_def ExpiredRunning_def DueRetrying_def
        pgExec_def pgSelect_def scanRows_def redisScheduledQueue_def DueTaskIDs_def redisZRangeByScore_def obligingRedis_def Let_def)
  ultimately show ?thesis using interval_overflow_panics [OF t, of "[CtxDone]"] by (simp add: Let_def)
qed

end
