(* ===== verification/Lifecycle.thy ===== *)
theory Lifecycle
  imports Scheduler
begin

text \<open>
  A task across the worker and the scheduler. The worker's \<open>handleMessage\<close> and the scheduler's
  \<open>Tick\<close> take turns in any order, for this task and for others, while no other session writes and no
  statement fails. The theory follows one task whose handler keeps failing: which turns move it, how
  far each moves it, and where it ends.
\<close>

section \<open>Turns\<close>

datatype turn = Deliver StreamMessage | SchedulerTick

primrec turnStep :: "'r Worker \<Rightarrow> 'r Scheduler \<Rightarrow> turn \<Rightarrow> 'r world \<Rightarrow> 'r world" where
  "turnStep wk s (Deliver m) w = snd (handleMessage wk m w)"
| "turnStep wk s SchedulerTick w = snd (Tick s w)"

fun runTurns :: "'r Worker \<Rightarrow> 'r Scheduler \<Rightarrow> turn list \<Rightarrow> 'r world \<Rightarrow> 'r world" where
  "runTurns wk s [] w = w"
| "runTurns wk s (e # es) w = runTurns wk s es (turnStep wk s e w)"

text \<open>
  The turns that concern the task \<open>i\<close>: the delivery of one of its messages while it is pending, and a
  tick that reports no error when the task waits for a retry that is due at the clock of that tick.
\<close>

definition retryDue :: "env \<Rightarrow> Time \<Rightarrow> task_row \<Rightarrow> bool" where
  "retryDue e now r \<longleftrightarrow> c_status r = StatusRetrying \<and> dueAt (envTimestamptz e now) (c_next_retry_at r)"

definition productive :: "'r Scheduler \<Rightarrow> string \<Rightarrow> turn \<Rightarrow> 'r world \<Rightarrow> bool" where
  "productive s i e w = (case row (wTable w) i of
     None \<Rightarrow> False
   | Some r \<Rightarrow> (case e of
       Deliver m \<Rightarrow> mID (smTask m) = i \<and> c_status r = StatusPending
     | SchedulerTick \<Rightarrow> fst (Tick s w) = None \<and> retryDue (wEnv w) (fst (timeNow w)) r))"

text \<open>The number of turns in a sequence for which \<open>P\<close> holds when they begin.\<close>

fun countTurns :: "(turn \<Rightarrow> 'r world \<Rightarrow> bool) \<Rightarrow> 'r Worker \<Rightarrow> 'r Scheduler \<Rightarrow> turn list \<Rightarrow> 'r world \<Rightarrow> nat" where
  "countTurns P wk s [] w = 0"
| "countTurns P wk s (e # es) w = (if P e w then 1 else 0) + countTurns P wk s es (turnStep wk s e w)"

definition executes :: "'r Scheduler \<Rightarrow> string \<Rightarrow> turn \<Rightarrow> 'r world \<Rightarrow> bool" where
  "executes s i e w \<longleftrightarrow> e \<noteq> SchedulerTick \<and> productive s i e w"

text \<open>How far a failing task has come: two turns for every retry, one for the last execution.\<close>

definition position :: "task_row \<Rightarrow> int" where
  "position r = (if c_status r = StatusDead then 2 * c_max_retries r + 1
     else if c_status r = StatusRetrying then 2 * c_retry_count r - 1 else 2 * c_retry_count r)"

text \<open>The executions that were counted against the task.\<close>

definition attempts :: "task_row \<Rightarrow> int" where
  "attempts r = (if c_status r = StatusDead then c_max_retries r + 1 else c_retry_count r)"

text \<open>The entries offered for the task \<open>i\<close> to a stream.\<close>

definition entriesFor :: "string \<Rightarrow> string \<Rightarrow> redis_cmd list \<Rightarrow> nat" where
  "entriesFor stream i cs = length (filter (\<lambda>c. case c of
     CmdXAdd s v ok \<Rightarrow> s = stream \<and> v ''task_id'' = Some (RString i) | _ \<Rightarrow> False) cs)"

lemma entriesFor_simps [simp]:
  "entriesFor s i [] = 0" "entriesFor s i (xs @ ys) = entriesFor s i xs + entriesFor s i ys"
  by (simp_all add: entriesFor_def)

lemma entriesFor_none:
  "(\<And>v ok. CmdXAdd s v ok \<in> set cs \<Longrightarrow> v ''task_id'' \<noteq> Some (RString i)) \<Longrightarrow> entriesFor s i cs = 0"
  by (auto simp: entriesFor_def filter_empty_conv split: redis_cmd.splits)

text \<open>No other session writes and no statement fails.\<close>

definition undisturbed :: "env \<Rightarrow> bool" where
  "undisturbed e \<longleftrightarrow> (\<forall>k. pgFault (envPg e k) = NoFault \<and> (\<forall>t. pgOthers (envPg e k) t = t))"

lemma undisturbed_alone: "undisturbed (wEnv w) \<Longrightarrow> alone w"
  by (simp add: undisturbed_def alone_iff)

lemma same_ids_length:
  assumes "db_inv t" "db_inv t'" "\<And>j. row t' j = None \<longleftrightarrow> row t j = None"
  shows "length t' = length t"
proof -
  have "c_id ` set u = {j. row u j \<noteq> None}" for u
    by (auto simp: row_def find_None_iff find_Some_iff)
  with assms(3) have "set (map c_id t') = set (map c_id t)" by (simp only: set_map)
  moreover have "distinct (map c_id t')" "distinct (map c_id t)" using assms(1,2) by (auto simp: table_ok_distinct)
  ultimately show ?thesis by (metis distinct_card length_map)
qed

section \<open>Turns that pass the task by\<close>

lemma untouched_ack:
  assumes "bystander i r w"
  shows "untouched i r w (snd (coAck (redisConsumer c) x w))"
proof -
  obtain e w' where a: "coAck (redisConsumer c) x w = (e, w')" by fastforce
  show ?thesis unfolding a snd_conv
    by (rule untouched_redis [OF assms rmc.ack_only [OF a] rmc.ack_sent [OF a]]) simp
qed

lemma untouched_observe: "bystander i r w \<Longrightarrow> untouched i r w (observeSince p f st w)"
  by (rule untouched_same) simp_all

lemma untouched_metrics: "bystander i r w \<Longrightarrow> untouched i r w (withMetrics p f w)"
  by (rule untouched_same) (simp_all add: withMetrics_def)

lemma untouched_clock: "bystander i r w \<Longrightarrow> timeNow w = (t, w') \<Longrightarrow> untouched i r w w'"
  by (rule untouched_same) (auto simp: timeNow_def)

lemma untouched_execute:
  "bystander i r w \<Longrightarrow> executeWithTimeout (appWorker c dp n b) t w = (e, w') \<Longrightarrow> untouched i r w w'"
  by (rule untouched_same) (simp_all add: execute_frame)

lemma untouched_dead:
  assumes "bystander i r w" "PublishDead dp dm w = (e, w')" "dmID dm \<noteq> i"
  shows "untouched i r w w'"
  by (rule untouched_redis [OF assms(1) redis_only_methods(2) [OF assms(2)] PublishDead_sent [OF assms(2)]])
    (use assms(3) in \<open>simp add: deadValues_id\<close>)

lemma untouched_failure:
  assumes b: "bystander i r w" and ne: "ID t \<noteq> i"
  shows "untouched i r w (snd (handleExecutionFailure (appWorker c dp n bs) t tr err w))"
proof -
  let ?f = "errorText (envQuote (wEnv w)) err"
  obtain r1 w1 where m: "MarkFailed (ID t) ?f w = (r1, w1)" by fastforce
  note u = conjunct1 [OF untouched_MarkFailed [OF b m]]
  have s: "sound w" "sound w1" using b u by (auto simp: bystander_def untouched_def)
  show ?thesis
  proof (cases r1)
    case (Inl x)
    with m u show ?thesis by (simp add: handleExecutionFailure_def pgWorkerStore_def)
  next
    case (Inr ft)
    obtain r' where r': "row (wTable w1) (ID t) = Some r'" "ft = scanTask r'"
      using MarkFailed_returns [OF s(1) m [unfolded Inr]] by blast
    then have id: "ID ft = ID t" by (auto dest: row_Some_D)
    obtain now w2 where tn: "timeNow w1 = (now, w2)" by fastforce
    note u2 = untouched_trans [OF u untouched_clock [OF untouched_bystander [OF u] tn]]
    have "row_inv r'" using s(2) r'(1) by (auto simp: sound_def dest: row_Some_D db_inv_row)
    then have d: "decision_wf (failureDecision err now ft)" using failureDecision_wf(1) r'(2) by simp
    obtain r3 w3 where k: "CompleteFailure (ID ft) (failureDecision err now ft) ?f w2 = (r3, w3)" by fastforce
    note u3 = untouched_trans [OF u2 conjunct1 [OF untouched_CompleteFailure [OF untouched_bystander [OF u2] d k]]]
    have u3: "untouched i r w w3" by (rule u3) (use id ne in simp)
    show ?thesis
    proof (cases r3)
      case x: (Inl x)
      with m Inr tn k u3 show ?thesis by (simp add: handleExecutionFailure_def pgWorkerStore_def)
    next
      case x: (Inr x)
      let ?w4 = "withMetrics True (countFinal (Status x)) w3"
      note u4 = untouched_trans [OF u3 untouched_metrics [OF untouched_bystander [OF u3]]]
      let ?dm = "\<lparr>dmID = ID t, dmType = Type t, dmTraceID = tr, dmLastError = ?f, dmRetryCount = RetryCount x\<rparr>"
      obtain e w5 where p: "PublishDead dp ?dm ?w4 = (e, w5)" by fastforce
      have "untouched i r w w5" by (rule untouched_trans [OF u4 untouched_dead [OF untouched_bystander [OF u4] p]]) (use ne in simp)
      with m Inr tn k x u4 p show ?thesis
        by (cases "Status x = StatusDead") (simp_all add: handleExecutionFailure_def pgWorkerStore_def Let_def)
    qed
  qed
qed

lemma untouched_run:
  assumes b: "bystander i r w" and ne: "ID t \<noteq> i" "mID (smTask m) \<noteq> i"
  shows "untouched i r w (snd (runTask (appWorker c dp n bs) m tr t w))"
proof -
  obtain st w1 where tn: "timeNow w = (st, w1)" by fastforce
  note u1 = untouched_clock [OF b tn]
  obtain e w2 where x: "executeWithTimeout (appWorker c dp n bs) t w1 = (e, w2)" by fastforce
  note u2 = untouched_trans [OF u1 untouched_execute [OF untouched_bystander [OF u1] x]]
  have finish: "untouched i r w (snd (coAck (redisConsumer c) y (observeSince True f st v)))" if "untouched i r w v" for f v y
    using untouched_trans [OF that untouched_observe [OF untouched_bystander [OF that], of True f st]]
      untouched_ack untouched_bystander untouched_trans by blast
  show ?thesis
  proof (cases e)
    case None
    obtain r3 w3 where t3: "Transition (mID (smTask m)) StatusRunning StatusSuccess (Some (rscConsumer c)) w2 = (r3, w3)" by fastforce
    have p: "program_transition StatusRunning StatusSuccess (Some (rscConsumer c))" by (simp add: program_transition_def)
    have "untouched i r w2 w3" using untouched_Transition [OF untouched_bystander [OF u2] p _ t3] ne(2) by blast
    from untouched_trans [OF u2 this] finish show ?thesis
      using tn x None t3 by (simp add: runTask_def pgWorkerStore_def split: sum.split)
  next
    case (Some err)
    obtain r3 w3 where h: "handleExecutionFailure (appWorker c dp n bs) t tr err w2 = (r3, w3)" by fastforce
    have "untouched i r w w3"
      using untouched_trans [OF u2 untouched_failure [OF untouched_bystander [OF u2] ne(1)]] h by (metis snd_conv)
    with finish show ?thesis using tn x Some h by (simp add: runTask_def split: option.split)
  qed
qed

lemma untouched_message:
  assumes b: "bystander i r w" and ne: "mID (smTask m) \<noteq> i \<or> c_status r \<noteq> StatusPending"
  shows "untouched i r w (snd (handleMessage (appWorker c dp n bs) m w))"
proof -
  let ?j = "mID (smTask m)"
  obtain r1 w1 where g: "Get ?j w = (r1, w1)" by fastforce
  then obtain r0 where "pgExec (\<lambda>c t. (Inr (filter (\<lambda>x. c_id x = ?j) t), t)) w = (r0, w1)"
    by (auto simp: Get_def split: prod.splits)
  from untouched_read [OF b this] have u1: "untouched i r w w1" by simp
  note b1 = untouched_bystander [OF u1]
  have s: "sound w" "sound w1" using b b1 by (simp_all add: bystander_def)
  show ?thesis
  proof (cases r1)
    case (Inl x)
    with g u1 show ?thesis by (simp add: handleMessage_def pgWorkerStore_def)
  next
    case (Inr ct)
    obtain r' where r': "row (wTable w1) ?j = Some r'" "ct = scanTask r'" using Get_returns [OF s(1) g [unfolded Inr]] by blast
    let ?tr = "if mTraceID (smTask m) = '''' \<and> TraceID ct \<noteq> None then the (TraceID ct) else mTraceID (smTask m)"
    obtain r2 w2 where cl: "claimTask (appWorker c dp n bs) m ct w1 = (r2, w2)" by fastforce
    have u2: "untouched i r w1 w2 \<and> (\<forall>t. r2 = Inr t \<longrightarrow> ID t = ?j \<and> ?j \<noteq> i)"
    proof (cases "smRecovered m \<and> Status ct = StatusRunning")
      case True
      moreover from this have "?j \<noteq> i" using r' b1 by (auto simp: bystander_def)
      ultimately show ?thesis
        using cl r' untouched_observe [OF b1] by (auto simp: claimTask_def dest: row_Some_D)
    next
      case False
      obtain r3 w3 where t3: "Transition ?j StatusPending StatusRunning (Some (rscConsumer c)) w1 = (r3, w3)" by fastforce
      have p: "program_transition StatusPending StatusRunning (Some (rscConsumer c))" by (simp add: program_transition_def)
      have u3: "untouched i r w1 w3 \<and> (\<forall>x. r3 = Inr x \<longrightarrow> ID x \<noteq> i)"
        by (rule untouched_Transition [OF b1 p _ t3]) (use ne in auto)
      have "ID x = ?j" if "r3 = Inr x" for x
        using Transition_returns [OF s(2) t3 [unfolded that]] by (auto dest: row_Some_D)
      with u3 show ?thesis
        using cl False t3 untouched_trans [OF conjunct1 [OF u3] untouched_observe [OF untouched_bystander [OF conjunct1 [OF u3]]]]
        by (auto simp: claimTask_def pgWorkerStore_def split: sum.splits)
    qed
    note u = untouched_trans [OF u1 conjunct1 [OF u2]]
    have "untouched i r w (snd (runTask (appWorker c dp n bs) m ?tr t w2))" if "r2 = Inr t" for t
      by (rule untouched_trans [OF u untouched_run [OF untouched_bystander [OF u]]]) (use u2 that in auto)
    moreover have "untouched i r w (snd (coAck (redisConsumer c) (smRedisID m) w1))"
      by (rule untouched_trans [OF u1 untouched_ack [OF b1]])
    ultimately show ?thesis
      using g Inr cl u by (auto simp: handleMessage_def pgWorkerStore_def Let_def split: sum.split)
  qed
qed

section \<open>Turns that move a failing task\<close>

text \<open>Every execution of the task ends in an error that may be retried.\<close>

definition keepsFailing :: "'r Worker \<Rightarrow> env \<Rightarrow> task_row \<Rightarrow> bool" where
  "keepsFailing wk e r \<longleftrightarrow> (\<forall>t v. ID t = c_id r \<and> Type t = c_task_type r \<and> Payload t = c_payload r \<and> wEnv v = e \<longrightarrow>
     (\<exists>err. fst (executeWithTimeout wk t v) = Some err \<and> \<not> IsNonRetryable (Some err)))"

lemma keepsFailing_identity: "same_identity r r' \<Longrightarrow> keepsFailing wk e r' = keepsFailing wk e r"
  by (simp add: keepsFailing_def same_identityD)

lemma failing_run:
  assumes "db_inv (wTable w)" "quiet 2 w" "row (wTable w) (mID (smTask m)) = Some r" "c_status r = StatusRunning"
    and t: "t = scanTask r" and f: "keepsFailing (appWorker c dp k b) (wEnv w) r"
    and h: "runTask (appWorker c dp k b) m tr t w = (res, w')"
  shows "\<exists>r' dl ok. row (wTable w') (mID (smTask m)) = Some r' \<and> same_identity r r'
      \<and> (\<forall>j. j \<noteq> mID (smTask m) \<longrightarrow> row (wTable w') j = row (wTable w) j)
      \<and> (if c_retry_count r < c_max_retries r then c_status r' = StatusRetrying \<and> c_retry_count r' = c_retry_count r + 1
         else c_status r' = StatusDead)
      \<and> wSent w' = wSent w @ dl @ [CmdXAck (rscStreamName c) (rscGroupName c) (smRedisID m) ok]
      \<and> entriesFor (rdpStreamName dp) (mID (smTask m)) dl = (if c_status r' = StatusDead then 1 else 0)"
proof -
  obtain st w1 where n: "timeNow w = (st, w1)" by fastforce
  have id: "ID t = mID (smTask m)" using assms(3) by (auto simp: t dest: row_Some_D)
  have "wEnv w1 = wEnv w" using n by (auto simp: timeNow_def)
  then obtain err w2 where e: "executeWithTimeout (appWorker c dp k b) t w1 = (Some err, w2)" "\<not> IsNonRetryable (Some err)"
    using f [unfolded keepsFailing_def, rule_format, of t w1] by (metis eq_fst_iff scanTask_simps(1,2,3) t)
  have w2: "wTable w2 = wTable w" "wEnv w2 = wEnv w" "wPgCalls w2 = wPgCalls w" "wSent w2 = wSent w"
    using execute_frame [OF e(1)] n by (auto simp: timeNow_def)
  have q: "quiet 2 w2" by (rule quiet_same [OF assms(2)]) (simp_all add: w2)
  obtain x w3 where x: "handleExecutionFailure (appWorker c dp k b) t tr err w2 = (x, w3)" by fastforce
  obtain r' where x': "x = None" "row (wTable w3) (ID t) = Some r'"
      "failure_row (wEnv w2) (envClock (wEnv w2) (wClockReads w2)) err r r'"
      "\<forall>j. j \<noteq> ID t \<longrightarrow> row (wTable w3) j = row (wTable w2) j"
      "if c_status r' = StatusDead then \<exists>ok. wSent w3 = wSent w2 @ [CmdXAdd (rdpStreamName dp)
          (deadEntry t tr (errorText (envQuote (wEnv w2)) err) (c_retry_count r')) ok] else wSent w3 = wSent w2"
    using quiet_failure [OF _ q _ assms(4) x] assms(1,3) id w2(1) by auto
  have dl: "\<exists>dl. wSent w3 = wSent w @ dl \<and> entriesFor (rdpStreamName dp) (ID t) dl = (if c_status r' = StatusDead then 1 else 0)"
    using x'(5) by (cases "c_status r' = StatusDead")
      (auto simp: w2(4) entriesFor_def deadEntry_def deadValues_id)
  obtain a where a: "coAck (redisConsumer c) (smRedisID m) (observeSince True TaskFailed st w3) = (a, w')"
    using h n e x x'(1) by (cases "coAck (redisConsumer c) (smRedisID m) (observeSince True TaskFailed st w3)")
      (simp add: runTask_def)
  show ?thesis
    using Ack_frame [OF a] x'(2,3,4) dl e(2) id
    by (auto simp: failure_row_def w2 split: if_splits)
qed

lemma failing_delivery:
  assumes "sound w" "alone w" "row (wTable w) (mID (smTask m)) = Some r" "c_status r = StatusPending"
    and f: "keepsFailing (appWorker c dp k b) (wEnv w) r"
    and h: "handleMessage (appWorker c dp k b) m w = (res, w')"
  shows "\<exists>r' dl. row (wTable w') (mID (smTask m)) = Some r' \<and> same_identity r r'
      \<and> (\<forall>j. j \<noteq> mID (smTask m) \<longrightarrow> row (wTable w') j = row (wTable w) j)
      \<and> (if c_retry_count r < c_max_retries r then c_status r' = StatusRetrying \<and> c_retry_count r' = c_retry_count r + 1
         else c_status r' = StatusDead)
      \<and> wSent w' = wSent w @ dl
      \<and> entriesFor (rdpStreamName dp) (mID (smTask m)) dl = (if c_status r' = StatusDead then 1 else 0)"
proof -
  let ?i = "mID (smTask m)"
  have inv: "db_inv (wTable w)" using assms(1) by (simp add: sound_def)
  have nt: "\<not> IsTerminal (c_status r)" using assms(4) by simp
  obtain w1 tr where w1: "w1 = w\<lparr>wPgCalls := Suc (wPgCalls w)\<rparr>" "quiet 3 w1"
    and h1: "handleMessage (appWorker c dp k b) m w =
       (case claimTask (appWorker c dp k b) m (scanTask r) w1 of
          (Inl err, w2) \<Rightarrow> (Some err, w2) | (Inr t, w2) \<Rightarrow> runTask (appWorker c dp k b) m tr t w2)"
    using handleMessage_quiet [OF inv alone_quiet [OF assms(2)] assms(3) nt, where c = c and dp = dp and k = k and b = b] by blast
  have q1: "quiet (Suc 2) w1" using w1(2) by (simp add: numeral_3_eq_3)
  have can: "CanTransition StatusPending StatusRunning" by (simp add: CanTransition_iff)
  let ?f = "setTransition StatusRunning (Some (rscConsumer c)) (pgNow (pgNext w1))"
  define w2 where "w2 = observeSince True TaskStarted (c_created_at r)
    (w1\<lparr>wPgCalls := Suc (wPgCalls w1), wTable := update_where (\<lambda>r. c_id r = ?i \<and> c_status r = StatusPending) ?f (wTable w)\<rparr>)"
  have cl: "claimTask (appWorker c dp k b) m (scanTask r) w1 = (Inr (scanTask (?f r)), w2)"
    using Transition_quiet [OF q1 _ _ assms(4) can, of ?i "Some (rscConsumer c)"] inv assms(3,4)
    by (simp add: claimTask_def pgWorkerStore_def w1(1) w2_def) (simp add: setTransition_def)
  have inv2: "db_inv (wTable w2)" unfolding w2_def
    by (simp, rule update_where_db_inv [OF inv], rule setTransition_step [where src = StatusPending])
      (simp_all add: program_transition_def)
  have q2: "quiet 2 w2" by (rule quiet_later [OF q1]) (simp_all add: w2_def)
  have row2: "row (wTable w2) ?i = Some (?f r)" using assms(3,4) by (simp add: w2_def row_update_where)
  have si: "same_identity r (?f r)" by (simp add: setTransition_def same_identity_def identity_def)
  have f2: "keepsFailing (appWorker c dp k b) (wEnv w2) (?f r)"
    using f keepsFailing_identity [OF si, of "appWorker c dp k b"] by (simp add: w2_def w1(1) del: setTransition_id)
  have run: "runTask (appWorker c dp k b) m tr (scanTask (?f r)) w2 = (res, w')" using h h1 cl by simp
  obtain r' dl ok where x: "row (wTable w') ?i = Some r'" "same_identity (?f r) r'"
      "\<forall>j. j \<noteq> ?i \<longrightarrow> row (wTable w') j = row (wTable w2) j"
      "if c_retry_count (?f r) < c_max_retries (?f r)
       then c_status r' = StatusRetrying \<and> c_retry_count r' = c_retry_count (?f r) + 1 else c_status r' = StatusDead"
      "wSent w' = wSent w2 @ dl @ [CmdXAck (rscStreamName c) (rscGroupName c) (smRedisID m) ok]"
      "entriesFor (rdpStreamName dp) ?i dl = (if c_status r' = StatusDead then 1 else 0)"
    using failing_run [OF inv2 q2 row2 _ refl f2 run] by (metis setTransition_status)
  have e: "c_retry_count (?f r) = c_retry_count r" "c_max_retries (?f r) = c_max_retries r" by (simp_all add: setTransition_def)
  have rows: "row (wTable w2) j = row (wTable w) j" if "j \<noteq> ?i" for j using that by (simp add: w2_def row_update_where)
  have sent: "wSent w' = wSent w @ (dl @ [CmdXAck (rscStreamName c) (rscGroupName c) (smRedisID m) ok])"
    using x(5) by (simp add: w2_def w1(1))
  have "entriesFor (rdpStreamName dp) ?i (dl @ [CmdXAck (rscStreamName c) (rscGroupName c) (smRedisID m) ok])
      = (if c_status r' = StatusDead then 1 else 0)" using x(6) by (simp add: entriesFor_def)
  with x(1,3,4) e rows sent same_identity_trans [OF si x(2)] show ?thesis by auto
qed

lemma DueRetrying_alone:
  assumes "sound w" "alone w" "int (length (wTable w)) \<le> n"
  shows "\<exists>rs. DueRetrying now n w = (Inr (map scanTask rs), w\<lparr>wPgCalls := Suc (wPgCalls w)\<rparr>)
    \<and> distinct (map c_id rs) \<and> set rs = {r \<in> set (wTable w). retryDue (wEnv w) now r}"
proof -
  let ?k = "\<lambda>r. (case c_next_retry_at r of Some t \<Rightarrow> t | None \<Rightarrow> 0, c_created_at r)"
  let ?s = "sort_key ?k (pgScan (pgNext w) (filter (retryDue (wEnv w) now) (wTable w)))"
  note qn = quiet_now [OF alone_quiet [OF assms(2)]]
  have m: "mset ?s = mset (filter (retryDue (wEnv w) now) (wTable w))"
    using pg_relyD(3) [of "wEnv w"] assms(1) by (simp add: sound_def pgNext_def)
  then have set: "set ?s = {r \<in> set (wTable w). retryDue (wEnv w) now r}" by (metis set_filter set_mset_mset)
  have "distinct (map c_id (wTable w))" using assms(1) by (auto simp: sound_def table_ok_distinct)
  then have "distinct (map c_id (filter (retryDue (wEnv w) now) (wTable w)))" by (rule distinct_map_filter)
  moreover have "mset (map c_id ?s) = mset (map c_id (filter (retryDue (wEnv w) now) (wTable w)))"
    unfolding mset_map m ..
  ultimately have d: "distinct (map c_id ?s)" using mset_eq_imp_distinct_iff by blast
  have l: "length ?s \<le> length (wTable w)" by (metis m length_filter_le size_mset)
  have n: "0 \<le> n" "length ?s \<le> nat n" using assms(3) l by simp_all
  show ?thesis
  proof (intro exI [of _ ?s] conjI)
    show "DueRetrying now n w = (Inr (map scanTask ?s), w\<lparr>wPgCalls := Suc (wPgCalls w)\<rparr>)"
      using n qn by (simp add: DueRetrying_def Let_def scanRows_def pgExec_NoFault pgSelect_def retryDue_def [abs_def])
  qed (fact d, fact set)
qed


lemma tickPrefix_now: "tickPrefix s w = (now, e, w') \<Longrightarrow> now = fst (timeNow w)"
  by (auto simp: tickPrefix_def split: prod.splits option.splits)

lemma tick_sound: "sound w \<Longrightarrow> sound (snd (Tick (appScheduler p q dp iv n) w))"
  using scd.tick_step tick_effect_sound by (metis prod.collapse)

text \<open>The listing of a tick that gets that far, in terms of the table before the tick.\<close>

lemma tick_listing:
  assumes b: "bystander i r w" and n: "int (length (wTable w)) \<le> n"
    and t: "tickPrefix (appScheduler p q dp iv n) w = (now, None, w3)"
  obtains rs w4 where "Tick (appScheduler p q dp iv n) w
      = (None, forEachLogged (scheduleTask (appScheduler p q dp iv n)) (map scanTask rs) w4)"
    "untouched i r w w4" "sound w4" "alone w4" "distinct (map c_id rs)"
    "\<forall>x \<in> set rs. row (wTable w4) (c_id x) = Some x \<and> c_status x = StatusRetrying"
    "i \<in> c_id ` set rs \<longleftrightarrow> retryDue (wEnv w) now r" "r \<in> set rs \<longleftrightarrow> i \<in> c_id ` set rs"
proof -
  note u3 = untouched_prefix [OF b t]
  note b3 = untouched_bystander [OF u3]
  have s: "sound w3" "alone w3" "row (wTable w3) i = Some r" using b3 by (simp_all add: bystander_def)
  have len: "length (wTable w3) = length (wTable w)" using u3 by (metis length_map untouched_def)
  have env: "wEnv w3 = wEnv w" using u3 by (simp add: untouched_def)
  have n3: "int (length (wTable w3)) \<le> n" using n len by simp
  obtain rs where rs: "DueRetrying now n w3 = (Inr (map scanTask rs), w3\<lparr>wPgCalls := Suc (wPgCalls w3)\<rparr>)"
    "distinct (map c_id rs)" "set rs = {r \<in> set (wTable w3). retryDue (wEnv w3) now r}"
    using DueRetrying_alone [OF s(1,2) n3] by blast
  let ?w4 = "w3\<lparr>wPgCalls := Suc (wPgCalls w3)\<rparr>"
  note u4 = untouched_trans [OF u3 untouched_DueRetrying [OF b3 rs(1)]]
  have s4: "sound ?w4" "alone ?w4" using untouched_bystander [OF u4] by (simp_all add: bystander_def)
  have rows: "\<forall>x \<in> set rs. row (wTable ?w4) (c_id x) = Some x \<and> c_status x = StatusRetrying"
    using rs(3) row_unique [OF s4(1)] by (auto simp: retryDue_def)
  have r: "r \<in> set (wTable w3)" "c_id r = i" using s(3) by (auto dest: row_Some_D)
  have "x = r" if "x \<in> set rs" "c_id x = i" for x using rows [rule_format, OF that(1)] s(3) that(2) by simp
  with r have i: "r \<in> set rs \<longleftrightarrow> i \<in> c_id ` set rs" by blast
  have due: "r \<in> set rs \<longleftrightarrow> retryDue (wEnv w) now r" using rs(3) r(1) env by simp
  have tick: "Tick (appScheduler p q dp iv n) w
      = (None, forEachLogged (scheduleTask (appScheduler p q dp iv n)) (map scanTask rs) ?w4)"
    using t rs(1) by (simp add: Tick_prefix)
  show thesis
    by (rule that [OF tick u4 s4 rs(2) rows _ i]) (use due i in blast)
qed


lemma tick_waiting:
  assumes b: "bystander i r w" and n: "int (length (wTable w)) \<le> n"
    and np: "\<not> (fst (Tick (appScheduler p q dp iv n) w) = None \<and> retryDue (wEnv w) (fst (timeNow w)) r)"
  shows "untouched i r w (snd (Tick (appScheduler p q dp iv n) w))"
proof -
  let ?s = "appScheduler p q dp iv n"
  obtain now e w3 where t: "tickPrefix ?s w = (now, e, w3)" by (metis prod.exhaust)
  show ?thesis
  proof (cases e)
    case (Some x)
    with t untouched_prefix [OF b t] show ?thesis by (simp add: Tick_prefix)
  next
    case None
    obtain rs w4 where l: "Tick ?s w = (None, forEachLogged (scheduleTask ?s) (map scanTask rs) w4)"
      "untouched i r w w4" "i \<in> c_id ` set rs \<longleftrightarrow> retryDue (wEnv w) now r"
      using tick_listing [OF b n t [unfolded None]] by metis
    have "i \<notin> c_id ` set rs" using np l(1,3) tickPrefix_now [OF t] by simp
    then have "\<forall>t \<in> set (map scanTask rs). ID t \<noteq> i" by auto
    then have "untouched i r w4 (forEachLogged (scheduleTask ?s) (map scanTask rs) w4)"
      by (intro untouched_forEach untouched_scheduleTask untouched_bystander [OF l(2)]) auto
    with untouched_trans [OF l(2)] l(1) show ?thesis by simp
  qed
qed

lemma tick_dispatches:
  assumes b: "bystander i r w" and n: "int (length (wTable w)) \<le> n" and st: "c_status r = StatusRetrying"
    and ok: "fst (Tick (appScheduler p q dp iv n) w) = None" and due: "retryDue (wEnv w) (fst (timeNow w)) r"
    and ne: "rspStreamName p \<noteq> rdpStreamName dp"
    and w': "w' = snd (Tick (appScheduler p q dp iv n) w)"
  shows "(\<exists>t. row (wTable w') i = Some (setTransition StatusPending None t r)) \<and> length (wTable w') = length (wTable w)
    \<and> (\<exists>cs. wSent w' = wSent w @ cs \<and> entriesFor (rdpStreamName dp) i cs = 0)"
proof -
  let ?s = "appScheduler p q dp iv n"
  obtain now e w3 where t: "tickPrefix ?s w = (now, e, w3)" by (metis prod.exhaust)
  have e: "e = None" using ok t by (cases e) (simp_all add: Tick_prefix)
  obtain rs w4 where l: "Tick ?s w = (None, forEachLogged (scheduleTask ?s) (map scanTask rs) w4)"
      "untouched i r w w4" "sound w4" "alone w4" "distinct (map c_id rs)"
      "\<forall>x \<in> set rs. row (wTable w4) (c_id x) = Some x \<and> c_status x = StatusRetrying"
      "i \<in> c_id ` set rs \<longleftrightarrow> retryDue (wEnv w) now r" "r \<in> set rs \<longleftrightarrow> i \<in> c_id ` set rs"
    using tick_listing [OF b n t [unfolded e]] by metis
  have inv4: "db_inv (wTable w4)" using l(3) by (simp add: sound_def)
  obtain oks where d: "dispatched (rspStreamName p) rs oks w4 w'"
    using dispatch_list [OF inv4 l(4,5), of p q dp iv n] l(1,6) w' by auto
  have "r \<in> set rs" using l(7,8) due tickPrefix_now [OF t] by simp
  moreover have "c_id r = i" using b by (auto simp: bystander_def dest: row_Some_D)
  ultimately have "\<exists>t. row (wTable w') i = Some (setTransition StatusPending None t r)" using d by (auto simp: dispatched_def)
  moreover have "length (wTable w') = length (wTable w4)"
  proof (rule same_ids_length [OF inv4])
    show "db_inv (wTable w')"
      using tick_sound [of w p q dp iv n] b by (simp add: bystander_def sound_def w')
    show "row (wTable w') j = None \<longleftrightarrow> row (wTable w4) j = None" for j
      using d l(6) by (cases "j \<in> c_id ` set rs") (auto simp: dispatched_def)
  qed
  moreover have "length (wTable w4) = length (wTable w)" using l(2) by (metis length_map untouched_def)
  moreover obtain cs where "wSent w4 = wSent w @ cs" "entriesFor (rdpStreamName dp) i cs = 0"
    using l(2) entriesFor_none by (metis untouched_def)
  moreover have "entriesFor (rdpStreamName dp) i (map2 (\<lambda>r ok. CmdXAdd (rspStreamName p) (taskEntry r) ok) rs oks) = 0"
    by (rule entriesFor_none) (use ne in auto)
  ultimately show ?thesis using d by (auto simp: dispatched_def)
qed


section \<open>The life of a failing task\<close>

text \<open>
  The task \<open>i\<close> has the row \<open>r\<close>, is between two turns and every execution of it fails; the batch of the
  scheduler is large enough for the table.
\<close>

definition failing_task :: "'r Worker \<Rightarrow> int \<Rightarrow> string \<Rightarrow> task_row \<Rightarrow> 'r world \<Rightarrow> bool" where
  "failing_task wk n i r w \<longleftrightarrow> sound w \<and> undisturbed (wEnv w) \<and> row (wTable w) i = Some r
     \<and> c_status r \<in> {StatusPending, StatusRetrying, StatusDead} \<and> int (length (wTable w)) \<le> n
     \<and> keepsFailing wk (wEnv w) r"

lemma failing_task_bystander: "failing_task wk n i r w \<Longrightarrow> bystander i r w"
  by (auto simp: failing_task_def bystander_def undisturbed_alone)

lemma failing_task_untouched:
  assumes "failing_task wk n i r w" "untouched i r w w'"
  shows "failing_task wk n i r w' \<and> (\<exists>cs. wSent w' = wSent w @ cs \<and> entriesFor ds i cs = 0)"
proof -
  have "length (wTable w') = length (wTable w)" using assms(2) by (metis length_map untouched_def)
  moreover obtain cs where "wSent w' = wSent w @ cs" "entriesFor ds i cs = 0"
    using assms(2) entriesFor_none by (metis untouched_def)
  ultimately show ?thesis using assms by (auto simp: failing_task_def untouched_def bystander_def)
qed

text \<open>From \<open>r\<close> to \<open>r'\<close> the task moved \<open>d\<close> positions with \<open>x\<close> executions, and exactly on its death an entry went to
  the dead-letter stream.\<close>

definition advances :: "string \<Rightarrow> string \<Rightarrow> nat \<Rightarrow> nat \<Rightarrow> task_row \<Rightarrow> 'r world \<Rightarrow> task_row \<Rightarrow> 'r world \<Rightarrow> bool" where
  "advances ds i d x r w r' w' \<longleftrightarrow> same_identity r r' \<and> position r' = position r + int d \<and> attempts r' = attempts r + int x
     \<and> (c_status r = StatusDead \<longrightarrow> c_status r' = StatusDead)
     \<and> (\<exists>cs. wSent w' = wSent w @ cs
          \<and> entriesFor ds i cs = (if c_status r' = StatusDead \<and> c_status r \<noteq> StatusDead then 1 else 0))"

lemma count_edge:
  "(P \<longrightarrow> Q) \<Longrightarrow> (Q \<longrightarrow> R) \<Longrightarrow>
    (if Q \<and> \<not> P then 1 else 0) + (if R \<and> \<not> Q then 1 else 0) = (if R \<and> \<not> P then 1 else (0::nat))"
  by (cases P; cases Q; cases R) simp_all

lemma advances_trans:
  assumes "advances ds i d x r w r1 w1" "advances ds i d' x' r1 w1 r2 w2"
  shows "advances ds i (d + d') (x + x') r w r2 w2"
proof -
  obtain cs cs' where cs: "wSent w1 = wSent w @ cs" "wSent w2 = wSent w1 @ cs'"
      "entriesFor ds i cs = (if c_status r1 = StatusDead \<and> c_status r \<noteq> StatusDead then 1 else 0)"
      "entriesFor ds i cs' = (if c_status r2 = StatusDead \<and> c_status r1 \<noteq> StatusDead then 1 else 0)"
    using assms by (auto simp: advances_def)
  have mono: "c_status r = StatusDead \<longrightarrow> c_status r1 = StatusDead" "c_status r1 = StatusDead \<longrightarrow> c_status r2 = StatusDead"
    using assms by (simp_all add: advances_def)
  have "entriesFor ds i (cs @ cs') = (if c_status r2 = StatusDead \<and> c_status r \<noteq> StatusDead then 1 else 0)"
    unfolding entriesFor_simps cs(3,4) by (rule count_edge [OF mono])
  then have "\<exists>cs. wSent w2 = wSent w @ cs
      \<and> entriesFor ds i cs = (if c_status r2 = StatusDead \<and> c_status r \<noteq> StatusDead then 1 else 0)"
    using cs(1,2) by (metis append_assoc)
  moreover have "same_identity r r2" using assms same_identity_trans by (metis advances_def)
  ultimately show ?thesis using assms by (simp add: advances_def)
qed

lemma untouched_advances:
  assumes f: "failing_task wk n i r w" and u: "untouched i r w w'"
  shows "failing_task wk n i r w' \<and> advances ds i 0 0 r w r w'"
  using failing_task_untouched [OF f u, of ds] by (simp add: advances_def)

lemma delivery_advances:
  assumes f: "failing_task (appWorker c dp k b) n i r w" and st: "c_status r = StatusPending"
    and m: "mID (smTask m) = i" and w': "w' = snd (handleMessage (appWorker c dp k b) m w)"
  shows "\<exists>r'. failing_task (appWorker c dp k b) n i r' w' \<and> advances (rdpStreamName dp) i 1 1 r w r' w'"
proof -
  have sd: "sound w" "undisturbed (wEnv w)" "row (wTable w) (mID (smTask m)) = Some r" "int (length (wTable w)) \<le> n"
    "keepsFailing (appWorker c dp k b) (wEnv w) r" using f m by (simp_all add: failing_task_def)
  have le: "c_retry_count r \<le> c_max_retries r"
    using sd(1,3) by (auto simp: sound_def row_inv_def tasks_check_def dest!: row_Some_D dest: db_inv_row)
  obtain res where h: "handleMessage (appWorker c dp k b) m w = (res, w')" by (metis w' prod.collapse)
  obtain r' cs where x: "row (wTable w') i = Some r'" "same_identity r r'"
      "\<forall>j. j \<noteq> i \<longrightarrow> row (wTable w') j = row (wTable w) j"
      "if c_retry_count r < c_max_retries r then c_status r' = StatusRetrying \<and> c_retry_count r' = c_retry_count r + 1
       else c_status r' = StatusDead"
      "wSent w' = wSent w @ cs" "entriesFor (rdpStreamName dp) i cs = (if c_status r' = StatusDead then 1 else 0)"
    using failing_delivery [OF sd(1) undisturbed_alone [OF sd(2)] sd(3) st sd(5) h] unfolding m by blast
  have ev: "evolved w w'" by (rule conjunct1 [OF wkd.message_outcome [OF sd(1) h]])
  have s': "sound w'" by (rule evolved_sound [OF ev sd(1)])
  have "length (wTable w') = length (wTable w)"
  proof (rule same_ids_length)
    show "row (wTable w') j = None \<longleftrightarrow> row (wTable w) j = None" for j using x(1,3) sd(3) m by (cases "j = i") auto
  qed (use sd(1) s' in \<open>auto simp: sound_def\<close>)
  then have "failing_task (appWorker c dp k b) n i r' w'"
    using s' x(1,4) ev sd(2,4,5) keepsFailing_identity [OF x(2), of "appWorker c dp k b"]
    by (auto simp: failing_task_def evolved_def split: if_splits)
  moreover have "c_max_retries r' = c_max_retries r" using x(2) by (rule same_identityD)
  then have "advances (rdpStreamName dp) i 1 1 r w r' w'"
    using x(2,4,5,6) st le by (auto simp: advances_def position_def attempts_def split: if_splits)
  ultimately show ?thesis by blast
qed

lemma dispatch_advances:
  assumes f: "failing_task (appWorker c dp k b) n i r w" and ne: "rspStreamName p \<noteq> rdpStreamName dp"
    and ok: "fst (Tick (appScheduler p q dp iv n) w) = None" and due: "retryDue (wEnv w) (fst (timeNow w)) r"
    and w': "w' = snd (Tick (appScheduler p q dp iv n) w)"
  shows "\<exists>r'. failing_task (appWorker c dp k b) n i r' w' \<and> advances (rdpStreamName dp) i 1 0 r w r' w'"
proof -
  have sd: "sound w" "undisturbed (wEnv w)" "int (length (wTable w)) \<le> n" "keepsFailing (appWorker c dp k b) (wEnv w) r"
    using f by (simp_all add: failing_task_def)
  have st: "c_status r = StatusRetrying" using due by (simp add: retryDue_def)
  obtain t cs where x: "row (wTable w') i = Some (setTransition StatusPending None t r)"
      "length (wTable w') = length (wTable w)" "wSent w' = wSent w @ cs" "entriesFor (rdpStreamName dp) i cs = 0"
    using tick_dispatches [OF failing_task_bystander [OF f] sd(3) st ok due ne w'] by blast
  let ?r = "setTransition StatusPending None t r"
  have si: "same_identity r ?r" by (simp add: setTransition_def same_identity_def identity_def)
  have s': "sound w'" unfolding w' by (rule tick_sound [OF sd(1)])
  have env: "wEnv w' = wEnv w"
    using scd.tick_step [OF sd(1), of p q dp iv n "fst (Tick (appScheduler p q dp iv n) w)" w']
    by (simp add: w' tick_effect_def evolved_def)
  have "failing_task (appWorker c dp k b) n i ?r w'"
    using s' x sd(2,3,4) env keepsFailing_identity [OF si, of "appWorker c dp k b"] by (simp add: failing_task_def)
  moreover have "position ?r = position r + 1" "attempts ?r = attempts r"
    using st by (simp_all add: position_def attempts_def setTransition_def)
  ultimately show ?thesis using si x(3,4) st by (intro exI [of _ ?r]) (simp add: advances_def)
qed

text \<open>One turn: a productive one moves the task one position on, any other leaves its row alone.\<close>

lemma turn_advances:
  assumes f: "failing_task (appWorker c dp k b) n i r w" and ne: "rspStreamName p \<noteq> rdpStreamName dp"
    and s: "s = appScheduler p q dp iv n" and w': "w' = turnStep (appWorker c dp k b) s e w"
  shows "\<exists>r'. failing_task (appWorker c dp k b) n i r' w' \<and> advances (rdpStreamName dp) i
    (if productive s i e w then 1 else 0) (if executes s i e w then 1 else 0) r w r' w'"
proof -
  note b = failing_task_bystander [OF f]
  have r: "row (wTable w) i = Some r" "int (length (wTable w)) \<le> n" using f by (simp_all add: failing_task_def)
  show ?thesis
  proof (cases "productive s i e w")
    case False
    have "untouched i r w w'"
    proof (cases e)
      case (Deliver m)
      then show ?thesis using False r untouched_message [OF b] by (auto simp: w' productive_def)
    next
      case SchedulerTick
      then show ?thesis using False r tick_waiting [OF b r(2)] by (auto simp: w' s productive_def)
    qed
    with untouched_advances [OF f] False show ?thesis by (auto simp: executes_def)
  next
    case True
    show ?thesis
    proof (cases e)
      case (Deliver m)
      then show ?thesis using True r delivery_advances [OF f] by (auto simp: w' productive_def executes_def)
    next
      case SchedulerTick
      then show ?thesis using True r dispatch_advances [OF f ne] by (auto simp: w' s productive_def executes_def)
    qed
  qed
qed

lemma turns_advance:
  assumes ne: "rspStreamName p \<noteq> rdpStreamName dp" and s: "s = appScheduler p q dp iv n"
  shows "failing_task (appWorker c dp k b) n i r w \<Longrightarrow>
    \<exists>r'. failing_task (appWorker c dp k b) n i r' (runTurns (appWorker c dp k b) s ts w)
      \<and> advances (rdpStreamName dp) i (countTurns (productive s i) (appWorker c dp k b) s ts w)
          (countTurns (executes s i) (appWorker c dp k b) s ts w) r w r' (runTurns (appWorker c dp k b) s ts w)"
proof (induction ts arbitrary: r w)
  case Nil
  then show ?case by (auto simp: advances_def intro!: exI [of _ r])
next
  case (Cons e ts)
  from turn_advances [OF Cons.prems ne s refl, of e] obtain r1 where
    r1: "failing_task (appWorker c dp k b) n i r1 (turnStep (appWorker c dp k b) s e w)"
    and a: "advances (rdpStreamName dp) i (if productive s i e w then 1 else 0) (if executes s i e w then 1 else 0)
        r w r1 (turnStep (appWorker c dp k b) s e w)" by blast
  from Cons.IH [OF r1] advances_trans [OF a] show ?case by auto
qed

text \<open>C5. A task that keeps failing is retried exactly as often as it may be, and then dies. While the worker
  and the scheduler take turns in any order, also for other tasks, exactly the productive turns move the
  task: the delivery of its message while it is pending, and an error-free tick while it waits for a retry
  that is due. It is dead exactly when twice its remaining retries and one more such turns have happened
  (one more if it was waiting for a retry), never later; by then its handler ran once for every remaining retry and
  once more, and exactly one entry for it went to the dead-letter stream.\<close>

theorem failing_task_dies:
  assumes "failing_task (appWorker c dp k b) n i r w" "c_status r \<noteq> StatusDead"
    and "rspStreamName p \<noteq> rdpStreamName dp" "s = appScheduler p q dp iv n"
    and "w' = runTurns (appWorker c dp k b) s ts w"
  shows "\<exists>r' cs. row (wTable w') i = Some r' \<and> same_identity r r'
    \<and> (let moved = int (countTurns (productive s i) (appWorker c dp k b) s ts w);
           ran = int (countTurns (executes s i) (appWorker c dp k b) s ts w);
           left = 2 * (c_max_retries r - c_retry_count r) + (if c_status r = StatusRetrying then 2 else 1)
       in moved \<le> left \<and> (c_status r' = StatusDead \<longleftrightarrow> moved = left)
        \<and> (if c_status r' = StatusDead then ran = c_max_retries r - c_retry_count r + 1
           else ran = c_retry_count r' - c_retry_count r)
        \<and> wSent w' = wSent w @ cs
        \<and> entriesFor (rdpStreamName dp) i cs = (if c_status r' = StatusDead then 1 else 0))"
proof -
  obtain r' where r': "failing_task (appWorker c dp k b) n i r' w'"
    and a: "advances (rdpStreamName dp) i (countTurns (productive s i) (appWorker c dp k b) s ts w)
          (countTurns (executes s i) (appWorker c dp k b) s ts w) r w r' w'"
    using turns_advance [OF assms(3,4,1), of ts] assms(5) by blast
  have "row_inv r'" using r' by (auto simp: failing_task_def sound_def dest!: row_Some_D dest: db_inv_row)
  moreover have "c_max_retries r' = c_max_retries r" using a by (auto simp: advances_def dest: same_identityD)
  moreover have "c_status r \<in> {StatusPending, StatusRetrying}" using assms(1,2) by (auto simp: failing_task_def)
  moreover have "c_status r' \<in> {StatusPending, StatusRetrying, StatusDead}" "row (wTable w') i = Some r'"
    using r' by (auto simp: failing_task_def)
  ultimately show ?thesis
    using a assms(2) by (auto simp: advances_def position_def attempts_def Let_def row_inv_def tasks_check_def split: if_splits)
qed


text \<open>A world in which every execution runs into its deadline.\<close>

definition timeoutWorld :: "task_row list \<Rightarrow> unit world" where
  "timeoutWorld t = (calmWorld t ())\<lparr>wEnv := calmEnv\<lparr>envCtxErr := \<lambda>_. Some DeadlineExceeded\<rparr>\<rparr>"

definition lastChance :: task_row where
  "lastChance = (sampleRow ''a'' StatusPending)\<lparr>c_max_retries := 0\<rparr>"

lemma timeout_keepsFailing:
  "keepsFailing (sampleWorker obligingRedis) (calmEnv\<lparr>envCtxErr := \<lambda>_. Some DeadlineExceeded\<rparr>) lastChance"
proof -
  have "TrimSpace ''demo.echo'' = ''demo.echo''" by code_simp
  then show ?thesis
    by (auto simp: keepsFailing_def lastChance_def sampleWorker_def executeWithTimeout_def RegistryHandle_def shippedHandlers_def
        appHandlerRegistry_eq DemoEchoHandle_def ctxErr_def errIs_def IsNonRetryable_def Let_def)
qed

lemma lastChance_failing: "failing_task (sampleWorker obligingRedis) 100 ''a'' lastChance (timeoutWorld [lastChance])"
proof -
  have "row_inv lastChance" by (auto simp: lastChance_def row_inv_def tasks_check_def tasks_status_check_iff int4_def sampleRow_def)
  then have "db_inv [lastChance]" by (auto simp: db_inv_def table_ok_def row_inv_def)
  moreover have "row [lastChance] ''a'' = Some lastChance" by (simp add: row_def lastChance_def)
  ultimately show ?thesis
    using timeout_keepsFailing
    by (simp add: failing_task_def timeoutWorld_def sound_def pg_rely_def undisturbed_def) (simp add: lastChance_def)
qed

theorem failing_task_dies_witness:
  "\<exists>r' cs. row (wTable (runTurns (sampleWorker obligingRedis) (sampleScheduler obligingRedis)
        [Deliver (sampleMessage ''a'' False)] (timeoutWorld [lastChance]))) ''a'' = Some r'
     \<and> c_status r' = StatusDead \<and> entriesFor ''tasks:dead'' ''a'' cs = 1"
proof -
  let ?s = "sampleScheduler obligingRedis" and ?w = "timeoutWorld [lastChance]" and ?ts = "[Deliver (sampleMessage ''a'' False)]"
  have p: "productive ?s ''a'' (Deliver (sampleMessage ''a'' False)) ?w"
    by (simp add: productive_def timeoutWorld_def row_def) (simp add: lastChance_def)
  have l: "c_status lastChance = StatusPending" "c_max_retries lastChance = 0" "c_retry_count lastChance = 0"
    by (simp_all add: lastChance_def) (simp add: sampleRow_def)
  show ?thesis
    using failing_task_dies [OF lastChance_failing [unfolded sampleWorker_def] _ _ sampleScheduler_def refl, of ?ts] p l
    by (auto simp: sampleWorker_def Let_def)
qed

end
