(* ===== verification/Delayed.thy ===== *)
theory Delayed
  imports Lifecycle Config
begin

text \<open>
  Delayed tasks across Redis: what the sorted set hands back after \<open>ScheduleTask\<close>, and what the delayed phase of a
  tick does with it. The behaviour of
  the server that the argument needs is the hypothesis \<open>zset_laws\<close>, as the Redis documentation states
  it for \<open>ZADD\<close>, \<open>ZRANGEBYSCORE \<dots> LIMIT\<close> and \<open>ZREM\<close>; \<open>zsetRedis\<close> is a client that satisfies it.
\<close>

section \<open>What is required of Redis\<close>

text \<open>\<open>score rs key member\<close> is the score of a member in the state \<open>rs\<close>.\<close>

definition zset_laws :: "'r redis_client \<Rightarrow> ('r \<Rightarrow> string \<Rightarrow> string \<Rightarrow> int option) \<Rightarrow> bool" where
  "zset_laws c score \<longleftrightarrow>
     (\<forall>key s m rs rs'. rcZAdd c key s m rs = (None, rs') \<longrightarrow>
        (\<forall>k m'. score rs' k m' = (if k = key \<and> m' = m then Some s else score rs k m')))
     \<and> (\<forall>key n cnt rs ids rs'. 0 < cnt \<and> rcZRangeByScore c key ''-inf'' (FormatInt n) cnt rs = (Inr ids, rs') \<longrightarrow>
        (\<forall>k m. score rs' k m = score rs k m)
        \<and> int (length ids) \<le> cnt
        \<and> (\<forall>i \<in> set ids. \<exists>s. score rs key i = Some s \<and> s \<le> n)
        \<and> (int (length ids) < cnt \<longrightarrow> (\<forall>i s. score rs key i = Some s \<and> s \<le> n \<longrightarrow> i \<in> set ids)))
     \<and> (\<forall>key m rs rs'. rcZRem c key m rs = (None, rs') \<longrightarrow>
        (\<forall>k m'. score rs' k m' = (if k = key \<and> m' = m then None else score rs k m')))"

lemma zset_lawsD:
  assumes "zset_laws c score"
  shows "rcZAdd c key s m rs = (None, rs') \<Longrightarrow> score rs' k m' = (if k = key \<and> m' = m then Some s else score rs k m')"
    "0 < cnt \<Longrightarrow> rcZRangeByScore c key ''-inf'' (FormatInt n) cnt rs = (Inr ids, rs') \<Longrightarrow> i \<in> set ids \<Longrightarrow>
      \<exists>s. score rs key i = Some s \<and> s \<le> n"
    "0 < cnt \<Longrightarrow> rcZRangeByScore c key ''-inf'' (FormatInt n) cnt rs = (Inr ids, rs') \<Longrightarrow> int (length ids) < cnt \<Longrightarrow>
      score rs key i = Some s \<Longrightarrow> s \<le> n \<Longrightarrow> i \<in> set ids"
  using assms unfolding zset_laws_def by (metis | blast)+

section \<open>A sorted set in the server's state\<close>

type_synonym zstate = "((string \<times> string) \<times> int) list"

definition zscore :: "zstate \<Rightarrow> string \<Rightarrow> string \<Rightarrow> int option" where
  "zscore rs key m = map_of rs (key, m)"

text \<open>The number a score argument denotes.\<close>

definition scoreValue :: "string \<Rightarrow> int" where
  "scoreValue s = (case s of CHR ''-'' # ds \<Rightarrow> - decimalValue ds | _ \<Rightarrow> decimalValue s)"

definition zrange :: "string \<Rightarrow> int \<Rightarrow> int \<Rightarrow> zstate \<Rightarrow> string list" where
  "zrange key n cnt rs =
     map (snd \<circ> fst) (take (nat cnt) (sort_key snd (filter (\<lambda>((k, m), s). k = key \<and> s \<le> n) (AList.clearjunk rs))))"

definition zsetRedis :: "zstate redis_client" where
  "zsetRedis = \<lparr>rcXAdd = \<lambda>_ _ r. (Inr ''1-0'', r), rcZAdd = \<lambda>key s m r. (None, AList.update (key, m) s r),
     rcZRangeByScore = \<lambda>key _ stop cnt r. (Inr (zrange key (scoreValue stop) cnt r), r),
     rcZRem = \<lambda>key m r. (None, AList.delete (key, m) r),
     rcXGroupCreateMkStream = \<lambda>_ _ _ r. (None, r), rcXReadGroup = \<lambda>_ _ _ _ _ r. (Inl RedisNil, r),
     rcXPendingExt = \<lambda>_ _ _ _ _ _ r. (Inr [], r), rcXClaim = \<lambda>_ _ _ _ _ r. (Inr [], r),
     rcXAck = \<lambda>_ _ _ r. (None, r)\<rparr>"

lemma scoreValue_FormatInt: "scoreValue (FormatInt n) = n"
proof (cases "n < 0")
  case True
  then show ?thesis using natDigits_value [of "nat (- n)"] by (simp add: scoreValue_def FormatInt_def)
next
  case False
  obtain c cs where c: "natDigits (nat n) = c # cs" "isDigit c"
    using natDigits_value [of "nat n"] by (cases "natDigits (nat n)") auto
  moreover from c(2) have "c \<noteq> CHR ''-''" by (auto simp: isDigit_def)
  ultimately have "scoreValue (natDigits (nat n)) = decimalValue (natDigits (nat n))"
    unfolding c(1) scoreValue_def by (auto split: list.split char.split bool.split)
  then show ?thesis using natDigits_value [of "nat n"] False by (simp add: FormatInt_def)
qed

lemma in_zrange: "i \<in> set (zrange key n cnt rs) \<Longrightarrow> \<exists>s. zscore rs key i = Some s \<and> s \<le> n"
  by (auto simp: zrange_def zscore_def dest!: in_set_takeD)
    (metis distinct_clearjunk map_of_clearjunk map_of_eq_Some_iff)

lemma zrange_complete:
  assumes "int (length (zrange key n cnt rs)) < cnt" "zscore rs key i = Some s" "s \<le> n"
  shows "i \<in> set (zrange key n cnt rs)"
proof -
  let ?xs = "sort_key snd (filter (\<lambda>((k, m), s). k = key \<and> s \<le> n) (AList.clearjunk rs))"
  have "length ?xs \<le> nat cnt" using assms(1) by (auto simp: zrange_def)
  then have "zrange key n cnt rs = map (snd \<circ> fst) ?xs" by (simp add: zrange_def)
  moreover have "((key, i), s) \<in> set (AList.clearjunk rs)"
    using assms(2) by (simp add: zscore_def map_of_clearjunk flip: map_of_eq_Some_iff [OF distinct_clearjunk])
  then have "((key, i), s) \<in> set ?xs" using assms(3) by simp
  ultimately show ?thesis by force
qed

lemma zsetRedis_laws: "zset_laws zsetRedis zscore"
proof -
  have "int (length (zrange key n cnt rs)) \<le> cnt" if "0 < cnt" for key n cnt rs
    using that by (simp add: zrange_def)
  then show ?thesis
    unfolding zset_laws_def
    by (auto simp: zsetRedis_def scoreValue_FormatInt zscore_def update_conv' delete_conv' 
        intro: zrange_complete [unfolded zscore_def] in_zrange [unfolded zscore_def])
qed


section \<open>When a delayed task comes back\<close>

text \<open>A delayed task becomes due at its run time, to within the second. After \<open>ScheduleTask\<close> has
  stored a task, a scan at the instant \<open>now\<close> returns it only if its run time is less than one second
  away, and does return it once its run time has come, unless the scan is cut off by its limit. The
  second comes from the score, which is the run time in whole seconds.\<close>

theorem delayed_task_due_within_second:
  assumes "zset_laws (rsqClient q) score" "ScheduleTask q i runAt w = (None, w1)"
    and "DueTaskIDs q now limit w1 = (Inr ids, w2)" "0 < limit"
  shows "(i \<in> set ids \<longrightarrow> runAt - now < Second)
    \<and> (runAt \<le> now \<and> int (length ids) < limit \<longrightarrow> i \<in> set ids)"
proof -
  from assms(2) have "rcZAdd (rsqClient q) (rsqKey q) (timeUnix runAt) i (wRedis w) = (None, wRedis w1)"
    by (auto simp: ScheduleTask_def redisZAdd_def split: prod.splits option.splits)
  from zset_lawsD(1) [OF assms(1) this] have s: "score (wRedis w1) (rsqKey q) i = Some (timeUnix runAt)" by simp
  from assms(3,4) have r: "rcZRangeByScore (rsqClient q) (rsqKey q) ''-inf'' (FormatInt (timeUnix now)) limit (wRedis w1)
      = (Inr ids, wRedis w2)"
    by (auto simp: DueTaskIDs_def redisZRangeByScore_def split: prod.splits sum.splits)
  have "runAt - now < Second" if "i \<in> set ids"
    using zset_lawsD(2) [OF assms(1,4) r that] s by (auto intro: timeUnix_le_imp)
  moreover have "i \<in> set ids" if "runAt \<le> now" "int (length ids) < limit"
    by (rule zset_lawsD(3) [OF assms(1,4) r that(2) s]) (rule timeUnix_mono [OF that(1)])
  ultimately show ?thesis by blast
qed

theorem delayed_task_due_within_second_witness:
  "let q = \<lparr>rsqClient = zsetRedis, rsqKey = ''tasks:scheduled''\<rparr>;
       w1 = snd (ScheduleTask q ''a'' (7 * Second + 900) (calmWorld [] []))
   in \<exists>ids w2. DueTaskIDs q (7 * Second) 10 w1 = (Inr ids, w2) \<and> (''a'' \<in> set ids \<longrightarrow> (7 * Second + 900) - 7 * Second < Second)"
proof -
  let ?q = "\<lparr>rsqClient = zsetRedis, rsqKey = ''tasks:scheduled''\<rparr>"
  obtain w1 where w1: "ScheduleTask ?q ''a'' (7 * Second + 900) (calmWorld [] []) = (None, w1)"
    by (simp add: ScheduleTask_def redisZAdd_def zsetRedis_def)
  obtain ids w2 where d: "DueTaskIDs ?q (7 * Second) 10 w1 = (Inr ids, w2)"
    by (simp add: DueTaskIDs_def redisZRangeByScore_def zsetRedis_def)
  have "zset_laws (rsqClient ?q) zscore" using zsetRedis_laws by simp
  from delayed_task_due_within_second [OF this w1 d] w1 d show ?thesis by (simp add: Let_def)
qed

section \<open>Dispatch of delayed tasks\<close>

text \<open>\<open>w'\<close> is \<open>w\<close> after the tasks with the identifiers \<open>is\<close> were dispatched: those that were scheduled are pending and have
  one new entry in the stream each, all other rows are as they were and have no new entry.\<close>

definition isScheduled :: "task_row list \<Rightarrow> string \<Rightarrow> bool" where
  "isScheduled t i \<longleftrightarrow> (\<exists>r. row t i = Some r \<and> c_status r = StatusScheduled)"

definition zdispatched :: "string \<Rightarrow> string set \<Rightarrow> 'r world \<Rightarrow> 'r world \<Rightarrow> bool" where
  "zdispatched stream is w w' \<longleftrightarrow> sound w' \<and> alone w'
     \<and> (\<exists>cs. wSent w' = wSent w @ cs
         \<and> (\<forall>i. entriesFor stream i cs = (if i \<in> is \<and> isScheduled (wTable w) i then 1 else 0)))
     \<and> (\<forall>i. if i \<in> is \<and> isScheduled (wTable w) i
            then \<exists>t. row (wTable w') i = Some (setTransition StatusPending None t (the (row (wTable w) i)))
            else row (wTable w') i = row (wTable w) i)"

lemma zdispatched_row:
  assumes "zdispatched stream is w w'"
  shows "i \<in> is \<Longrightarrow> isScheduled (wTable w) i \<Longrightarrow>
      \<exists>t. row (wTable w') i = Some (setTransition StatusPending None t (the (row (wTable w) i)))"
    "\<not> (i \<in> is \<and> isScheduled (wTable w) i) \<Longrightarrow> row (wTable w') i = row (wTable w) i"
proof -
  from assms have "if i \<in> is \<and> isScheduled (wTable w) i
      then \<exists>t. row (wTable w') i = Some (setTransition StatusPending None t (the (row (wTable w) i)))
      else row (wTable w') i = row (wTable w) i" unfolding zdispatched_def by blast
  then show "i \<in> is \<Longrightarrow> isScheduled (wTable w) i \<Longrightarrow>
      \<exists>t. row (wTable w') i = Some (setTransition StatusPending None t (the (row (wTable w) i)))"
    "\<not> (i \<in> is \<and> isScheduled (wTable w) i) \<Longrightarrow> row (wTable w') i = row (wTable w) i" by simp_all
qed

lemma zdispatched_pending:
  assumes "zdispatched stream is w w'"
  shows "isScheduled (wTable w') i \<longleftrightarrow> isScheduled (wTable w) i \<and> i \<notin> is"
proof (cases "i \<in> is \<and> isScheduled (wTable w) i")
  case True
  then obtain t where "row (wTable w') i = Some (setTransition StatusPending None t (the (row (wTable w) i)))"
    using zdispatched_row(1) [OF assms] by blast
  with True show ?thesis by (simp add: isScheduled_def setTransition_def)
next
  case False
  with zdispatched_row(2) [OF assms False] show ?thesis by (auto simp: isScheduled_def)
qed

lemma zdispatched_trans:
  assumes a: "zdispatched stream is w w1" and b: "zdispatched stream js w1 w2"
  shows "zdispatched stream (is \<union> js) w w2"
proof -
  have p: "isScheduled (wTable w1) i \<longleftrightarrow> isScheduled (wTable w) i \<and> i \<notin> is" for i by (rule zdispatched_pending [OF a])
  obtain cs ds where s: "wSent w1 = wSent w @ cs" "wSent w2 = wSent w1 @ ds"
    "\<And>i. entriesFor stream i cs = (if i \<in> is \<and> isScheduled (wTable w) i then 1 else 0)"
    "\<And>i. entriesFor stream i ds = (if i \<in> js \<and> isScheduled (wTable w1) i then 1 else 0)"
    using a b unfolding zdispatched_def by blast
  have "wSent w2 = wSent w @ (cs @ ds)" using s by simp
  moreover have "entriesFor stream i (cs @ ds) = (if i \<in> is \<union> js \<and> isScheduled (wTable w) i then 1 else 0)" for i
    by (simp add: s p)
  moreover have "if i \<in> is \<union> js \<and> isScheduled (wTable w) i
      then \<exists>t. row (wTable w2) i = Some (setTransition StatusPending None t (the (row (wTable w) i)))
      else row (wTable w2) i = row (wTable w) i" for i
  proof (cases "i \<in> is \<and> isScheduled (wTable w) i")
    case True
    then show ?thesis using zdispatched_row(1) [OF a, of i] zdispatched_row(2) [OF b, of i] p [of i] by simp
  next
    case False
    then show ?thesis using zdispatched_row(2) [OF a False] zdispatched_row [OF b, of i] p [of i] by auto
  qed
  ultimately show ?thesis using b unfolding zdispatched_def by blast
qed

lemma zdispatched_silent:
  assumes "sound w'" "alone w'" "wTable w' = wTable w" "wSent w' = wSent w @ cs" "\<And>v ok. CmdXAdd stream v ok \<notin> set cs"
    and "\<not> isScheduled (wTable w) j"
  shows "zdispatched stream {j} w w'"
  unfolding zdispatched_def using assms entriesFor_none [of stream cs] by auto

lemma zset_task_dispatched:
  assumes w: "sound w" "alone w"
  shows "zdispatched (rspStreamName p) {j} w (snd (scheduleZSetTask (appScheduler p q dp iv b) j w))"
proof -
  let ?s = "appScheduler p q dp iv b" and ?w1 = "w\<lparr>wPgCalls := Suc (wPgCalls w)\<rparr>"
  have inv: "db_inv (wTable w)" using w(1) by (simp add: sound_def)
  have al1: "alone ?w1" and s1: "sound ?w1" using w by (auto simp: alone_iff sound_def)
  have so: "sound (snd (scheduleZSetTask ?s j w))" by (rule tick_effect_sound [OF scd.zset_effect [OF w(1)] w(1)])
  have rem: "zdispatched (rspStreamName p) {j} w (snd (Remove q j ?w1))" if ns: "\<not> isScheduled (wTable w) j"
    and e: "snd (scheduleZSetTask ?s j w) = snd (Remove q j ?w1)"
  proof -
    obtain x w2 where r: "Remove q j ?w1 = (x, w2)" by fastforce
    note f = redis_onlyD [OF redis_only_methods(5) [OF r]] Remove_sent [OF r]
    show ?thesis unfolding r snd_conv
      by (rule zdispatched_silent [where cs = "[CmdZRem (rsqKey q) j (x = None)]"])
        (use so e r f ns al1 in \<open>auto intro: alone_later\<close>)
  qed
  show ?thesis
  proof (cases "row (wTable w) j")
    case None
    then have "scheduleZSetTask ?s j w = Remove q j ?w1"
      using Get_quiet_missing [OF alone_quiet [OF w(2)] None] by (simp add: scheduleZSetTask_def redisScheduledQueue_def)
    with None rem show ?thesis by (simp add: isScheduled_def)
  next
    case (Some r)
    note g = Get_quiet [OF alone_quiet [OF w(2)] inv Some]
    show ?thesis
    proof (cases "c_status r = StatusScheduled")
      case False
      then have "scheduleZSetTask ?s j w = Remove q j ?w1"
        using g by (simp add: scheduleZSetTask_def redisScheduledQueue_def)
      with Some False rem show ?thesis by (simp add: isScheduled_def)
    next
      case True
      have id: "c_id r = j" using row_Some_D [OF Some] by simp
      obtain res w2 where sc: "scheduleTask ?s (scanTask r) ?w1 = (res, w2)" "alone w2" "wEnv w2 = wEnv w"
        "\<And>i. row (wTable w2) i = (if i = j then Some (setTransition StatusPending None (pgNow (pgNext ?w1)) r) else row (wTable w) i)"
        "wSent w2 = wSent w @ [CmdXAdd (rspStreamName p) (taskEntry r) (res = None)]"
        using scheduleTask_quiet [where w = ?w1 and t = "scanTask r" and r = r and p = p and q = q and dp = dp and i = iv and b = b]
          inv al1 Some True id by auto
      define w3 where "w3 = snd (scheduleZSetTask ?s j w)"
      obtain x w4 where r4: "Remove q j w2 = (x, w4)" by fastforce
      note f = redis_onlyD [OF redis_only_methods(5) [OF r4]] Remove_sent [OF r4]
      have w3: "w3 = (if res = None then w4 else w2)"
        using g True sc(1) r4 by (auto simp: w3_def scheduleZSetTask_def redisScheduledQueue_def split: option.split)
      have al4: "alone w4" by (rule alone_later [OF sc(2)]) (simp_all add: f)
      obtain cs where cs: "wSent w3 = wSent w @ CmdXAdd (rspStreamName p) (taskEntry r) (res = None) # cs"
        "\<And>v ok. CmdXAdd (rspStreamName p) v ok \<notin> set cs" "wTable w3 = wTable w2" "alone w3"
        using sc(2,5) f al4 by (cases "res = None") (auto simp: w3)
      have "entriesFor (rspStreamName p) i [CmdXAdd (rspStreamName p) (taskEntry r) (res = None)] = (if i = j then 1 else 0)" for i
        by (simp add: entriesFor_def taskEntry_def taskValues_id id)
      then have "entriesFor (rspStreamName p) i (CmdXAdd (rspStreamName p) (taskEntry r) (res = None) # cs) = (if i = j then 1 else 0)" for i
        using entriesFor_none [of "rspStreamName p" cs i] cs(2) entriesFor_simps(2) [of "rspStreamName p" i "[CmdXAdd (rspStreamName p) (taskEntry r) (res = None)]" cs]
        by (simp del: entriesFor_simps)
      moreover have "isScheduled (wTable w) i \<and> i = j \<longleftrightarrow> i = j" for i using Some True by (auto simp: isScheduled_def)
      ultimately show ?thesis
        unfolding zdispatched_def w3_def [symmetric] using so cs sc(4) Some
        by (auto simp: w3_def)
    qed
  qed
qed

lemma zset_tasks_dispatched:
  assumes "sound w" "alone w"
  shows "zdispatched (rspStreamName p) (set ids) w (forEachLogged (scheduleZSetTask (appScheduler p q dp iv b)) ids w)"
  using assms
proof (induction ids arbitrary: w)
  case Nil
  then show ?case by (auto simp: zdispatched_def)
next
  case (Cons j ids)
  note d = zset_task_dispatched [OF Cons.prems, where p = p and j = j and q = q and dp = dp and iv = iv and b = b]
  then have "sound (snd (scheduleZSetTask (appScheduler p q dp iv b) j w))" "alone (snd (scheduleZSetTask (appScheduler p q dp iv b) j w))"
    by (simp_all add: zdispatched_def)
  from zdispatched_trans [OF d Cons.IH [OF this]] show ?case by simp
qed

text \<open>C13. A delayed task is dispatched when it is due, once. With no other session writing, take a task whose identifier is
  in the sorted set under the second of its run time. When the run time has come and the task is still scheduled, the
  delayed phase of a tick makes it pending and offers exactly one entry for it to the stream, unless the scan was cut off
  by its limit. When its run time is a second or more away, or it is no longer scheduled, the phase leaves its row as it
  is and offers no entry for it. No error of another task in the batch changes this.\<close>

theorem due_delayed_task_dispatched:
  assumes laws: "zset_laws (rsqClient q) score" and w: "sound w" "alone w" and b: "0 < b"
    and scan: "DueTaskIDs q now b w = (Inr ids, w1)"
    and phase: "scheduleDueZSetTasks (appScheduler p q dp iv b) now w = (res, w')"
    and r: "row (wTable w) i = Some r" "score (wRedis w) (rsqKey q) i = Some (timeUnix (c_run_at r))"
  shows "\<exists>cs. wSent w' = wSent w @ cs
    \<and> (c_status r = StatusScheduled \<and> c_run_at r \<le> now \<and> int (length ids) < b \<longrightarrow>
        (\<exists>t. row (wTable w') i = Some (setTransition StatusPending None t r)) \<and> entriesFor (rspStreamName p) i cs = 1)
    \<and> (c_status r \<noteq> StatusScheduled \<or> now + Second \<le> c_run_at r \<longrightarrow>
        row (wTable w') i = Some r \<and> entriesFor (rspStreamName p) i cs = 0)"
proof -
  note ro = redis_onlyD [OF redis_only_methods(4) [OF scan]]
  have w1: "sound w1" "alone w1" using w ro by (auto simp: sound_def intro: alone_later)
  have w': "w' = forEachLogged (scheduleZSetTask (appScheduler p q dp iv b)) ids w1"
    using phase scan by (simp add: scheduleDueZSetTasks_def redisScheduledQueue_def)
  have d: "zdispatched (rspStreamName p) (set ids) w1 w'" unfolding w' by (rule zset_tasks_dispatched [OF w1])
  have z: "rcZRangeByScore (rsqClient q) (rsqKey q) ''-inf'' (FormatInt (timeUnix now)) b (wRedis w) = (Inr ids, wRedis w1)"
    using scan b by (auto simp: DueTaskIDs_def redisZRangeByScore_def split: prod.splits sum.splits)
  have due: "i \<in> set ids" if "c_run_at r \<le> now" "int (length ids) < b"
    by (rule zset_lawsD(3) [OF laws b z that(2) r(2)]) (rule timeUnix_mono [OF that(1)])
  have early: "i \<notin> set ids" if "now + Second \<le> c_run_at r"
    using zset_lawsD(2) [OF laws b z, of i] r(2) timeUnix_le_imp [of "c_run_at r" now] that by auto
  obtain cs where cs: "wSent w' = wSent w @ cs"
    "entriesFor (rspStreamName p) i cs = (if i \<in> set ids \<and> isScheduled (wTable w) i then 1 else 0)"
    using d DueTaskIDs_sent [OF scan] ro unfolding zdispatched_def by auto
  have rows: "row (wTable w1) i = Some r" "isScheduled (wTable w1) i \<longleftrightarrow> c_status r = StatusScheduled"
    using r(1) ro by (simp_all add: isScheduled_def)
  have "(\<exists>t. row (wTable w') i = Some (setTransition StatusPending None t r)) \<and> entriesFor (rspStreamName p) i cs = 1"
    if "c_status r = StatusScheduled \<and> c_run_at r \<le> now \<and> int (length ids) < b"
    using that due zdispatched_row(1) [OF d, of i] rows cs(2) ro by auto
  moreover have "row (wTable w') i = Some r \<and> entriesFor (rspStreamName p) i cs = 0"
    if "c_status r \<noteq> StatusScheduled \<or> now + Second \<le> c_run_at r"
  proof -
    from that have n: "\<not> (i \<in> set ids \<and> isScheduled (wTable w1) i)" using early rows by blast
    then show ?thesis using zdispatched_row(2) [OF d n] rows cs(2) ro by auto
  qed
  ultimately show ?thesis using cs(1) by blast
qed

theorem due_delayed_task_dispatched_witness:
  "let q = \<lparr>rsqClient = zsetRedis, rsqKey = ''tasks:scheduled''\<rparr>;
       w = calmWorld [sampleRow ''a'' StatusScheduled] [((''tasks:scheduled'', ''a''), timeUnix 100)];
       w' = snd (scheduleDueZSetTasks (appScheduler \<lparr>rspClient = zsetRedis, rspStreamName = ''tasks:stream''\<rparr> q
              \<lparr>rdpClient = zsetRedis, rdpStreamName = ''tasks:dead''\<rparr> Second 10) 500 w)
   in \<exists>t. row (wTable w') ''a'' = Some (setTransition StatusPending None t (sampleRow ''a'' StatusScheduled))"
proof -
  let ?q = "\<lparr>rsqClient = zsetRedis, rsqKey = ''tasks:scheduled''\<rparr>"
  let ?w = "calmWorld [sampleRow ''a'' StatusScheduled] [((''tasks:scheduled'', ''a''), timeUnix 100)]"
  let ?s = "appScheduler \<lparr>rspClient = zsetRedis, rspStreamName = ''tasks:stream''\<rparr> ?q
              \<lparr>rdpClient = zsetRedis, rdpStreamName = ''tasks:dead''\<rparr> Second 10"
  have laws: "zset_laws (rsqClient ?q) zscore" using zsetRedis_laws by simp
  have "timeUnix 100 \<le> timeUnix 500" by (rule timeUnix_mono) simp
  then have "zrange ''tasks:scheduled'' (timeUnix 500) 10 [((''tasks:scheduled'', ''a''), timeUnix 100)] = [''a'']" by (simp add: zrange_def)
  then obtain w1 where d: "DueTaskIDs ?q 500 10 ?w = (Inr [''a''], w1)"
    by (simp add: DueTaskIDs_def redisZRangeByScore_def zsetRedis_def scoreValue_FormatInt)
  obtain res w' where p: "scheduleDueZSetTasks ?s 500 ?w = (res, w')" by fastforce
  have w: "sound ?w" "alone ?w" "(0::int) < 10" "row (wTable ?w) ''a'' = Some (sampleRow ''a'' StatusScheduled)" by simp_all
  have sc: "zscore (wRedis ?w) (rsqKey ?q) ''a'' = Some (timeUnix (c_run_at (sampleRow ''a'' StatusScheduled)))"
    by (simp add: zscore_def)
  from due_delayed_task_dispatched [OF laws w(1,2,3) d p w(4) sc] p show ?thesis by (auto simp: Let_def)
qed

end
