(* ===== verification/System.thy ===== *)
theory System
  imports Scheduler
begin

text \<open>
  The whole system at the level of single SQL statements: any number of servers, workers and schedulers
  send their statements in any order, their replies may be lost, and a process may die between two
  statements. A worker or scheduler that has marked a task as failed holds the row it got back until it
  completes the failure. The claims of each task are counted. The actions on tasks specify, without mentioning SQL, what
  the writing calls of the store do.
\<close>

section \<open>The transition system\<close>

record sys =
  sTable :: "task_row list"
  sHolders :: "(string \<times> Task) list"
  sClaims :: "string \<Rightarrow> nat"

text \<open>A claim is the transition to running that matched a row.\<close>

definition count_claim :: "Status \<Rightarrow> string \<Rightarrow> goerror + task_row list \<Rightarrow> (string \<Rightarrow> nat) \<Rightarrow> string \<Rightarrow> nat" where
  "count_claim to i res cl = (case res of
     Inr (r # rs) \<Rightarrow> if to = StatusRunning then cl(i := Suc (cl i)) else cl
   | _ \<Rightarrow> cl)"

text \<open>What a holder decides: the worker's decision or the scheduler's, which is the same with an error
  that can be retried.\<close>

inductive sys_step :: "sys \<Rightarrow> sys \<Rightarrow> bool" where
  create: "sqlCreate (newTaskRow e p i st (pgNow c)) c snapshot = (res, t') \<Longrightarrow> pgLate c snapshot = sTable s \<Longrightarrow>
    st = StatusPending \<or> st = StatusScheduled \<Longrightarrow> sys_step s (s\<lparr>sTable := t'\<rparr>)"
| transition: "program_transition src to wid \<Longrightarrow> sqlTransition i src to wid c (sTable s) = (res, t') \<Longrightarrow>
    sys_step s (s\<lparr>sTable := t', sClaims := count_claim to i res (sClaims s)\<rparr>)"
| mark: "sqlMarkFailed i f c (sTable s) = (Inr (r # rs), t') \<Longrightarrow>
    sys_step s (s\<lparr>sTable := t', sHolders := (i, scanTask r) # sHolders s\<rparr>)"
| mark_lost: "sqlMarkFailed i f c (sTable s) = (res, t') \<Longrightarrow> sys_step s (s\<lparr>sTable := t'\<rparr>)"
| complete: "sHolders s = hs @ (i, ft) # hs' \<Longrightarrow> d = failureDecision err now ft \<Longrightarrow>
    sqlCompleteFailure (ID ft) d (map_option tz (dNextRetryAt d)) f c (sTable s) = (res, t') \<Longrightarrow>
    sys_step s (s\<lparr>sTable := t', sHolders := hs @ hs'\<rparr>)"
| die: "sHolders s = hs @ h # hs' \<Longrightarrow> sys_step s (s\<lparr>sHolders := hs @ hs'\<rparr>)"

definition sysInit :: sys where
  "sysInit = \<lparr>sTable = [], sHolders = [], sClaims = (\<lambda>_. 0)\<rparr>"

inductive sys_reach :: "sys \<Rightarrow> bool" where
  init: "sys_reach sysInit"
| step: "sys_reach s \<Longrightarrow> sys_step s s' \<Longrightarrow> sys_reach s'"

text \<open>A scheduler's decision is the decision on a retryable error.\<close>

lemma scheduler_decision: "failureDecision (NewError m) now ft = DecideFailure now (RetryCount ft) (MaxRetries ft)"
  by (simp add: failureDecision_def IsNonRetryable_def)

section \<open>The invariant\<close>

text \<open>How often a task in a given status has been claimed more than it has been retried.\<close>

definition started :: "Status \<Rightarrow> int" where
  "started st = (if st \<in> {StatusRunning, StatusSuccess, StatusFailed, StatusDead} then 1 else 0)"

definition row_ok :: "(string \<Rightarrow> nat) \<Rightarrow> (string \<times> Task) list \<Rightarrow> task_row \<Rightarrow> bool" where
  "row_ok cl hs r \<longleftrightarrow> int (cl (c_id r)) = c_retry_count r + started (c_status r)
     \<and> (\<forall>ft. (c_id r, ft) \<in> set hs \<longrightarrow> c_status r = StatusFailed \<and> ID ft = c_id r
           \<and> RetryCount ft = c_retry_count r \<and> MaxRetries ft = c_max_retries r)"

definition sys_inv :: "sys \<Rightarrow> bool" where
  "sys_inv s \<longleftrightarrow> db_inv (sTable s) \<and> distinct (map fst (sHolders s))
     \<and> (\<forall>r \<in> set (sTable s). row_ok (sClaims s) (sHolders s) r)
     \<and> (\<forall>i. i \<notin> c_id ` set (sTable s) \<longrightarrow> sClaims s i = 0 \<and> i \<notin> fst ` set (sHolders s))"

lemma sys_inv_init: "sys_inv sysInit"
  by (simp add: sys_inv_def sysInit_def)

lemma sys_invD:
  assumes "sys_inv s"
  shows "db_inv (sTable s)" "distinct (map c_id (sTable s))" "r \<in> set (sTable s) \<Longrightarrow> row_ok (sClaims s) (sHolders s) r"
  using assms by (auto simp: sys_inv_def table_ok_distinct)

text \<open>A statement that rewrites the row \<open>r\<close> into \<open>r'\<close> by a step of the specification keeps the invariant
  when \<open>r'\<close> agrees with the new claims and holders, which differ for this task only.\<close>

lemma sys_inv_update:
  assumes inv: "sys_inv s" and r: "row (sTable s) i = Some r" and q: "q r"
    and step: "row_step r (f r)" and ok: "row_ok cl hs (f r)"
    and cl: "\<And>j. j \<noteq> i \<Longrightarrow> cl j = sClaims s j" and hs: "distinct (map fst hs)"
    and holders: "\<And>j ft. j \<noteq> i \<Longrightarrow> (j, ft) \<in> set hs \<longleftrightarrow> (j, ft) \<in> set (sHolders s)"
  shows "sys_inv (s\<lparr>sTable := update_where (\<lambda>x. c_id x = i \<and> q x) f (sTable s), sHolders := hs, sClaims := cl\<rparr>)"
proof -
  let ?t = "update_where (\<lambda>x. c_id x = i \<and> q x) f (sTable s)"
  note d = sys_invD [OF inv]
  have ri: "r \<in> set (sTable s)" "c_id r = i" using r by (auto dest: row_Some_D)
  have only: "x = r" if "x \<in> set (sTable s)" "c_id x = i" for x
    using that ri d(2) by (auto simp: distinct_map dest: inj_onD)
  have id: "c_id (f r) = i" using row_step_identity [OF step] ri by (simp add: same_identityD)
  have "db_steps (sTable s) ?t" by (rule db_steps_update_where [OF d(2)]) (use only step in blast)
  then have "db_inv ?t" using d(1) by (rule db_steps_inv)
  moreover have "row_ok cl hs x" if x: "x \<in> set ?t" for x
    using x
  proof (cases rule: in_update_whereE)
    case (1 y)
    then show ?thesis using only ok by blast
  next
    case 2
    then have "c_id x \<noteq> i" using only q by blast
    with d(3) [OF 2(1)] cl holders show ?thesis by (simp add: row_ok_def)
  qed
  moreover have "c_id (if c_id x = i \<and> q x then f x else x) = c_id x" if "x \<in> set (sTable s)" for x
    using only [OF that] id by (cases "c_id x = i") simp_all
  then have "map c_id ?t = map c_id (sTable s)" by (simp add: update_where_def)
  then have "c_id ` set ?t = c_id ` set (sTable s)" by (metis list.set_map)
  moreover have "i \<in> c_id ` set (sTable s)" using ri by auto
  then have "cl j = 0 \<and> j \<notin> fst ` set hs" if "j \<notin> c_id ` set (sTable s)" for j
  proof -
    from that \<open>i \<in> c_id ` set (sTable s)\<close> have "j \<noteq> i" by auto
    with holders have "j \<in> fst ` set hs \<longleftrightarrow> j \<in> fst ` set (sHolders s)" by (simp add: image_iff Bex_def)
    with inv that cl [OF \<open>j \<noteq> i\<close>] show ?thesis by (simp add: sys_inv_def)
  qed
  ultimately show ?thesis using hs by (simp add: sys_inv_def)
qed

lemma pgUpdate_cases:
  assumes "pgUpdate (\<lambda>x. c_id x = i \<and> q x) f t = (res, t')" "distinct (map c_id t)"
  obtains "t' = t" "\<And>x xs. res \<noteq> Inr (x # xs)"
  | r where "row t i = Some r" "q r" "tasks_check (f r)" "res = Inr [f r]" "t' = update_where (\<lambda>x. c_id x = i \<and> q x) f t"
  using assms by (auto simp: pgUpdate_row split: option.splits if_splits)

text \<open>An update of one row by its key and status: either nothing happens, or the row steps.\<close>

lemma sys_inv_pgUpdate:
  assumes inv: "sys_inv s" and upd: "pgUpdate (\<lambda>x. c_id x = i \<and> q x) f (sTable s) = (res, t')"
    and nop: "(\<And>x xs. res \<noteq> Inr (x # xs)) \<Longrightarrow> cl = sClaims s \<and> sys_inv (s\<lparr>sHolders := hs\<rparr>)"
    and step: "\<And>r. row (sTable s) i = Some r \<Longrightarrow> q r \<Longrightarrow> tasks_check (f r) \<Longrightarrow> res = Inr [f r]
      \<Longrightarrow> row_step r (f r) \<and> row_ok cl hs (f r)"
    and cl: "\<And>j. j \<noteq> i \<Longrightarrow> cl j = sClaims s j" and hs: "distinct (map fst hs)"
    and holders: "\<And>j ft. j \<noteq> i \<Longrightarrow> (j, ft) \<in> set hs \<longleftrightarrow> (j, ft) \<in> set (sHolders s)"
  shows "sys_inv (s\<lparr>sTable := t', sHolders := hs, sClaims := cl\<rparr>)"
  using upd sys_invD(2) [OF inv]
proof (cases rule: pgUpdate_cases)
  case 1
  then show ?thesis using nop by (cases s) simp
next
  case (2 r)
  note st = step [OF 2(1-4)]
  show ?thesis unfolding 2(5) by (rule sys_inv_update [OF inv 2(1), where q = q and f = f, OF 2(2) conjunct1 [OF st] conjunct2 [OF st]])
    (use cl hs holders in simp_all)
qed

lemma sqlCreate_cases:
  assumes "sqlCreate r c snapshot = (res, t')" "new_row r"
  obtains "t' = pgLate c snapshot" | "t' = pgLate c snapshot @ [r]" "c_id r \<notin> c_id ` set (pgLate c snapshot)"
    "db_step (pgLate c snapshot) t'"
proof -
  have "db_step (pgLate c snapshot) (pgLate c snapshot @ [r])"
    if "tasks_check r" "c_id r \<notin> c_id ` set (pgLate c snapshot)"
      "c_idempotency_key r = None \<or> c_idempotency_key r \<notin> c_idempotency_key ` set (pgLate c snapshot)"
    using assms(2) that by (intro db_step.insert)
  then show thesis using assms(1) that unfolding sqlCreate_def Let_def by (auto split: if_splits)
qed

lemma sys_inv_create:
  assumes inv: "sys_inv s" and c: "sqlCreate (newTaskRow e p i st (pgNow c)) c snapshot = (res, t')"
    and late: "pgLate c snapshot = sTable s" and st: "st = StatusPending \<or> st = StatusScheduled"
  shows "sys_inv (s\<lparr>sTable := t'\<rparr>)"
proof -
  let ?r = "newTaskRow e p i st (pgNow c)"
  have new: "new_row ?r" using st by (rule newTaskRow_new)
  from c new show ?thesis
  proof (cases rule: sqlCreate_cases)
    case 1
    then show ?thesis using inv late by (simp add: sys_inv_def)
  next
    case 2
    note 2 = 2 [unfolded late]
    have "db_inv t'" using 2(3) sys_invD(1) [OF inv] by (rule db_step_inv)
    moreover have "sClaims s (c_id ?r) = 0" "c_id ?r \<notin> fst ` set (sHolders s)"
      using inv 2(2) by (simp_all add: sys_inv_def)
    then have "row_ok (sClaims s) (sHolders s) ?r"
      using new by (auto simp: row_ok_def new_row_def started_def image_iff)
    ultimately show ?thesis using inv 2(1) by (auto simp: sys_inv_def)
  qed
qed

text \<open>The holders after one of them has gone.\<close>

lemma sys_inv_drop:
  assumes "sys_inv s" "sHolders s = hs @ h # hs'"
  shows "sys_inv (s\<lparr>sHolders := hs @ hs'\<rparr>)"
  using assms by (auto simp: sys_inv_def row_ok_def)

lemma row_okD:
  assumes "sys_inv s" "row (sTable s) i = Some r"
  shows "row_ok (sClaims s) (sHolders s) r" "row_inv r" "c_id r = i"
  using assms sys_invD [OF assms(1)] by (auto simp: db_inv_def dest: row_Some_D)

lemma sys_inv_transition:
  assumes inv: "sys_inv s" and p: "program_transition src to wid"
    and d: "sqlTransition i src to wid c (sTable s) = (res, t')"
  shows "sys_inv (s\<lparr>sTable := t', sHolders := sHolders s, sClaims := count_claim to i res (sClaims s)\<rparr>)"
  using inv d [unfolded sqlTransition_def]
proof (rule sys_inv_pgUpdate)
  fix r
  assume r: "row (sTable s) i = Some r" "c_status r = src" "res = Inr [setTransition to wid (pgNow c) r]"
  have "c_retry_count (setTransition to wid (pgNow c) r) = c_retry_count r" by (simp add: setTransition_def)
  then show "row_step r (setTransition to wid (pgNow c) r)
      \<and> row_ok (count_claim to i res (sClaims s)) (sHolders s) (setTransition to wid (pgNow c) r)"
    using setTransition_step [OF p r(2)] row_okD [OF inv r(1)] r(2,3) p
    by (auto simp: row_ok_def started_def count_claim_def program_transition_def)
qed (use inv in \<open>auto simp: sys_inv_def count_claim_def split: sum.split list.split\<close>)

lemma sys_inv_mark:
  assumes inv: "sys_inv s" and m: "sqlMarkFailed i f c (sTable s) = (res, t')"
  shows "sys_inv (s\<lparr>sTable := t', sHolders := sHolders s, sClaims := sClaims s\<rparr>)"
  using inv m [unfolded sqlMarkFailed_def]
proof (rule sys_inv_pgUpdate)
  fix r
  assume r: "row (sTable s) i = Some r" "c_status r = StatusRunning"
  show "row_step r (r\<lparr>c_status := StatusFailed, c_last_error := Some f, c_updated_at := pgNow c\<rparr>)
      \<and> row_ok (sClaims s) (sHolders s) (r\<lparr>c_status := StatusFailed, c_last_error := Some f, c_updated_at := pgNow c\<rparr>)"
    using row_okD [OF inv r(1)] r(2) by (auto simp: row_ok_def started_def intro: row_step.fail)
qed (use inv in \<open>auto simp: sys_inv_def\<close>)

text \<open>Whoever marks a task as failed becomes its holder; a running task had none.\<close>

lemma sys_inv_mark_hold:
  assumes inv: "sys_inv s" and m: "sqlMarkFailed i f c (sTable s) = (Inr (x # xs), t')"
  shows "sys_inv (s\<lparr>sTable := t', sHolders := (i, scanTask x) # sHolders s, sClaims := sClaims s\<rparr>)"
proof -
  from m obtain r where r: "row (sTable s) i = Some r" "c_status r = StatusRunning"
    using pgUpdate_cases [OF m [unfolded sqlMarkFailed_def] sys_invD(2) [OF inv]] by (metis list.distinct(1) sum.inject(2))
  have free: "i \<notin> fst ` set (sHolders s)"
    using row_okD [OF inv r(1)] r(2) by (auto simp: row_ok_def)
  show ?thesis
    using inv m [unfolded sqlMarkFailed_def]
  proof (rule sys_inv_pgUpdate)
    fix r
    assume r: "row (sTable s) i = Some r" "c_status r = StatusRunning"
      "Inr (x # xs) = Inr [r\<lparr>c_status := StatusFailed, c_last_error := Some f, c_updated_at := pgNow c\<rparr>]"
    then show "row_step r (r\<lparr>c_status := StatusFailed, c_last_error := Some f, c_updated_at := pgNow c\<rparr>)
        \<and> row_ok (sClaims s) ((i, scanTask x) # sHolders s)
            (r\<lparr>c_status := StatusFailed, c_last_error := Some f, c_updated_at := pgNow c\<rparr>)"
      using row_okD [OF inv r(1)] free by (auto simp: row_ok_def started_def intro: row_step.fail)
  qed (use inv free in \<open>auto simp: sys_inv_def\<close>)
qed

text \<open>The holder still finds the row as it left it, so that its decision counts the retry exactly.\<close>

lemma sys_inv_complete:
  assumes inv: "sys_inv s" and h: "sHolders s = hs @ (i, ft) # hs'" and d: "d = failureDecision err now ft"
    and c: "sqlCompleteFailure (ID ft) d (map_option tz (dNextRetryAt d)) f c (sTable s) = (res, t')"
  shows "sys_inv (s\<lparr>sTable := t', sHolders := hs @ hs', sClaims := sClaims s\<rparr>)"
proof -
  have fr: "j \<notin> c_id ` set (sTable s) \<Longrightarrow> j \<noteq> i" for j using inv h by (auto simp: sys_inv_def)
  have gone: "i \<notin> fst ` set (hs @ hs')" using inv by (auto simp: sys_inv_def h)
  obtain r0 where r0: "row (sTable s) i = Some r0" using fr [of i] by (metis not_None_eq row_None)
  then have id: "ID ft = i" using row_okD [OF inv r0] h by (auto simp: row_ok_def)
  let ?f = "\<lambda>r. r\<lparr>c_status := dStatus d, c_retry_count := dRetryCount d, c_next_retry_at := map_option tz (dNextRetryAt d),
    c_last_error := Some f, c_finished_at := (if dStatus d = StatusDead then Some (pgNow c) else c_finished_at r),
    c_updated_at := pgNow c\<rparr>"
  show ?thesis
    using inv c [unfolded sqlCompleteFailure_def id]
  proof (rule sys_inv_pgUpdate)
    fix r
    assume r: "row (sTable s) i = Some r" "c_status r = StatusFailed" "tasks_check (?f r)"
    note ok = row_okD [OF inv r(1)]
    have ft: "RetryCount ft = c_retry_count r" "MaxRetries ft = c_max_retries r"
      using ok h by (auto simp: row_ok_def)
    note dc = failureDecision_cases [OF ok(2) ft, of err now, folded d]
    have "row_step r (?f r)"
      by (rule CompleteFailure_step [OF failureDecision_wf(1) [OF ok(2) ft, of err now, folded d] r(2) ok(2) refl r(3)])
    moreover have "row_ok (sClaims s) (hs @ hs') (?f r)"
      using ok(1,3) r(2) gone by (force simp: row_ok_def started_def dc)
    ultimately show "row_step r (?f r) \<and> row_ok (sClaims s) (hs @ hs') (?f r)" ..
  qed (use sys_inv_drop [OF inv h] inv in \<open>auto simp: sys_inv_def h\<close>)
qed

lemma sys_step_inv: "sys_step s s' \<Longrightarrow> sys_inv s \<Longrightarrow> sys_inv s'"
proof (induction rule: sys_step.induct)
  case (create e p i st c snapshot res t' s)
  then show ?case by (blast intro: sys_inv_create)
next
  case (transition src to wid i c s res t')
  then show ?case using sys_inv_transition [of s src to wid i c res t'] by (cases s) simp
next
  case (mark i f c s r rs t')
  then show ?case using sys_inv_mark_hold [of s i f c r rs t'] by (cases s) simp
next
  case (mark_lost i f c s res t')
  then show ?case using sys_inv_mark [of s i f c res t'] by (cases s) simp
next
  case (complete s hs i ft hs' d err now tz f c res t')
  then show ?case using sys_inv_complete [of s hs i ft hs' d err now tz f c res t'] by (cases s) simp
next
  case (die s hs h hs')
  then show ?case by (blast intro: sys_inv_drop)
qed

lemma sys_reach_inv: "sys_reach s \<Longrightarrow> sys_inv s"
  by (induction rule: sys_reach.induct) (auto intro: sys_inv_init sys_step_inv)

section \<open>Refinement of the table specification\<close>

lemma sys_complete_wf:
  assumes inv: "sys_inv s" and h: "sHolders s = hs @ (i, ft) # hs'"
  shows "decision_wf (failureDecision err now ft)"
proof -
  have "i \<in> c_id ` set (sTable s)" using inv by (auto simp: sys_inv_def h)
  then obtain r where r: "row (sTable s) i = Some r" by (metis not_None_eq row_None)
  note ok = row_okD [OF inv r]
  show ?thesis by (rule failureDecision_wf [OF ok(2)]) (use ok h in \<open>auto simp: row_ok_def\<close>)
qed

lemma sys_step_refines: "sys_step s s' \<Longrightarrow> sys_inv s \<Longrightarrow> db_steps (sTable s) (sTable s')"
proof (induction rule: sys_step.induct)
  case (create e p i st c snapshot res t' s)
  from create(1) newTaskRow_new [OF create(3)] create(2) show ?case by (cases rule: sqlCreate_cases) auto
next
  case (transition src to wid i c s res t')
  have "db_steps (sTable s) (snd (sqlTransition i src to wid c (sTable s)))"
    unfolding sqlTransition_def
    by (rule pgUpdate_effect) (use transition sys_invD(1) setTransition_step in auto)
  with transition show ?case by simp
next
  case (mark i f c s r rs t')
  have "db_steps (sTable s) (snd (sqlMarkFailed i f c (sTable s)))"
    unfolding sqlMarkFailed_def by (rule pgUpdate_effect) (use mark sys_invD(1) in \<open>auto intro: row_step.fail\<close>)
  with mark show ?case by simp
next
  case (mark_lost i f c s res t')
  have "db_steps (sTable s) (snd (sqlMarkFailed i f c (sTable s)))"
    unfolding sqlMarkFailed_def by (rule pgUpdate_effect) (use mark_lost sys_invD(1) in \<open>auto intro: row_step.fail\<close>)
  with mark_lost show ?case by simp
next
  case (complete s hs i ft hs' d err now tz f c res t')
  then have wf: "decision_wf d" by (simp add: sys_complete_wf)
  have "db_steps (sTable s) (snd (sqlCompleteFailure (ID ft) d (map_option tz (dNextRetryAt d)) f c (sTable s)))"
    unfolding sqlCompleteFailure_def
    by (rule pgUpdate_effect) (use complete sys_invD(1) CompleteFailure_step [OF wf _ _ refl] in auto)
  with complete show ?case by simp
qed simp

lemma count_claim_mono: "cl j \<le> count_claim to i res cl j"
  by (simp add: count_claim_def split: sum.split list.split)

lemma sys_step_claims: "sys_step s s' \<Longrightarrow> sClaims s j \<le> sClaims s' j"
  by (induction rule: sys_step.induct) (simp_all add: count_claim_mono)

lemma sys_steps:
  assumes "sys_step\<^sup>*\<^sup>* s s'" "sys_inv s"
  shows "sys_inv s'" "db_steps (sTable s) (sTable s')" "sClaims s j \<le> sClaims s' j"
proof -
  from assms have "sys_inv s' \<and> db_steps (sTable s) (sTable s') \<and> sClaims s j \<le> sClaims s' j"
  proof (induction rule: rtranclp_induct)
    case (step y z)
    then show ?case
      using sys_step_inv [of y z] sys_step_refines [of y z] sys_step_claims [of y z j] by (auto intro: rtranclp_trans)
  qed simp
  then show "sys_inv s'" "db_steps (sTable s) (sTable s')" "sClaims s j \<le> sClaims s' j" by simp_all
qed

text \<open>C1. In every state that any interleaving of servers, workers and schedulers can reach, with lost
  replies and processes that die at any point, a task has been claimed exactly once per counted retry, and once
  more when its current attempt has started: at most \<open>max_retries + 1\<close> times in all. From then on, whatever
  happens, the task keeps its identity, its status follows the life cycle, a finished task never changes, and its
  claims are never forgotten.\<close>

theorem claims_bounded:
  assumes "sys_reach s" "sys_step\<^sup>*\<^sup>* s s'" "row (sTable s) i = Some r"
  shows "\<exists>r'. row (sTable s') i = Some r'
     \<and> int (sClaims s' i) = c_retry_count r'
         + (if c_status r' \<in> {StatusRunning, StatusSuccess, StatusFailed, StatusDead} then 1 else 0)
     \<and> int (sClaims s' i) \<le> c_max_retries r + 1
     \<and> sClaims s i \<le> sClaims s' i
     \<and> same_identity r r' \<and> lifecycle (c_status r) (c_status r')
     \<and> (IsTerminal (c_status r) \<longrightarrow> r' = r)"
proof -
  note inv = sys_reach_inv [OF assms(1)]
  note steps = sys_steps [OF assms(2) inv]
  obtain r' where r': "row (sTable s') i = Some r'" "evolves r r'"
    using db_steps_row [OF steps(2) sys_invD(2) [OF inv] assms(3)] by blast
  note ok = row_okD [OF steps(1) r'(1)]
  have "c_retry_count r' \<le> c_max_retries r'" using ok(2) by (simp add: row_inv_def tasks_check_def)
  moreover have "c_max_retries r' = c_max_retries r" using r'(2) by (simp add: evolves_def same_identityD)
  ultimately show ?thesis
    using ok r' steps(3) [of i] by (intro exI [of _ r']) (auto simp: row_ok_def started_def evolves_def)
qed

section \<open>What the system does to the tasks\<close>

text \<open>
  The specification of the writing operations. It does not mention statements: an action concerns one task and says
  what becomes of its row, of the processes that hold a failed task, and of the number of claims.
  A failure is marked with or without a holder (the reply may be lost), and then ends in a retry, which counts one
  more, or in the death of the task, which keeps the count; either needs a holder, who goes. A holder may also give up.
\<close>

datatype action =
    Submit CreateTaskParams
  | Dispatch Status string
  | Claim string string
  | Finish string
  | Fail string string
  | FailUnheard string string
  | RetryLater string string
  | Bury string string
  | GiveUp string

definition put :: "task_row \<Rightarrow> task_row list \<Rightarrow> task_row list" where
  "put r t = map (\<lambda>x. if c_id x = c_id r then r else x) t"

inductive task_step :: "action \<Rightarrow> sys \<Rightarrow> sys \<Rightarrow> bool" where
  submitted: "new_row r \<Longrightarrow> c_task_type r = pType p \<Longrightarrow> c_idempotency_key r = pIdempotencyKey p \<Longrightarrow>
    c_timeout_seconds r = pTimeoutSeconds p \<Longrightarrow> c_max_retries r = pMaxRetries p \<Longrightarrow>
    c_id r \<notin> c_id ` set (sTable s) \<Longrightarrow>
    c_idempotency_key r = None \<or> c_idempotency_key r \<notin> c_idempotency_key ` set (sTable s) \<Longrightarrow>
    task_step (Submit p) s (s\<lparr>sTable := sTable s @ [r]\<rparr>)"
| dispatched: "row (sTable s) i = Some r \<Longrightarrow> c_status r = src \<Longrightarrow> src = StatusScheduled \<or> src = StatusRetrying \<Longrightarrow>
    task_step (Dispatch src i) s
      (s\<lparr>sTable := put (r\<lparr>c_status := StatusPending, c_next_retry_at := None, c_updated_at := now\<rparr>) (sTable s)\<rparr>)"
| claimed: "row (sTable s) i = Some r \<Longrightarrow> c_status r = StatusPending \<Longrightarrow>
    task_step (Claim i wid) s
      (s\<lparr>sTable := put (r\<lparr>c_status := StatusRunning, c_worker_id := Some wid, c_started_at := Some now,
                         c_updated_at := now\<rparr>) (sTable s),
         sClaims := (sClaims s)(i := Suc (sClaims s i))\<rparr>)"
| finished: "row (sTable s) i = Some r \<Longrightarrow> c_status r = StatusRunning \<Longrightarrow>
    task_step (Finish i) s
      (s\<lparr>sTable := put (r\<lparr>c_status := StatusSuccess, c_finished_at := Some now, c_updated_at := now\<rparr>) (sTable s)\<rparr>)"
| failed: "row (sTable s) i = Some r \<Longrightarrow> c_status r = StatusRunning \<Longrightarrow>
    r' = r\<lparr>c_status := StatusFailed, c_last_error := Some msg, c_updated_at := now\<rparr> \<Longrightarrow>
    task_step (Fail i msg) s (s\<lparr>sTable := put r' (sTable s), sHolders := (i, scanTask r') # sHolders s\<rparr>)"
| failed_unheard: "row (sTable s) i = Some r \<Longrightarrow> c_status r = StatusRunning \<Longrightarrow>
    task_step (FailUnheard i msg) s
      (s\<lparr>sTable := put (r\<lparr>c_status := StatusFailed, c_last_error := Some msg, c_updated_at := now\<rparr>) (sTable s)\<rparr>)"
| retried: "row (sTable s) i = Some r \<Longrightarrow> c_status r = StatusFailed \<Longrightarrow> c_retry_count r < c_max_retries r \<Longrightarrow>
    sHolders s = hs @ (i, ft) # hs' \<Longrightarrow>
    task_step (RetryLater i msg) s
      (s\<lparr>sTable := put (r\<lparr>c_status := StatusRetrying, c_retry_count := c_retry_count r + 1, c_next_retry_at := Some time,
                         c_last_error := Some msg, c_updated_at := now\<rparr>) (sTable s),
         sHolders := hs @ hs'\<rparr>)"
| buried: "row (sTable s) i = Some r \<Longrightarrow> c_status r = StatusFailed \<Longrightarrow> sHolders s = hs @ (i, ft) # hs' \<Longrightarrow>
    task_step (Bury i msg) s
      (s\<lparr>sTable := put (r\<lparr>c_status := StatusDead, c_next_retry_at := None, c_last_error := Some msg,
                         c_finished_at := Some now, c_updated_at := now\<rparr>) (sTable s),
         sHolders := hs @ hs'\<rparr>)"
| gave_up: "sHolders s = hs @ (i, ft) # hs' \<Longrightarrow> task_step (GiveUp i) s (s\<lparr>sHolders := hs @ hs'\<rparr>)"

text \<open>The action a transition of the program stands for, and the action a decision stands for.\<close>

definition transitionAction :: "Status \<Rightarrow> Status \<Rightarrow> string option \<Rightarrow> string \<Rightarrow> action" where
  "transitionAction src to wid i =
     (if to = StatusRunning then Claim i (derefString wid) else if to = StatusSuccess then Finish i else Dispatch src i)"

definition failureAction :: "goerror \<Rightarrow> Task \<Rightarrow> string \<Rightarrow> action" where
  "failureAction err ft msg =
     (if IsNonRetryable (Some err) \<or> MaxRetries ft \<le> RetryCount ft then Bury (ID ft) msg else RetryLater (ID ft) msg)"

lemma update_where_put:
  assumes "row t i = Some r" "q r" "c_id (f r) = i" "distinct (map c_id t)"
  shows "update_where (\<lambda>x. c_id x = i \<and> q x) f t = put (f r) t" "row (put (f r) t) i = Some (f r)"
proof -
  have r: "r \<in> set t" "c_id r = i" using assms(1) by (auto dest: row_Some_D)
  have only: "x = r" if "x \<in> set t" "c_id x = i" for x
    using that r assms(4) by (auto simp: distinct_map dest: inj_onD)
  show "update_where (\<lambda>x. c_id x = i \<and> q x) f t = put (f r) t"
    unfolding update_where_def put_def by (rule map_cong) (use assms(2,3) only in auto)
  have "map c_id (put (f r) t) = map c_id t" using assms(3) by (simp add: put_def)
  then have "distinct (map c_id (put (f r) t))" using assms(4) by simp
  moreover have "f r \<in> set (put (f r) t)" using r assms(3) by (force simp: put_def)
  ultimately show "row (put (f r) t) i = Some (f r)" using assms(3) by (simp add: row_Some_iff)
qed

lemma row_append_new: "c_id r \<notin> c_id ` set t \<Longrightarrow> row (t @ [r]) (c_id r) = Some r"
  by (induction t) (auto simp: row_def)

text \<open>Each statement does what its action says, or nothing.\<close>

lemma transition_action:
  assumes inv: "sys_inv s" and p: "program_transition src to wid" and d: "sqlTransition i src to wid c (sTable s) = (res, t')"
  shows "t' = sTable s \<and> (\<forall>x xs. res \<noteq> Inr (x # xs))
    \<or> (\<exists>r. res = Inr [r] \<and> row t' i = Some r
        \<and> task_step (transitionAction src to wid i) s (s\<lparr>sTable := t', sClaims := count_claim to i res (sClaims s)\<rparr>))"
  using d [unfolded sqlTransition_def] sys_invD(2) [OF inv]
proof (cases rule: pgUpdate_cases)
  case (2 r)
  let ?f = "setTransition to wid (pgNow c)"
  have id: "c_id (?f r) = i" using row_okD(3) [OF inv 2(1)] by simp
  note t = update_where_put [OF 2(1), where q = "\<lambda>x. c_status x = src" and f = ?f, OF 2(2) id sys_invD(2) [OF inv]]
  have t': "t' = put (?f r) (sTable s)" using 2(5) t(1) by simp
  have "task_step (transitionAction src to wid i) s (s\<lparr>sTable := t', sClaims := count_claim to i res (sClaims s)\<rparr>)"
  proof -
    consider w where "src = StatusPending" "to = StatusRunning" "wid = Some w"
      | "src = StatusRunning" "to = StatusSuccess"
      | "src = StatusScheduled \<or> src = StatusRetrying" "to = StatusPending"
      using p by (auto simp: program_transition_def)
    then show ?thesis
    proof cases
      case (1 w)
      have "?f r = r\<lparr>c_status := StatusRunning, c_worker_id := Some w, c_started_at := Some (pgNow c), c_updated_at := pgNow c\<rparr>"
        by (simp add: setTransition_def 1)
      then show ?thesis
        using task_step.claimed [OF 2(1), of w "pgNow c"] 2(2,4) 1
        by (simp add: t' transitionAction_def derefString_def count_claim_def)
    next
      case b: 2
      have "?f r = r\<lparr>c_status := StatusSuccess, c_finished_at := Some (pgNow c), c_updated_at := pgNow c\<rparr>"
        by (simp add: setTransition_def b)
      then show ?thesis
        using task_step.finished [OF 2(1), of "pgNow c"] 2(2,4) b by (simp add: t' transitionAction_def count_claim_def)
    next
      case 3
      have "?f r = r\<lparr>c_status := StatusPending, c_next_retry_at := None, c_updated_at := pgNow c\<rparr>"
        by (simp add: setTransition_def 3)
      then show ?thesis
        using task_step.dispatched [OF 2(1,2) 3(1), of "pgNow c"] 2(4) 3 by (simp add: t' transitionAction_def count_claim_def)
    qed
  qed
  then show ?thesis using 2(4) t(2) t' by blast
qed blast

lemma mark_action:
  assumes inv: "sys_inv s" and m: "sqlMarkFailed i f c (sTable s) = (res, t')"
  shows "t' = sTable s \<and> (\<forall>x xs. res \<noteq> Inr (x # xs))
    \<or> (\<exists>r. res = Inr [r] \<and> row t' i = Some r
        \<and> task_step (Fail i f) s (s\<lparr>sTable := t', sHolders := (i, scanTask r) # sHolders s\<rparr>)
        \<and> task_step (FailUnheard i f) s (s\<lparr>sTable := t'\<rparr>))"
  using m [unfolded sqlMarkFailed_def] sys_invD(2) [OF inv]
proof (cases rule: pgUpdate_cases)
  case (2 r)
  let ?f = "\<lambda>r. r\<lparr>c_status := StatusFailed, c_last_error := Some f, c_updated_at := pgNow c\<rparr>"
  have id: "c_id (?f r) = i" using row_okD(3) [OF inv 2(1)] by simp
  note t = update_where_put [OF 2(1), where q = "\<lambda>x. c_status x = StatusRunning" and f = ?f, OF 2(2) id sys_invD(2) [OF inv]]
  have t': "t' = put (?f r) (sTable s)" using 2(5) t(1) by simp
  from task_step.failed [OF 2(1,2) refl, of f "pgNow c"] task_step.failed_unheard [OF 2(1,2), of f "pgNow c"] 2(4) t(2) t'
  show ?thesis by blast
qed blast

lemma complete_action:
  assumes inv: "sys_inv s" and h: "sHolders s = hs @ (ID ft, ft) # hs'" and d: "d = failureDecision err now ft"
    and c: "sqlCompleteFailure (ID ft) d (map_option tz (dNextRetryAt d)) f c (sTable s) = (res, t')"
  shows "t' = sTable s \<and> (\<forall>x xs. res \<noteq> Inr (x # xs))
    \<or> (\<exists>r. res = Inr [r] \<and> row t' (ID ft) = Some r
        \<and> task_step (failureAction err ft f) s (s\<lparr>sTable := t', sHolders := hs @ hs'\<rparr>))"
  using c [unfolded sqlCompleteFailure_def] sys_invD(2) [OF inv]
proof (cases rule: pgUpdate_cases)
  case (2 r)
  let ?f = "\<lambda>r. r\<lparr>c_status := dStatus d, c_retry_count := dRetryCount d, c_next_retry_at := map_option tz (dNextRetryAt d),
    c_last_error := Some f, c_finished_at := (if dStatus d = StatusDead then Some (pgNow c) else c_finished_at r),
    c_updated_at := pgNow c\<rparr>"
  note ok = row_okD [OF inv 2(1)]
  have "(c_id r, ft) \<in> set (sHolders s)" using h ok(3) by simp
  then have ft: "RetryCount ft = c_retry_count r" "MaxRetries ft = c_max_retries r"
    using ok(1) unfolding row_ok_def by blast+
  note dc = failureDecision_cases [OF ok(2) ft, of err now, folded d]
  have id: "c_id (?f r) = ID ft" using ok(3) by simp
  note t = update_where_put [OF 2(1), where q = "\<lambda>x. c_status x = StatusFailed" and f = ?f, OF 2(2) id sys_invD(2) [OF inv]]
  have t': "t' = put (?f r) (sTable s)" using 2(5) t(1) by simp
  have "task_step (failureAction err ft f) s (s\<lparr>sTable := t', sHolders := hs @ hs'\<rparr>)"
  proof (cases "IsNonRetryable (Some err) \<or> MaxRetries ft \<le> RetryCount ft")
    case True
    then have "?f r = r\<lparr>c_status := StatusDead, c_next_retry_at := None, c_last_error := Some f,
        c_finished_at := Some (pgNow c), c_updated_at := pgNow c\<rparr>" by (auto simp: dc ft)
    then show ?thesis
      using task_step.buried [OF 2(1,2) h, of f "pgNow c"] True by (simp add: t' failureAction_def)
  next
    case False
    then have "?f r = r\<lparr>c_status := StatusRetrying, c_retry_count := c_retry_count r + 1,
        c_next_retry_at := Some (tz (now + BackoffDelay (c_retry_count r + 1))), c_last_error := Some f, c_updated_at := pgNow c\<rparr>"
      by (simp add: dc ft)
    then show ?thesis
      using task_step.retried [OF 2(1,2) _ h, where time = "tz (now + BackoffDelay (c_retry_count r + 1))" and msg = f and now = "pgNow c"] False ft
      by (simp add: t' failureAction_def)
  qed
  then show ?thesis using 2(4) t(2) t' by blast
qed blast

lemma create_action:
  assumes c: "sqlCreate (newTaskRow e p i st (pgNow c)) c snapshot = (res, t')" and s: "sTable s = pgLate c snapshot"
    and st: "st = StatusPending \<or> st = StatusScheduled"
  shows "t' = sTable s \<and> (\<forall>r xs. res \<noteq> Inr ((r, True) # xs))
    \<or> (\<exists>r. res = Inr [(r, True)] \<and> row t' (c_id r) = Some r \<and> task_step (Submit p) s (s\<lparr>sTable := t'\<rparr>))"
proof -
  let ?r = "newTaskRow e p i st (pgNow c)"
  have v: "c_task_type ?r = pType p" "c_idempotency_key ?r = pIdempotencyKey p" "c_timeout_seconds ?r = pTimeoutSeconds p"
    "c_max_retries ?r = pMaxRetries p" by (simp_all add: newTaskRow_def)
  have "row (sTable s @ [?r]) (c_id ?r) = Some ?r \<and> task_step (Submit p) s (s\<lparr>sTable := sTable s @ [?r]\<rparr>)"
    if "c_id ?r \<notin> c_id ` set (sTable s)"
      "c_idempotency_key ?r = None \<or> c_idempotency_key ?r \<notin> c_idempotency_key ` set (sTable s)"
    using task_step.submitted [OF newTaskRow_new [OF st] v that] row_append_new [OF that(1)] by blast
  then show ?thesis
    using c unfolding s sqlCreate_def Let_def by (auto split: if_splits)
qed

text \<open>So every step of the system is an action, or changes nothing.\<close>

lemma sys_step_action: "sys_step s s' \<Longrightarrow> sys_inv s \<Longrightarrow> s' = s \<or> (\<exists>a. task_step a s s')"
proof (induction rule: sys_step.induct)
  case (create e p i st c snapshot res t' s)
  from create_action [OF create(1) create(2) [symmetric] create(3)] show ?case by auto
next
  case (transition src to wid i c s res t')
  from transition_action [OF transition(3,1,2)] show ?case
    by (auto simp: count_claim_def split: sum.split list.split)
next
  case (mark i f c s r rs t')
  from mark_action [OF mark(2,1)] show ?case by auto
next
  case (mark_lost i f c s res t')
  from mark_action [OF mark_lost(2,1)] show ?case by auto
next
  case (complete s hs i ft hs' d err now tz f c res t')
  have "i \<in> c_id ` set (sTable s)" using complete by (auto simp: sys_inv_def)
  then obtain r where r: "row (sTable s) i = Some r" by (metis not_None_eq row_None)
  have id: "ID ft = i" using row_okD [OF complete(4) r] complete(1) by (auto simp: row_ok_def)
  from complete_action [OF complete(4) complete(1) [folded id] complete(2,3)] show ?case
    using task_step.gave_up [OF complete(1)] by auto
next
  case (die s hs h hs')
  then show ?case using task_step.gave_up [of s hs "fst h" "snd h" hs'] by auto
qed








text \<open>A task that was created, claimed by a worker, and marked as failed by it.\<close>

definition sampleSys :: "nat \<Rightarrow> sys" where
  "sampleSys n =
     (let r0 = newTaskRow calmEnv (sampleParams None) ''a'' StatusPending 500;
          r1 = setTransition StatusRunning (Some ''w'') 500 r0;
          r2 = r1\<lparr>c_status := StatusFailed, c_last_error := Some ''boom'', c_updated_at := 500\<rparr>
      in if n = 0 then sysInit
         else if n = 1 then \<lparr>sTable = [r0], sHolders = [], sClaims = (\<lambda>_. 0)\<rparr>
         else if n = 2 then \<lparr>sTable = [r1], sHolders = [], sClaims = (\<lambda>_. 0)(''a'' := 1)\<rparr>
         else \<lparr>sTable = [r2], sHolders = [(''a'', scanTask r2)], sClaims = (\<lambda>_. 0)(''a'' := 1)\<rparr>)"

lemma newTaskRow_sample: "tasks_check (newTaskRow calmEnv (sampleParams k) i StatusPending 500)"
  by (simp add: tasks_check_def tasks_status_check_iff newTaskRow_def sampleParams_def int4_def)

lemma sampleSys_step1: "sys_step (sampleSys 0) (sampleSys 1)"
  using sys_step.create [of calmEnv "sampleParams None" "''a''" StatusPending calmCall "[]" _ _ sysInit] newTaskRow_sample
  by (simp add: sampleSys_def sysInit_def sqlCreate_def Let_def)

lemma sampleSys_step2: "sys_step (sampleSys 1) (sampleSys 2)"
  using sys_step.transition [of StatusPending StatusRunning "Some ''w''" "''a''" calmCall "sampleSys 1"] newTaskRow_sample
  by (simp add: sampleSys_def sysInit_def program_transition_def sqlTransition_def pgUpdate_def update_where_def Let_def
      count_claim_def setTransition_check newTaskRow_def)

lemma sampleSys_step3: "sys_step (sampleSys 2) (sampleSys 3)"
  using sys_step.mark [of "''a''" "''boom''" calmCall "sampleSys 2"] newTaskRow_sample [of None "''a''"]
  by (simp add: sampleSys_def sysInit_def sqlMarkFailed_def pgUpdate_def update_where_def Let_def
      setTransition_def newTaskRow_def tasks_check_def tasks_status_check_iff)

lemma sampleSys_reach: "sys_reach (sampleSys 1)" "sys_step\<^sup>*\<^sup>* (sampleSys 1) (sampleSys 3)"
proof -
  have "sys_reach (sampleSys 0)" by (simp add: sampleSys_def sys_reach.init)
  then show "sys_reach (sampleSys 1)" using sampleSys_step1 by (rule sys_reach.step)
  show "sys_step\<^sup>*\<^sup>* (sampleSys 1) (sampleSys 3)"
    using sampleSys_step2 sampleSys_step3 by (meson converse_rtranclp_into_rtranclp r_into_rtranclp)
qed

theorem claims_bounded_witness:
  "\<exists>r'. row (sTable (sampleSys 3)) ''a'' = Some r' \<and> int (sClaims (sampleSys 3) ''a'') \<le> 4
     \<and> lifecycle StatusPending (c_status r')"
  using claims_bounded [OF sampleSys_reach, of "''a''" "newTaskRow calmEnv (sampleParams None) ''a'' StatusPending 500"]
  by (auto simp: sampleSys_def Let_def row_def newTaskRow_def sampleParams_def)


end
