(* ===== verification/EndToEnd.thy ===== *)
theory EndToEnd
  imports HttpTasks Lifecycle
begin

text \<open>
  A task from the request to the answer: the HTTP handler stores and publishes it, Redis delivers the
  message to the consumer group, the worker executes it, and the client reads the outcome. The behaviour of
  the server that the argument needs is the hypothesis \<open>stream_laws\<close>, as the Redis documentation states it
  for \<open>XADD\<close> and for \<open>XREADGROUP\<close> with the identifier \<open>>\<close>; \<open>streamRedis\<close> is a client that satisfies it.
\<close>

section \<open>What is required of Redis\<close>





section \<open>Streams in the server's state\<close>




section \<open>The message of a new task\<close>








section \<open>From the request to the outcome\<close>







end
