(* ===== verification/JsonEncode.thy ===== *)
theory JsonEncode
  imports Json
begin

text \<open>
  How \<open>encoding/json\<close> writes a string: every byte or rune on its own, with the escaping of HTML characters. The scanner
  reads back what was written, with invalid bytes replaced; on valid UTF-8 it is the text itself.
\<close>

section \<open>Strings\<close>

text \<open>A byte below \<open>RuneSelf\<close>: the bytes of \<open>htmlSafeSet\<close> stay as they are.\<close>

definition htmlSafe :: "char \<Rightarrow> bool" where
  "htmlSafe c \<longleftrightarrow> 0x20 \<le> byteOf c \<and> byteOf c < 0x80 \<and> c \<notin> {CHR 0x22, CHR 0x5C, CHR ''<'', CHR ''>'', CHR ''&''}"

definition escapeByte :: "char \<Rightarrow> string" where
  "escapeByte c =
     (if htmlSafe c then [c]
      else if c = CHR 0x22 \<or> c = CHR 0x5C then [CHR 0x5C, c]
      else if c = CHR 0x08 then [CHR 0x5C, CHR ''b''] else if c = CHR 0x0C then [CHR 0x5C, CHR ''f'']
      else if c = CHR 0x0A then [CHR 0x5C, CHR ''n''] else if c = CHR 0x0D then [CHR 0x5C, CHR ''r'']
      else if c = CHR 0x09 then [CHR 0x5C, CHR ''t'']
      else [CHR 0x5C, CHR ''u'', CHR ''0'', CHR ''0'', hexDigit (byteOf c div 16), hexDigit (byteOf c mod 16)])"

text \<open>\<open>appendString\<close> with \<open>escapeHTML\<close>, without the quotes. An invalid byte becomes the escape of the replacement
  character, and the two line separators of Unicode are escaped.\<close>

definition lineSeparator :: "nat \<Rightarrow> string" where
  "lineSeparator r = CHR 0x5C # ''u202'' @ [hexDigit (r mod 16)]"

function appendString :: "string \<Rightarrow> string" where
  "appendString [] = []"
| "appendString (c # cs) =
     (if byteOf c < 0x80 then escapeByte c @ appendString cs
      else case decodeRune (c # cs) of (r, n) \<Rightarrow>
        if r = runeError \<and> n = 1 then CHR 0x5C # ''ufffd'' @ appendString cs
        else if r = 0x2028 \<or> r = 0x2029 then lineSeparator r @ appendString (drop (n - 1) cs)
        else take n (c # cs) @ appendString (drop (n - 1) cs))"
  by pat_completeness auto
termination by (relation "measure length") auto

definition encodeString :: "string \<Rightarrow> string" where
  "encodeString s = CHR 0x22 # appendString s @ [CHR 0x22]"

text \<open>The text with every invalid byte replaced; \<open>validUTF8\<close> says that there is none.\<close>

function toValidUTF8 :: "string \<Rightarrow> string" where
  "toValidUTF8 [] = []"
| "toValidUTF8 (c # cs) = (case decodeRune (c # cs) of (r, n) \<Rightarrow> encodeRune r @ toValidUTF8 (drop (n - 1) cs))"
  by pat_completeness auto
termination by (relation "measure length") auto

definition validUTF8 :: "string \<Rightarrow> bool" where
  "validUTF8 s \<longleftrightarrow> toValidUTF8 s = s"

section \<open>Runes of more than one byte\<close>

text \<open>A rune that was decoded from several bytes: they are not ASCII, they encode the rune, and decoding them does not depend
  on what follows.\<close>

lemma decodeRune_ascii: "byteOf c < 0x80 \<Longrightarrow> decodeRune (c # cs) = (byteOf c, 1)"
  by (simp add: decodeRune_def)

lemma encodeRune_ascii: "byteOf c < 0x80 \<Longrightarrow> encodeRune (byteOf c) = [c]"
  by (simp add: encodeRune_def)

lemma div_mod_64:
  fixes x y :: nat
  assumes "y < 64"
  shows "(x * 64 + y) div 64 = x" "(x * 64 + y) mod 64 = y"
  using assms by simp_all

lemma encodeRune_2: "2 \<le> x \<Longrightarrow> x < 32 \<Longrightarrow> y < 64 \<Longrightarrow> encodeRune (x * 64 + y) = map char_of [0xC0 + x, 0x80 + y]"
  by (simp add: encodeRune_def)

lemma encodeRune_3:
  assumes "x < 16" "y < 64" "z < 64" "x = 0 \<longrightarrow> 32 \<le> y"
  shows "encodeRune (x * 4096 + y * 64 + z) = map char_of [0xE0 + x, 0x80 + y, 0x80 + z]"
proof -
  let ?r = "x * 4096 + y * 64 + z"
  have "?r = (x * 64 + y) * 64 + z" by simp
  then have a: "?r div 64 = x * 64 + y" "?r mod 64 = z" using div_mod_64 [OF assms(3)] by metis+
  have "?r div 4096 = ?r div 64 div 64" by (simp add: div_mult2_eq [symmetric])
  then have b: "?r div 4096 = x" unfolding a using div_mod_64 [OF assms(2)] by simp
  have "\<not> ?r < 0x800" using assms by (cases "x = 0") auto
  moreover have "?r < 0x10000" using assms by simp
  ultimately show ?thesis unfolding encodeRune_def using a b div_mod_64 [OF assms(2)] by simp
qed

lemma encodeRune_4:
  assumes "x < 5" "y < 64" "z < 64" "u < 64" "x = 0 \<longrightarrow> 16 \<le> y"
  shows "encodeRune (x * 262144 + y * 4096 + z * 64 + u) = map char_of [0xF0 + x, 0x80 + y, 0x80 + z, 0x80 + u]"
proof -
  let ?r = "x * 262144 + y * 4096 + z * 64 + u"
  have "?r = (x * 4096 + y * 64 + z) * 64 + u" by simp
  then have a: "?r div 64 = x * 4096 + y * 64 + z" "?r mod 64 = u" using div_mod_64 [OF assms(4)] by metis+
  have "x * 4096 + y * 64 + z = (x * 64 + y) * 64 + z" by simp
  then have b: "(x * 4096 + y * 64 + z) div 64 = x * 64 + y" "(x * 4096 + y * 64 + z) mod 64 = z"
    using div_mod_64 [OF assms(3)] by metis+
  have "?r div 4096 = ?r div 64 div 64" "?r div 262144 = ?r div 64 div 64 div 64" by (simp_all add: div_mult2_eq [symmetric])
  then have c: "?r div 4096 = x * 64 + y" "?r div 262144 = x" unfolding a b using div_mod_64 [OF assms(2)] by simp_all
  have "\<not> ?r < 0x10000" using assms by (cases "x = 0") auto
  then show ?thesis unfolding encodeRune_def using a b c div_mod_64 [OF assms(2)] by simp
qed

definition isTail :: "char \<Rightarrow> bool" where
  "isTail x \<longleftrightarrow> isCont 0x80 0xBF (byteOf x)"

definition solid :: "string \<Rightarrow> nat \<Rightarrow> bool" where
  "solid u r \<longleftrightarrow> 2 \<le> length u \<and> encodeRune r = u \<and> (\<forall>t. decodeRune (u @ t) = (r, length u)) \<and> (\<forall>x \<in> set u. 0x80 \<le> byteOf x)
     \<and> (\<forall>x \<in> set (tl u). isTail x)"

lemma solid_2:
  assumes "0xC2 \<le> byteOf a" "byteOf a \<le> 0xDF" "isCont 0x80 0xBF (byteOf b)"
  shows "solid [a, b] ((byteOf a - 0xC0) * 64 + (byteOf b - 0x80))"
proof -
  have "encodeRune ((byteOf a - 0xC0) * 64 + (byteOf b - 0x80)) = map char_of [0xC0 + (byteOf a - 0xC0), 0x80 + (byteOf b - 0x80)]"
    by (rule encodeRune_2) (use assms in \<open>auto simp: isCont_def\<close>)
  also have "\<dots> = [a, b]" using assms by (simp add: isCont_def)
  finally show ?thesis using assms by (auto simp: solid_def decodeRune_def isCont_def isTail_def)
qed

lemma solid_3:
  assumes "0xE0 \<le> byteOf a" "byteOf a \<le> 0xEF" "isCont (if byteOf a = 0xE0 then 0xA0 else 0x80) (if byteOf a = 0xED then 0x9F else 0xBF) (byteOf b)"
    "isCont 0x80 0xBF (byteOf c)"
  shows "solid [a, b, c] ((byteOf a - 0xE0) * 4096 + (byteOf b - 0x80) * 64 + (byteOf c - 0x80))"
proof -
  have b: "0x80 \<le> byteOf b" "byteOf b \<le> 0xBF" using assms(3) by (auto simp: isCont_def split: if_splits)
  have "encodeRune ((byteOf a - 0xE0) * 4096 + (byteOf b - 0x80) * 64 + (byteOf c - 0x80))
      = map char_of [0xE0 + (byteOf a - 0xE0), 0x80 + (byteOf b - 0x80), 0x80 + (byteOf c - 0x80)]"
    by (rule encodeRune_3) (use assms b in \<open>auto simp: isCont_def\<close>)
  also have "\<dots> = [a, b, c]" using assms b by (simp add: isCont_def)
  finally show ?thesis using assms b by (auto simp: solid_def decodeRune_def isCont_def isTail_def)
qed

lemma solid_4:
  assumes "0xF0 \<le> byteOf a" "byteOf a \<le> 0xF4" "isCont (if byteOf a = 0xF0 then 0x90 else 0x80) (if byteOf a = 0xF4 then 0x8F else 0xBF) (byteOf b)"
    "isCont 0x80 0xBF (byteOf c)" "isCont 0x80 0xBF (byteOf d)"
  shows "solid [a, b, c, d] ((byteOf a - 0xF0) * 262144 + (byteOf b - 0x80) * 4096 + (byteOf c - 0x80) * 64 + (byteOf d - 0x80))"
proof -
  have b: "0x80 \<le> byteOf b" "byteOf b \<le> 0xBF" using assms(3) by (auto simp: isCont_def split: if_splits)
  have "encodeRune ((byteOf a - 0xF0) * 262144 + (byteOf b - 0x80) * 4096 + (byteOf c - 0x80) * 64 + (byteOf d - 0x80))
      = map char_of [0xF0 + (byteOf a - 0xF0), 0x80 + (byteOf b - 0x80), 0x80 + (byteOf c - 0x80), 0x80 + (byteOf d - 0x80)]"
    by (rule encodeRune_4) (use assms b in \<open>auto simp: isCont_def\<close>)
  also have "\<dots> = [a, b, c, d]" using assms b by (simp add: isCont_def)
  finally show ?thesis using assms b by (auto simp: solid_def decodeRune_def isCont_def isTail_def)
qed

lemma decodeRune_2:
  "0xC2 \<le> byteOf c \<Longrightarrow> byteOf c \<le> 0xDF \<Longrightarrow> decodeRune (c # cs) = (case cs of
     b # t \<Rightarrow> if isCont 0x80 0xBF (byteOf b) then ((byteOf c - 0xC0) * 64 + (byteOf b - 0x80), 2) else (runeError, 1)
   | [] \<Rightarrow> (runeError, 1))"
  by (simp add: decodeRune_def split: list.split)

lemma decodeRune_3:
  "0xE0 \<le> byteOf c \<Longrightarrow> byteOf c \<le> 0xEF \<Longrightarrow> decodeRune (c # cs) = (case cs of
     b # d # t \<Rightarrow>
       if isCont (if byteOf c = 0xE0 then 0xA0 else 0x80) (if byteOf c = 0xED then 0x9F else 0xBF) (byteOf b) \<and> isCont 0x80 0xBF (byteOf d)
       then ((byteOf c - 0xE0) * 4096 + (byteOf b - 0x80) * 64 + (byteOf d - 0x80), 3) else (runeError, 1)
   | _ \<Rightarrow> (runeError, 1))"
  by (simp add: decodeRune_def split: list.split)

lemma decodeRune_4:
  "0xF0 \<le> byteOf c \<Longrightarrow> byteOf c \<le> 0xF4 \<Longrightarrow> decodeRune (c # cs) = (case cs of
     b # d # e # t \<Rightarrow>
       if isCont (if byteOf c = 0xF0 then 0x90 else 0x80) (if byteOf c = 0xF4 then 0x8F else 0xBF) (byteOf b)
         \<and> isCont 0x80 0xBF (byteOf d) \<and> isCont 0x80 0xBF (byteOf e)
       then ((byteOf c - 0xF0) * 262144 + (byteOf b - 0x80) * 4096 + (byteOf d - 0x80) * 64 + (byteOf e - 0x80), 4) else (runeError, 1)
   | _ \<Rightarrow> (runeError, 1))"
  by (simp add: decodeRune_def split: list.split)

lemma decodeRune_cases:
  assumes "\<not> byteOf c < 0x80"
  shows "decodeRune (c # cs) = (runeError, 1) \<or> (\<exists>u t r. c # cs = u @ t \<and> solid u r \<and> decodeRune (c # cs) = (r, length u))"
proof -
  have app: ?thesis if "c # cs = u @ t" "solid u r" for u t r
    using that unfolding solid_def by metis
  consider "0xC2 \<le> byteOf c" "byteOf c \<le> 0xDF" | "0xE0 \<le> byteOf c" "byteOf c \<le> 0xEF" | "0xF0 \<le> byteOf c" "byteOf c \<le> 0xF4"
    | "\<not> (0xC2 \<le> byteOf c \<and> byteOf c \<le> 0xDF)" "\<not> (0xE0 \<le> byteOf c \<and> byteOf c \<le> 0xEF)" "\<not> (0xF0 \<le> byteOf c \<and> byteOf c \<le> 0xF4)"
    by linarith
  then show ?thesis
  proof cases
    case 1
    then show ?thesis using solid_2 [OF 1] by (fastforce simp: decodeRune_2 [OF 1] intro: app split: list.split)
  next
    case 2
    define P where "P = isCont (if byteOf c = 0xE0 then 0xA0 else 0x80) (if byteOf c = 0xED then 0x9F else 0xBF)"
    have no: "decodeRune (c # cs) = (runeError, 1)" if "\<not> (\<exists>b d t. cs = b # d # t \<and> P (byteOf b) \<and> isCont 0x80 0xBF (byteOf d))"
      unfolding decodeRune_3 [OF 2, folded P_def] using that by (auto split: list.splits)
    have "?thesis" if "cs = b # d # t" "P (byteOf b)" "isCont 0x80 0xBF (byteOf d)" for b d t
      by (rule app [OF _ solid_3 [OF 2 that(2,3) [unfolded P_def]], of t]) (simp add: that(1))
    with no show ?thesis by blast
  next
    case 3
    define P where "P = isCont (if byteOf c = 0xF0 then 0x90 else 0x80) (if byteOf c = 0xF4 then 0x8F else 0xBF)"
    have no: "decodeRune (c # cs) = (runeError, 1)"
      if "\<not> (\<exists>b d e t. cs = b # d # e # t \<and> P (byteOf b) \<and> isCont 0x80 0xBF (byteOf d) \<and> isCont 0x80 0xBF (byteOf e))"
      unfolding decodeRune_4 [OF 3, folded P_def] using that by (auto split: list.splits)
    have "?thesis" if "cs = b # d # e # t" "P (byteOf b)" "isCont 0x80 0xBF (byteOf d)" "isCont 0x80 0xBF (byteOf e)" for b d e t
      by (rule app [OF _ solid_4 [OF 3 that(2-4) [unfolded P_def]], of t]) (simp add: that(1))
    with no show ?thesis by blast
  next
    case 4
    then show ?thesis using assms by (auto simp: decodeRune_def)
  qed
qed

text \<open>Induction over the runes of a text.\<close>

lemma utf8_induct [case_names Nil ascii invalid solid]:
  assumes "P []" "\<And>c cs. byteOf c < 0x80 \<Longrightarrow> P cs \<Longrightarrow> P (c # cs)"
    and "\<And>c cs. \<not> byteOf c < 0x80 \<Longrightarrow> decodeRune (c # cs) = (runeError, 1) \<Longrightarrow> P cs \<Longrightarrow> P (c # cs)"
    and "\<And>u t r. solid u r \<Longrightarrow> P t \<Longrightarrow> P (u @ t)"
  shows "P s"
proof (induction s rule: length_induct)
  case (1 s)
  show ?case
  proof (cases s)
    case (Cons c cs)
    show ?thesis
    proof (cases "byteOf c < 0x80")
      case True
      then show ?thesis using 1 Cons assms(2) by simp
    next
      case False
      from decodeRune_cases [OF False, of cs] show ?thesis
      proof (elim disjE exE conjE)
        fix u t r assume u: "c # cs = u @ t" "solid u r"
        then have "length t < length s" unfolding Cons u(1) by (auto simp: solid_def)
        then show ?thesis using 1 assms(4) [OF u(2)] unfolding Cons u(1) by blast
      qed (use 1 Cons assms(3) False in simp)
    qed
  qed (simp add: assms(1))
qed

lemma solidE:
  assumes "solid u r"
  obtains c v where "u = c # v" "v \<noteq> []" "\<not> byteOf c < 0x80" "\<And>t. decodeRune (c # v @ t) = (r, Suc (length v))" "encodeRune r = u"
proof (cases u)
  case (Cons c v)
  show thesis
  proof (rule that [OF Cons])
    show "decodeRune (c # v @ t) = (r, Suc (length v))" for t using assms unfolding solid_def Cons by (auto dest: spec [of _ t])
  qed (use assms in \<open>auto simp: solid_def Cons\<close>)
qed (use assms in \<open>simp add: solid_def\<close>)

lemma appendString_solid:
  assumes "solid u r"
  shows "appendString (u @ t) = (if r = 0x2028 \<or> r = 0x2029 then lineSeparator r else u) @ appendString t"
    "toValidUTF8 (u @ t) = u @ toValidUTF8 t" "unquoteBody (u @ t) = u @ unquoteBody t"
proof -
  obtain c v where u: "u = c # v" "v \<noteq> []" "\<not> byteOf c < 0x80" "\<And>t. decodeRune (c # v @ t) = (r, Suc (length v))" "encodeRune r = u"
    using solidE [OF assms] by metis
  from u(3) have "c \<noteq> CHR 0x5C" by auto
  with u show "appendString (u @ t) = (if r = 0x2028 \<or> r = 0x2029 then lineSeparator r else u) @ appendString t"
    "toValidUTF8 (u @ t) = u @ toValidUTF8 t" "unquoteBody (u @ t) = u @ unquoteBody t"
    by (simp_all add: u(1))
qed

section \<open>Strings read back\<close>

text \<open>A piece of a string body that stands for \<open>y\<close>, whatever follows it.\<close>

definition piece :: "string \<Rightarrow> string \<Rightarrow> bool" where
  "piece x y \<longleftrightarrow> (\<forall>t. unquoteBody (x @ t) = y @ unquoteBody t)
     \<and> (\<forall>t. scanString (x @ t) = (case scanString t of None \<Rightarrow> None | Some (b, r) \<Rightarrow> Some (x @ b, r)))"

lemma piece_escape: "simpleEscape e = Some y \<Longrightarrow> e \<noteq> CHR ''u'' \<Longrightarrow> piece [CHR 0x5C, e] [y]"
  by (auto simp: piece_def split: option.split)

lemma hexValue_hexDigit: "n < 16 \<Longrightarrow> hexValue (hexDigit n) = Some n"
  by (auto simp: hexValue_def hexDigit_def Let_def)

lemma piece_unicode:
  assumes "a < 16" "b < 16" "c < 16" "d < 16" "r = a * 4096 + b * 256 + c * 16 + d" "r < 0xD800 \<or> 0xE000 \<le> r"
  shows "piece [CHR 0x5C, CHR ''u'', hexDigit a, hexDigit b, hexDigit c, hexDigit d] (encodeRune r)"
proof -
  have g: "getu4 (hexDigit a # hexDigit b # hexDigit c # hexDigit d # t) = Some r" for t
    using assms by (simp add: hexValue_hexDigit)
  have n: "\<not> (0xD800 \<le> r \<and> r < 0xE000)" using assms(6) by linarith
  show ?thesis unfolding piece_def using g n by (auto simp: Let_def simp del: getu4.simps split: option.split)
qed

lemma piece_solid: "solid u r \<Longrightarrow> piece u u"
proof -
  assume s: "solid u r"
  have "\<forall>x \<in> set v. 0x80 \<le> byteOf x \<Longrightarrow> scanString (v @ t) = (case scanString t of None \<Rightarrow> None | Some (b, r) \<Rightarrow> Some (v @ b, r))" for v t
  proof (induction v)
    case (Cons x v)
    then have "x \<noteq> CHR 0x22" "x \<noteq> CHR 0x5C" "\<not> byteOf x < 0x20" by auto
    with Cons show ?case by (simp split: option.split)
  next
    case Nil
    show ?case by (cases "scanString t") auto
  qed
  with s show ?thesis by (simp add: piece_def appendString_solid [OF s] solid_def)
qed

lemma plain_piece:
  assumes "byteOf c < 0x80" "c \<noteq> CHR 0x5C" "c \<noteq> CHR 0x22" "\<not> byteOf c < 0x20"
  shows "piece [c] [c]"
  using assms by (simp add: piece_def decodeRune_ascii encodeRune_ascii split: option.split)

lemma escapeByte_piece:
  assumes "byteOf c < 0x80"
  shows "piece (escapeByte c) [c]"
proof -
  have short: "piece [CHR 0x5C, CHR 0x22] [CHR 0x22]" "piece [CHR 0x5C, CHR 0x5C] [CHR 0x5C]" "piece [CHR 0x5C, CHR ''b''] [CHR 0x08]"
    "piece [CHR 0x5C, CHR ''f''] [CHR 0x0C]" "piece [CHR 0x5C, CHR ''n''] [CHR 0x0A]" "piece [CHR 0x5C, CHR ''r''] [CHR 0x0D]"
    "piece [CHR 0x5C, CHR ''t''] [CHR 0x09]"
    by (rule piece_escape; simp add: simpleEscape_def)+
  have safe: "piece [c] [c]" if "htmlSafe c" by (rule plain_piece) (use that in \<open>auto simp: htmlSafe_def\<close>)
  have "hexDigit 0 = CHR ''0''" by code_simp
  with piece_unicode [of 0 0 "byteOf c div 16" "byteOf c mod 16" "byteOf c"] assms
  have "piece [CHR 0x5C, CHR ''u'', CHR ''0'', CHR ''0'', hexDigit (byteOf c div 16), hexDigit (byteOf c mod 16)] [c]"
    by (simp add: encodeRune_ascii)
  with short safe show ?thesis unfolding escapeByte_def by (simp split: if_split)
qed

lemma piece_replacement: "piece (CHR 0x5C # ''ufffd'') (encodeRune runeError)"
proof -
  have "hexDigit 15 = CHR ''f''" "hexDigit 13 = CHR ''d''" by code_simp+
  with piece_unicode [of 15 15 15 13 runeError] show ?thesis by (simp add: runeError_def)
qed

lemma piece_separator: "r = 0x2028 \<or> r = 0x2029 \<Longrightarrow> piece (lineSeparator r) (encodeRune r)"
proof -
  have "hexDigit 2 = CHR ''2''" "hexDigit 0 = CHR ''0''" by code_simp+
  with piece_unicode [of 2 0 2 "r mod 16" r] show "r = 0x2028 \<or> r = 0x2029 \<Longrightarrow> piece (lineSeparator r) (encodeRune r)"
    by (auto simp: lineSeparator_def)
qed

lemma pieceD: "piece x y \<Longrightarrow> unquoteBody (x @ t) = y @ unquoteBody t"
  "piece x y \<Longrightarrow> scanString t = Some (b, r) \<Longrightarrow> scanString (x @ t) = Some (x @ b, r)"
  by (simp_all add: piece_def)

text \<open>The whole body.\<close>

lemma appendString_reads:
  "unquoteBody (appendString s) = toValidUTF8 s" "scanString (appendString s @ CHR 0x22 # t) = Some (appendString s, t)"
proof (induction s rule: utf8_induct)
  case (ascii c cs)
  then have "appendString (c # cs) = escapeByte c @ appendString cs" "toValidUTF8 (c # cs) = c # toValidUTF8 cs"
    by (simp_all add: decodeRune_ascii encodeRune_ascii)
  with ascii pieceD [OF escapeByte_piece [OF ascii(1)]]
  show "unquoteBody (appendString (c # cs)) = toValidUTF8 (c # cs)"
    "scanString (appendString (c # cs) @ CHR 0x22 # t) = Some (appendString (c # cs), t)" by simp_all
next
  case (invalid c cs)
  then have e: "appendString (c # cs) = (CHR 0x5C # ''ufffd'') @ appendString cs" "toValidUTF8 (c # cs) = encodeRune runeError @ toValidUTF8 cs"
    by simp_all
  show "unquoteBody (appendString (c # cs)) = toValidUTF8 (c # cs)" unfolding e pieceD(1) [OF piece_replacement] invalid(3) ..
  show "scanString (appendString (c # cs) @ CHR 0x22 # t) = Some (appendString (c # cs), t)"
    unfolding e append_assoc by (rule pieceD(2) [OF piece_replacement]) (rule invalid(4))
next
  case (solid u s r)
  let ?x = "if r = 0x2028 \<or> r = 0x2029 then lineSeparator r else u"
  have "encodeRune r = u" using solid(1) by (simp add: solid_def)
  then have p: "piece ?x u" using piece_solid [OF solid(1)] piece_separator [of r] by simp
  note e = appendString_solid(1,2) [OF solid(1), of s]
  show "unquoteBody (appendString (u @ s)) = toValidUTF8 (u @ s)" unfolding e pieceD(1) [OF p] solid(2) ..
  show "scanString (appendString (u @ s) @ CHR 0x22 # t) = Some (appendString (u @ s), t)"
    unfolding e append_assoc by (rule pieceD(2) [OF p]) (rule solid(3))
qed simp_all

end
