(* ===== verification/JsonCompact.thy ===== *)
theory JsonCompact
  imports JsonEncode JsonText
begin

text \<open>
  How \<open>encoding/json\<close> writes a \<open>json.RawMessage\<close>: the text of the value without the space between its tokens and with
  HTML characters escaped. The scanner reads the same value from it.
\<close>

section \<open>Compaction\<close>

text \<open>
  The loop of \<open>appendCompact\<close> with \<open>escape\<close>: space between tokens is dropped, the three HTML characters and the line
  separators are escaped, everything else is copied.
\<close>

definition isHtml :: "char \<Rightarrow> bool" where
  "isHtml c \<longleftrightarrow> c \<in> {CHR ''<'', CHR ''>'', CHR ''&''}"

definition separatorAt :: "char \<Rightarrow> string \<Rightarrow> bool" where
  "separatorAt c cs \<longleftrightarrow> c = CHR 0xE2 \<and> take 1 cs = [CHR 0x80] \<and> (take 1 (drop 1 cs) = [CHR 0xA8] \<or> take 1 (drop 1 cs) = [CHR 0xA9])"

definition hexEscape :: "char \<Rightarrow> string" where
  "hexEscape c = [CHR 0x5C, CHR ''u'', CHR ''0'', CHR ''0'', hexDigit (byteOf c div 16), hexDigit (byteOf c mod 16)]"

function compactLoop :: "place \<Rightarrow> string \<Rightarrow> string" where
  "compactLoop p [] = []"
| "compactLoop p (c # cs) =
     (if p = Between \<and> isJsonSpace c then compactLoop p cs
      else if isHtml c then hexEscape c @ compactLoop (placeAfter p c) cs
      else if separatorAt c cs then lineSeparator (byteOf (hd (drop 1 cs))) @ compactLoop p (drop 2 cs)
      else c # compactLoop (placeAfter p c) cs)"
  by pat_completeness auto
termination by (relation "measure (\<lambda>(p, s). length s)") auto

definition appendCompact :: "string \<Rightarrow> string option" where
  "appendCompact src = (if jsonValid src then Some (compactLoop Between src) else None)"

subsection \<open>Bodies of strings\<close>

text \<open>A string body the scanner accepts.\<close>

definition accepted :: "string \<Rightarrow> bool" where
  "accepted b \<longleftrightarrow> scanString (b @ [CHR 0x22]) = Some (b, [])"

lemma scanString_body: "scanString s = Some (b, r) \<Longrightarrow> s = b @ CHR 0x22 # r"
proof (induction "length s" arbitrary: s b rule: less_induct)
  case less
  obtain c cs where s: "s = c # cs" using less.prems by (cases s) auto
  show ?case
  proof (cases "c = CHR 0x5C")
    case False
    with less s show ?thesis by (auto split: if_splits)
  next
    case True
    with less.prems s obtain e es where cs: "cs = e # es" by (cases cs) auto
    show ?thesis
    proof (cases "e = CHR ''u''")
      case u: True
      from less.prems obtain b' where b': "scanString (drop 4 es) = Some (b', r)" "b = c # e # take 4 es @ b'"
        by (auto simp: s True cs u split: if_splits)
      have "drop 4 es = b' @ CHR 0x22 # r" by (rule less.hyps [OF _ b'(1)]) (simp add: s cs)
      then have "es = take 4 es @ b' @ CHR 0x22 # r" by (metis append_take_drop_id)
      then show ?thesis by (simp add: s cs b'(2))
    next
      case False
      with less.prems obtain b' where b': "scanString es = Some (b', r)" "b = c # e # b'"
        by (auto simp: s True cs split: if_splits)
      from less.hyps [OF _ b'(1)] show ?thesis by (simp add: s cs b'(2))
    qed
  qed
qed

lemma scanString_accepted:
  assumes "scanString s = Some (b, r)"
  shows "accepted b" "s = b @ CHR 0x22 # r"
proof -
  show s: "s = b @ CHR 0x22 # r" by (rule scanString_body [OF assms])
  obtain p where p: "s = p @ r" "\<And>r'. scanString (p @ r') = Some (b, r')" using scanString_local [OF assms] by blast
  from s p(1) have "p = b @ [CHR 0x22]" by simp
  with p(2) [of "[]"] show "accepted b" by (simp add: accepted_def)
qed

lemma accepted_Nil [simp]: "accepted []"
  by (simp add: accepted_def)

text \<open>How an accepted body begins.\<close>

lemma accepted_cases:
  assumes "accepted b"
  obtains (Nil) "b = []"
    | (escape) e es where "b = CHR 0x5C # e # es" "e \<noteq> CHR ''u''" "simpleEscape e \<noteq> None" "accepted es"
    | (unicode) h es where "b = CHR 0x5C # CHR ''u'' # h @ es" "length h = 4" "getu4 h \<noteq> None" "accepted es"
    | (plain) c cs where "b = c # cs" "c \<noteq> CHR 0x5C" "c \<noteq> CHR 0x22" "\<not> byteOf c < 0x20" "accepted cs"
proof (cases b)
  case (Cons c cs)
  note a = assms [unfolded accepted_def Cons]
  then have q: "c \<noteq> CHR 0x22" "\<not> byteOf c < 0x20" by (auto split: if_splits)
  show thesis
  proof (cases "c = CHR 0x5C")
    case False
    with a q have "accepted cs" by (auto simp: accepted_def)
    with plain [OF Cons False q] show thesis by blast
  next
    case True
    show thesis
    proof (cases cs)
      case Nil
      with a True show thesis by (auto split: if_splits)
    next
      case cs: (Cons e es)
      show thesis
      proof (cases "e = CHR ''u''")
        case False
        with a True cs have "simpleEscape e \<noteq> None" "accepted es" by (auto simp: accepted_def split: if_splits)
        with escape [of e es] False show thesis by (simp add: Cons True cs)
      next
        case u: True
        from a True cs u obtain b' where g: "getu4 (es @ [CHR 0x22]) \<noteq> None"
          and b': "scanString (drop 4 (es @ [CHR 0x22])) = Some (b', [])" "es = take 4 (es @ [CHR 0x22]) @ b'"
          by (auto split: if_splits)
        have l: "4 \<le> length es"
        proof (rule ccontr)
          assume "\<not> 4 \<le> length es"
          then have "length (drop 4 (es @ [CHR 0x22])) = 0" "b' \<noteq> [] \<or> length es = length es" by auto
          with b'(1) show False by auto
        qed
        from b'(2) l have e: "es = take 4 es @ b'" by simp
        have d: "drop 4 (es @ [CHR 0x22]) = b' @ [CHR 0x22]" by (subst e) (use l in simp)
        have "getu4 (take 4 es) \<noteq> None" using g l
          by (cases es rule: getu4.cases) (auto split: option.splits)
        moreover have "accepted b'" using b'(1) unfolding accepted_def d .
        ultimately show thesis using unicode [of "take 4 es" b'] e l by (simp add: Cons True cs u)
      qed
    qed
  qed
qed (simp add: Nil)

abbreviation compactBody :: "string \<Rightarrow> string" where
  "compactBody \<equiv> compactLoop InString"

lemma not_special [simp]:
  "\<not> isHtml (CHR 0x5C)" "\<not> isHtml (CHR 0x22)" "\<not> separatorAt (CHR 0x5C) cs" "\<not> separatorAt (CHR 0x22) cs"
  "\<not> isHtml (CHR ''u'')" "\<not> separatorAt (CHR ''u'') cs"
  by (simp_all add: isHtml_def separatorAt_def)

lemma compactBody_escape:
  assumes "simpleEscape e \<noteq> None"
  shows "compactBody (CHR 0x5C # e # es) = CHR 0x5C # e # compactBody es"
proof -
  have "\<not> isHtml e" "\<not> separatorAt e es" using assms by (auto simp: simpleEscape_def isHtml_def separatorAt_def split: if_splits)
  then show ?thesis by (simp add: placeAfter_def)
qed

lemma hexValue_plain: "hexValue x \<noteq> None \<Longrightarrow> placeAfter InString x = InString \<and> \<not> isHtml x \<and> \<not> separatorAt x cs"
  by (auto simp: hexValue_def Let_def placeAfter_def isHtml_def separatorAt_def split: if_splits)

lemma compactBody_unicode:
  assumes "length h = 4" "getu4 h \<noteq> None"
  shows "compactBody (CHR 0x5C # CHR ''u'' # h @ es) = CHR 0x5C # CHR ''u'' # h @ compactBody es"
proof -
  obtain a b c d where h: "h = [a, b, c, d]" using assms(1) by (auto simp: numeral_eq_Suc length_Suc_conv)
  from assms(2) have "hexValue a \<noteq> None" "hexValue b \<noteq> None" "hexValue c \<noteq> None" "hexValue d \<noteq> None"
    by (auto simp: h split: option.splits)
  from this [THEN hexValue_plain] show ?thesis by (simp add: h placeAfter_def)
qed

lemma placeAfter_plain: "c \<noteq> CHR 0x5C \<Longrightarrow> c \<noteq> CHR 0x22 \<Longrightarrow> placeAfter InString c = InString"
  by (simp add: placeAfter_def)

lemma compactBody_plain:
  assumes "c \<noteq> CHR 0x5C" "c \<noteq> CHR 0x22"
  shows "compactBody (c # cs) =
     (if isHtml c then hexEscape c @ compactBody cs
      else if separatorAt c cs then lineSeparator (byteOf (hd (drop 1 cs))) @ compactBody (drop 2 cs)
      else c # compactBody cs)"
  using placeAfter_plain [OF assms] by simp

lemma compactBody_quote: "compactBody (CHR 0x22 # t) = CHR 0x22 # compactLoop Between t"
  by (simp add: placeAfter_def)

lemma separatorAt_quote: "separatorAt c (cs @ CHR 0x22 # t) = separatorAt c cs"
  by (cases cs; cases "tl cs") (auto simp: separatorAt_def)

lemma separatorAtE:
  assumes "separatorAt c cs"
  obtains x t where "c = CHR 0xE2" "cs = CHR 0x80 # x # t" "x = CHR 0xA8 \<or> x = CHR 0xA9" "solid [c, CHR 0x80, x] (0x1F80 + byteOf x)"
proof -
  from assms obtain x t where c: "c = CHR 0xE2" "cs = CHR 0x80 # x # t" "x = CHR 0xA8 \<or> x = CHR 0xA9"
    by (cases cs; cases "tl cs") (auto simp: separatorAt_def)
  have "solid [c, CHR 0x80, x] ((byteOf c - 0xE0) * 4096 + (byteOf (CHR 0x80) - 0x80) * 64 + (byteOf x - 0x80))"
    by (rule solid_3) (use c(1,3) in \<open>auto simp: isCont_def\<close>)
  moreover have "(byteOf c - 0xE0) * 4096 + (byteOf (CHR 0x80) - 0x80) * 64 + (byteOf x - 0x80) = 0x1F80 + byteOf x"
    using c(1,3) by auto
  ultimately show thesis using that [OF c] by simp
qed

text \<open>After the body the place is between tokens again.\<close>

lemma compactBody_end: "accepted b \<Longrightarrow> compactBody (b @ CHR 0x22 # t) = compactBody b @ CHR 0x22 # compactLoop Between t"
proof (induction "length b" arbitrary: b rule: less_induct)
  case less
  from less.prems show ?case
  proof (cases rule: accepted_cases)
    case Nil
    then show ?thesis by (simp add: compactBody_quote del: compactLoop.simps(2))
  next
    case (escape e es)
    then show ?thesis using less.hyps [of es] by (simp add: compactBody_escape del: compactLoop.simps(2))
  next
    case (unicode h es)
    then show ?thesis using less.hyps [of es] compactBody_unicode [OF unicode(2,3)] by (simp del: compactLoop.simps(2))
  next
    case (plain c cs)
    show ?thesis
    proof (cases "separatorAt c cs")
      case True
      then obtain x u where s: "c = CHR 0xE2" "cs = CHR 0x80 # x # u" "x = CHR 0xA8 \<or> x = CHR 0xA9" using separatorAtE by metis
      have "accepted u" using plain(5) s(2,3) by (auto simp: accepted_def split: if_splits)
      then have "compactBody (u @ CHR 0x22 # t) = compactBody u @ CHR 0x22 # compactLoop Between t"
        using less.hyps [of u] by (simp add: plain(1) s(2))
      moreover have "\<not> isHtml c" "separatorAt c (CHR 0x80 # x # u @ CHR 0x22 # t)" using s(1,3) by (auto simp: isHtml_def separatorAt_def)
      ultimately show ?thesis
        using True s(2) by (simp add: plain(1) compactBody_plain [OF plain(2,3)] del: compactLoop.simps(2))
    next
      case False
      then show ?thesis using less.hyps [of cs] plain
        by (simp add: compactBody_plain [OF plain(2,3)] separatorAt_quote del: compactLoop.simps(2))
    qed
  qed
qed

text \<open>The compacted body is accepted, as it stands.\<close>

lemma html_piece: "isHtml c \<Longrightarrow> piece (hexEscape c) [c]"
proof -
  assume h: "isHtml c"
  then have "hexEscape c = escapeByte c" by (auto simp: isHtml_def hexEscape_def escapeByte_def htmlSafe_def)
  moreover have "byteOf c < 0x80" using h by (auto simp: isHtml_def)
  ultimately show ?thesis using escapeByte_piece by metis
qed

lemma separator_piece:
  assumes "x = CHR 0xA8 \<or> x = CHR 0xA9"
  shows "piece (lineSeparator (byteOf x)) (encodeRune (0x1F80 + byteOf x))"
proof -
  have "lineSeparator (byteOf x) = lineSeparator (0x1F80 + byteOf x)" using assms by (auto simp: lineSeparator_def)
  with piece_separator [of "0x1F80 + byteOf x"] assms show ?thesis by auto
qed

lemma scanString_unicode:
  assumes "length h = 4" "getu4 h \<noteq> None" "scanString s = Some (b, r)"
  shows "scanString (CHR 0x5C # CHR ''u'' # h @ s) = Some (CHR 0x5C # CHR ''u'' # h @ b, r)"
proof -
  obtain a b c d where h: "h = [a, b, c, d]" using assms(1) by (auto simp: numeral_eq_Suc length_Suc_conv)
  with assms(2,3) show ?thesis by (auto split: option.splits)
qed

lemma compactBody_scan: "accepted b \<Longrightarrow> scanString (compactBody b @ CHR 0x22 # t) = Some (compactBody b, t)"
proof (induction "length b" arbitrary: b rule: less_induct)
  case less
  from less.prems show ?case
  proof (cases rule: accepted_cases)
    case (escape e es)
    then show ?thesis using less.hyps [of es] by (simp add: compactBody_escape del: compactLoop.simps(2))
  next
    case (unicode h es)
    then show ?thesis using less.hyps [of es] compactBody_unicode [OF unicode(2,3)] scanString_unicode [OF unicode(2,3)]
      by (simp del: compactLoop.simps(2) scanString.simps)
  next
    case (plain c cs)
    show ?thesis
    proof (cases "separatorAt c cs")
      case True
      then obtain x u where s: "c = CHR 0xE2" "cs = CHR 0x80 # x # u" "x = CHR 0xA8 \<or> x = CHR 0xA9" using separatorAtE by metis
      have "accepted u" using plain(5) s(2,3) by (auto simp: accepted_def split: if_splits)
      then have i: "scanString (compactBody u @ CHR 0x22 # t) = Some (compactBody u, t)"
        using less.hyps [of u] by (simp add: plain(1) s(2))
      have "\<not> isHtml c" by (simp add: s(1) isHtml_def)
      then have "compactBody b = lineSeparator (byteOf x) @ compactBody u"
        using True s(2) by (simp add: plain(1) compactBody_plain [OF plain(2,3)] del: compactLoop.simps(2))
      then show ?thesis using pieceD(2) [OF separator_piece [OF s(3)] i] by simp
    next
      case False
      have i: "scanString (compactBody cs @ CHR 0x22 # t) = Some (compactBody cs, t)" using less.hyps [of cs] plain by simp
      show ?thesis
        using False plain i pieceD(2) [OF html_piece i] by (simp add: compactBody_plain [OF plain(2,3)] del: compactLoop.simps(2))
    qed
  qed simp
qed

subsection \<open>What a compacted body stands for\<close>

text \<open>Decoding a rune looks at the continuation bytes after the first byte only.\<close>

lemma decodeRune_tail:
  assumes "\<not> byteOf c < 0x80"
  shows "decodeRune (c # takeWhile isTail cs) = decodeRune (c # cs)"
proof -
  consider "0xC2 \<le> byteOf c" "byteOf c \<le> 0xDF" | "0xE0 \<le> byteOf c" "byteOf c \<le> 0xEF" | "0xF0 \<le> byteOf c" "byteOf c \<le> 0xF4"
    | "\<not> (0xC2 \<le> byteOf c \<and> byteOf c \<le> 0xDF)" "\<not> (0xE0 \<le> byteOf c \<and> byteOf c \<le> 0xEF)" "\<not> (0xF0 \<le> byteOf c \<and> byteOf c \<le> 0xF4)"
    by linarith
  then show ?thesis
  proof cases
    case 1
    then show ?thesis by (cases cs) (simp_all add: decodeRune_2 isTail_def)
  next
    case 2
    define P where "P = isCont (if byteOf c = 0xE0 then 0xA0 else 0x80) (if byteOf c = 0xED then 0x9F else 0xBF)"
    have "P (byteOf b) \<Longrightarrow> isTail b" for b by (auto simp: P_def isTail_def isCont_def split: if_splits)
    then show ?thesis unfolding decodeRune_3 [OF 2, folded P_def] by (auto simp: isTail_def split: list.splits)
  next
    case 3
    define P where "P = isCont (if byteOf c = 0xF0 then 0x90 else 0x80) (if byteOf c = 0xF4 then 0x8F else 0xBF)"
    have "P (byteOf b) \<Longrightarrow> isTail b" for b by (auto simp: P_def isTail_def isCont_def split: if_splits)
    then show ?thesis unfolding decodeRune_4 [OF 3, folded P_def] by (auto simp: isTail_def split: list.splits)
  next
    case 4
    then show ?thesis using assms by (auto simp: decodeRune_def)
  qed
qed

lemma isTail_plain: "isTail x \<Longrightarrow> x \<noteq> CHR 0x5C \<and> x \<noteq> CHR 0x22 \<and> \<not> isHtml x \<and> \<not> separatorAt x cs"
  by (auto simp: isTail_def isCont_def isHtml_def separatorAt_def)

lemma compactBody_tail: "takeWhile isTail (compactBody cs) = takeWhile isTail cs"
proof (induction cs)
  case (Cons x cs)
  show ?case
  proof (cases "isTail x")
    case True
    with Cons isTail_plain [OF True, of cs] show ?thesis by (simp add: compactBody_plain del: compactLoop.simps(2))
  next
    case False
    have "\<not> isTail (CHR 0x5C)" by (simp add: isTail_def isCont_def)
    with False show ?thesis by (simp add: hexEscape_def lineSeparator_def)
  qed
qed simp

lemma decodeRune_compact: "\<not> byteOf c < 0x80 \<Longrightarrow> decodeRune (c # compactBody cs) = decodeRune (c # cs)"
  using decodeRune_tail [of c "compactBody cs"] decodeRune_tail [of c cs] compactBody_tail [of cs] by simp

text \<open>The escape after a surrogate.\<close>

definition nextEscape :: "string \<Rightarrow> nat option" where
  "nextEscape s = (if take 2 s = [CHR 0x5C, CHR ''u''] then getu4 (drop 2 s) else None)"

lemma unquoteBody_unicode:
  assumes "length h = 4" "getu4 h = Some r1"
  shows "unquoteBody (CHR 0x5C # CHR ''u'' # h @ s) =
     (if 0xD800 \<le> r1 \<and> r1 < 0xE000 then
        (case decodeSurrogates r1 (nextEscape s) of
           Some r \<Rightarrow> encodeRune r @ unquoteBody (drop 6 s)
         | None \<Rightarrow> encodeRune runeError @ unquoteBody s)
      else encodeRune r1 @ unquoteBody s)"
proof -
  obtain a b c d where h: "h = [a, b, c, d]" using assms(1) by (auto simp: numeral_eq_Suc length_Suc_conv)
  have "getu4 (a # b # c # d # s) = Some r1" using assms(2) by (simp add: h split: option.splits)
  then show ?thesis by (simp add: h nextEscape_def del: getu4.simps)
qed

lemma getu4_append: "length h = 4 \<Longrightarrow> getu4 (h @ s) = getu4 h"
  by (auto simp: numeral_eq_Suc length_Suc_conv)

lemma nextEscape_compact:
  assumes "accepted s"
  shows "decodeSurrogates r (nextEscape (compactBody s)) = decodeSurrogates r (nextEscape s)"
proof -
  have low: "decodeSurrogates r (Some y) = None" if "y < 0xDC00" for y using that by (simp add: decodeSurrogates_def)
  have none: "decodeSurrogates r None = None" by (simp add: decodeSurrogates_def)
  from assms show ?thesis
  proof (cases rule: accepted_cases)
    case (escape e es)
    then show ?thesis by (simp add: compactBody_escape nextEscape_def del: compactLoop.simps(2))
  next
    case (unicode h es)
    then show ?thesis using compactBody_unicode [OF unicode(2,3)] by (simp add: nextEscape_def getu4_append del: compactLoop.simps(2))
  next
    case (plain c cs)
    have s: "nextEscape s = None" using plain by (simp add: nextEscape_def)
    consider (html) "isHtml c" | (sep) "\<not> isHtml c" "separatorAt c cs" | (other) "\<not> isHtml c" "\<not> separatorAt c cs" by blast
    then show ?thesis
    proof cases
      case html
      have "hexDigit 0 = CHR ''0''" by code_simp
      then have "hexValue (CHR ''0'') = Some 0" using hexValue_hexDigit [of 0] by simp
      moreover have "byteOf c div 16 < 16" "byteOf c mod 16 < 16" "byteOf c div 16 * 16 + byteOf c mod 16 < 0xDC00"
        using html by (auto simp: isHtml_def)
      ultimately have "\<exists>y < 0xDC00. nextEscape (compactBody s) = Some y" using html
        by (simp add: plain(1) compactBody_plain [OF plain(2,3)] hexEscape_def nextEscape_def hexValue_hexDigit del: compactLoop.simps(2))
      then show ?thesis using s low none by auto
    next
      case sep
      have "hexDigit 2 = CHR ''2''" "hexDigit 0 = CHR ''0''" by code_simp+
      then have "hexValue (CHR ''2'') = Some 2" "hexValue (CHR ''0'') = Some 0" using hexValue_hexDigit [of 2] hexValue_hexDigit [of 0] by simp_all
      moreover have "byteOf (hd (drop 1 cs)) mod 16 < 16" by simp
      ultimately have "\<exists>y < 0xDC00. nextEscape (compactBody s) = Some y" using sep
        by (simp add: plain(1) compactBody_plain [OF plain(2,3)] lineSeparator_def nextEscape_def hexValue_hexDigit del: compactLoop.simps(2))
      then show ?thesis using s low none by auto
    next
      case other
      then have "nextEscape (compactBody s) = None"
        using plain by (simp add: compactBody_plain [OF plain(2,3)] nextEscape_def del: compactLoop.simps(2))
      then show ?thesis using s by simp
    qed
  qed simp
qed

lemma compactBody_tails: "\<forall>x \<in> set v. isTail x \<Longrightarrow> compactBody (v @ t) = v @ compactBody t"
proof (induction v)
  case (Cons x v)
  then show ?case using isTail_plain [of x "v @ t"] by (simp add: compactBody_plain del: compactLoop.simps(2))
qed simp

lemma accepted_solid:
  assumes "accepted (u @ t)" "solid u r"
  shows "accepted t"
  using assms(1) piece_solid [OF assms(2)] by (auto simp: accepted_def piece_def split: option.splits)

lemma compactBody_solid:
  assumes "solid u r" "u @ t = c # cs" "\<not> separatorAt c cs"
  shows "compactBody (u @ t) = u @ compactBody t"
proof -
  from assms(1,2) obtain v where u: "u = c # v" by (cases u) (auto simp: solid_def)
  with assms(1) have v: "\<forall>x \<in> set v. isTail x" and c: "c \<noteq> CHR 0x5C" "c \<noteq> CHR 0x22" "\<not> isHtml c"
    by (auto simp: solid_def isHtml_def)
  from assms(2) u have "cs = v @ t" by simp
  with c show ?thesis using assms(3) compactBody_tails [OF v] by (simp add: u compactBody_plain [OF c(1,2)] del: compactLoop.simps(2))
qed

lemma compactBody_unquote: "accepted b \<Longrightarrow> unquoteBody (compactBody b) = unquoteBody b"
proof (induction "length b" arbitrary: b rule: less_induct)
  case less
  from less.prems show ?case
  proof (cases rule: accepted_cases)
    case (escape e es)
    then show ?thesis using less.hyps [of es] by (simp add: compactBody_escape del: compactLoop.simps(2))
  next
    case (unicode h es)
    then obtain r1 where r1: "getu4 h = Some r1" by auto
    have i: "unquoteBody (compactBody es) = unquoteBody es" using less.hyps [of es] unicode by simp
    have "unquoteBody (drop 6 (compactBody es)) = unquoteBody (drop 6 es)" if "nextEscape es \<noteq> None"
      using unicode(4)
    proof (cases rule: accepted_cases)
      case u: (unicode h' es')
      then show ?thesis using less.hyps [of es'] compactBody_unicode [OF u(2,3)] unicode(1) by (simp del: compactLoop.simps(2))
    qed (use that in \<open>auto simp: nextEscape_def\<close>)
    then have "(case decodeSurrogates r1 (nextEscape es) of
          Some r \<Rightarrow> encodeRune r @ unquoteBody (drop 6 (compactBody es)) | None \<Rightarrow> encodeRune runeError @ unquoteBody es)
       = (case decodeSurrogates r1 (nextEscape es) of
          Some r \<Rightarrow> encodeRune r @ unquoteBody (drop 6 es) | None \<Rightarrow> encodeRune runeError @ unquoteBody es)"
      by (cases "nextEscape es") (auto simp: decodeSurrogates_def split: option.split)
    then show ?thesis
      unfolding unicode(1) compactBody_unicode [OF unicode(2,3)] unquoteBody_unicode [OF unicode(2) r1] nextEscape_compact [OF unicode(4)] i
      by simp
  next
    case (plain c cs)
    have i: "unquoteBody (compactBody cs) = unquoteBody cs" using less.hyps [of cs] plain by simp
    show ?thesis
    proof (cases "byteOf c < 0x80")
      case True
      then have "compactBody b = (if isHtml c then hexEscape c else [c]) @ compactBody cs"
        by (simp add: plain(1) compactBody_plain [OF plain(2,3)] separatorAt_def del: compactLoop.simps(2)) auto
      moreover have "piece (if isHtml c then hexEscape c else [c]) [c]" using html_piece plain_piece [OF True plain(2-4)] by simp
      ultimately show ?thesis
        using i pieceD(1) [of _ "[c]"] pieceD(1) [OF plain_piece [OF True plain(2-4)], of cs] by (simp add: plain(1) del: unquoteBody.simps)
    next
      case False
      then have h: "\<not> isHtml c" by (auto simp: isHtml_def)
      show ?thesis
      proof (cases "separatorAt c cs")
        case True
        then obtain x t where s: "c = CHR 0xE2" "cs = CHR 0x80 # x # t" "x = CHR 0xA8 \<or> x = CHR 0xA9" "solid [c, CHR 0x80, x] (0x1F80 + byteOf x)"
          by (rule separatorAtE)
        have "accepted t" by (rule accepted_solid [OF _ s(4)]) (use less.prems in \<open>simp add: plain(1) s(2)\<close>)
        then have i: "unquoteBody (compactBody t) = unquoteBody t" using less.hyps [of t] by (simp add: plain(1) s(2))
        have "compactBody b = lineSeparator (byteOf x) @ compactBody t"
          using True h by (simp add: plain(1) s(2) compactBody_plain [OF plain(2,3)] del: compactLoop.simps(2))
        moreover have "encodeRune (0x1F80 + byteOf x) = [c, CHR 0x80, x]" using s(4) by (simp add: solid_def)
        ultimately show ?thesis
          using pieceD(1) [OF separator_piece [OF s(3)], of "compactBody t"] i appendString_solid(3) [OF s(4), of t] by (simp add: plain(1) s(2))
      next
        case sep: False
        from decodeRune_cases [OF False, of cs] show ?thesis
        proof (elim disjE exE conjE)
          assume d: "decodeRune (c # cs) = (runeError, 1)"
          with decodeRune_compact [OF False, of cs] show ?thesis
            using h sep plain(2) i by (simp add: plain(1) compactBody_plain [OF plain(2,3)] del: compactLoop.simps(2))
        next
          fix u t r assume u: "c # cs = u @ t" "solid u r"
          have "accepted t" by (rule accepted_solid [OF _ u(2)]) (use less.prems in \<open>simp add: plain(1) u(1)\<close>)
          moreover have "length t < length b" using u by (auto simp: plain(1) solid_def)
          ultimately have "unquoteBody (compactBody t) = unquoteBody t" using less.hyps by blast
          then show ?thesis
            using compactBody_solid [OF u(2) u(1) [symmetric] sep] appendString_solid(3) [OF u(2)] by (simp add: plain(1) u(1))
        qed
      qed
    qed
  qed simp
qed

subsection \<open>Tokens\<close>

abbreviation compacted :: "string \<Rightarrow> string" where
  "compacted \<equiv> compactLoop Between"

definition isToken :: "char \<Rightarrow> bool" where
  "isToken c \<longleftrightarrow> \<not> isJsonSpace c \<and> c \<noteq> CHR 0x22 \<and> \<not> isHtml c \<and> c \<noteq> CHR 0xE2"

lemma compacted_token: "isToken c \<Longrightarrow> compacted (c # cs) = c # compacted cs"
  by (simp add: isToken_def placeAfter_def separatorAt_def)

lemma compacted_tokens: "\<forall>c \<in> set p. isToken c \<Longrightarrow> compacted (p @ t) = p @ compacted t"
  by (induction p) (simp_all add: compacted_token del: compactLoop.simps(2))

lemma compacted_spaces: "\<forall>c \<in> set ws. isJsonSpace c \<Longrightarrow> compacted (ws @ t) = compacted t"
  by (induction ws) simp_all

lemma compacted_string:
  assumes "accepted b"
  shows "compacted (CHR 0x22 # b @ CHR 0x22 # t) = CHR 0x22 # compactBody b @ CHR 0x22 # compacted t"
proof -
  have "compacted (CHR 0x22 # s) = CHR 0x22 # compactBody s" for s by (simp add: isJsonSpace_def placeAfter_def)
  then show ?thesis using compactBody_end [OF assms, of t] by metis
qed

text \<open>What may follow a value in compacted text.\<close>

definition delim :: "string \<Rightarrow> bool" where
  "delim t \<longleftrightarrow> t = [] \<or> hd t = CHR '','' \<or> hd t = CHR '']'' \<or> hd t = CHR 0x7D"

lemma delim_simps [simp]: "delim []" "delim (CHR '','' # t)" "delim (CHR '']'' # t)" "delim (CHR 0x7D # t)"
  by (simp_all add: delim_def)

lemma delim_not_number:
  assumes "delim t"
  shows "takeWhile isJsonDigit (s @ t) = takeWhile isJsonDigit s" "scanFraction t = Some ([], t)" "scanExponent t = Some ([], t)"
proof -
  have d: "\<not> isJsonDigit (hd t)" if "t \<noteq> []" using assms that by (auto simp: delim_def isJsonDigit_def)
  then show "takeWhile isJsonDigit (s @ t) = takeWhile isJsonDigit s"
    by (induction s) (cases t; simp)+
  show "scanFraction t = Some ([], t)" "scanExponent t = Some ([], t)"
    using assms by (cases t; auto simp: delim_def scanFraction_def scanExponent_def)+
qed

lemma scanDigits_append: "scanDigits s = Some (ds, r) \<Longrightarrow> delim t \<Longrightarrow> scanDigits (s @ t) = Some (ds, r @ t)"
  using delim_not_number(1) [of t s] takeWhile_eq_take [of isJsonDigit s]
  by (auto simp: scanDigits_def Let_def length_takeWhile_le split: if_splits)

lemma scanFraction_append: "scanFraction s = Some (f, r) \<Longrightarrow> delim t \<Longrightarrow> scanFraction (s @ t) = Some (f, r @ t)"
proof (cases s)
  case (Cons c cs)
  then show "scanFraction s = Some (f, r) \<Longrightarrow> delim t \<Longrightarrow> ?thesis"
    using scanDigits_append [of cs _ r t] by (auto simp: scanFraction_def split: if_splits)
qed (use delim_not_number(2) in \<open>auto simp: scanFraction_def [of "[]"]\<close>)

lemma scanExponent_append: "scanExponent s = Some (e, r) \<Longrightarrow> delim t \<Longrightarrow> scanExponent (s @ t) = Some (e, r @ t)"
proof (cases s)
  case (Cons c cs)
  assume s: "scanExponent s = Some (e, r)" "delim t"
  show ?thesis
  proof (cases "c = CHR ''e'' \<or> c = CHR ''E''")
    case True
    then obtain g gs where "cs = g # gs" using s Cons by (cases cs) (auto simp: scanExponent_def)
    with True s Cons scanDigits_append [of gs _ r t] scanDigits_append [of cs _ r t] show ?thesis
      by (auto simp: scanExponent_def split: if_splits)
  next
    case False
    with s Cons show ?thesis by (auto simp: scanExponent_def)
  qed
qed (use delim_not_number(3) in \<open>auto simp: scanExponent_def [of "[]"]\<close>)

lemma scanInteger_append: "scanInteger s = Some (i, r) \<Longrightarrow> delim t \<Longrightarrow> scanInteger (s @ t) = Some (i, r @ t)"
  using scanDigits_append [of s i r t] by (cases s) (auto simp: scanInteger_def split: if_splits)

lemma scanUnsigned_append:
  assumes "scanUnsigned s = Some (n, r)" "delim t"
  shows "scanUnsigned (s @ t) = Some (n, r @ t)"
proof -
  from assms(1) obtain i r1 f r2 e where "scanInteger s = Some (i, r1)" "scanFraction r1 = Some (f, r2)"
    "scanExponent r2 = Some (e, r)" "n = i @ f @ e"
    by (auto simp: scanUnsigned_def split: option.splits)
  with assms(2) show ?thesis
    using scanInteger_append scanFraction_append scanExponent_append by (simp add: scanUnsigned_def)
qed

lemma scanNumber_append: "scanNumber s = Some (n, r) \<Longrightarrow> delim t \<Longrightarrow> scanNumber (s @ t) = Some (n, r @ t)"
  using scanUnsigned_append [of s _ r t] scanUnsigned_append [of "tl s" _ r t]
  by (cases s) (auto simp: scanNumber_def split: if_splits)

text \<open>The bytes of a number.\<close>

definition isNumberByte :: "char \<Rightarrow> bool" where
  "isNumberByte c \<longleftrightarrow> isJsonDigit c \<or> c \<in> {CHR ''-'', CHR ''+'', CHR ''.'', CHR ''e'', CHR ''E''}"

lemma isNumberByte_token: "isNumberByte c \<Longrightarrow> isToken c"
  by (auto simp: isNumberByte_def isToken_def isJsonDigit_def isJsonSpace_def isHtml_def)

lemma scanDigits_bytes: "scanDigits s = Some (ds, r) \<Longrightarrow> \<forall>c \<in> set ds. isNumberByte c"
  by (auto simp: scanDigits_def Let_def isNumberByte_def dest: set_takeWhileD split: if_splits)

lemma scanFraction_bytes: "scanFraction s = Some (f, r) \<Longrightarrow> \<forall>c \<in> set f. isNumberByte c"
  by (cases s) (auto simp: scanFraction_def isNumberByte_def dest!: scanDigits_bytes split: if_splits)

lemma scanExponent_bytes: "scanExponent s = Some (e, r) \<Longrightarrow> \<forall>c \<in> set e. isNumberByte c"
  by (cases s; cases "tl s") (auto simp: scanExponent_def isNumberByte_def dest!: scanDigits_bytes split: if_splits)

lemma scanInteger_bytes: "scanInteger s = Some (i, r) \<Longrightarrow> \<forall>c \<in> set i. isNumberByte c"
  by (cases s) (auto simp: scanInteger_def isNumberByte_def isJsonDigit_def dest!: scanDigits_bytes split: if_splits)

lemma scanNumber_bytes: "scanNumber s = Some (n, r) \<Longrightarrow> \<forall>c \<in> set n. isNumberByte c"
proof -
  have "\<forall>c \<in> set n. isNumberByte c" if "scanUnsigned s = Some (n, r)" for s n
    using that scanInteger_bytes scanFraction_bytes scanExponent_bytes
    by (fastforce simp: scanUnsigned_def split: option.splits)
  then show "scanNumber s = Some (n, r) \<Longrightarrow> \<forall>c \<in> set n. isNumberByte c"
    by (cases s) (fastforce simp: scanNumber_def isNumberByte_def [of "CHR ''-''"] split: if_splits)+
qed

end
