(* ===== verification/CompactValue.thy ===== *)
theory CompactValue
  imports JsonCompact
begin

text \<open>
  Compaction keeps the value: scanning the compacted text of a value gives the same value, with the texts its members carry
  compacted.
\<close>

declare compactLoop.simps(2) [simp del]

primrec compactValue :: "json \<Rightarrow> json" where
  "compactValue JNull = JNull"
| "compactValue (JBool b) = JBool b"
| "compactValue (JNumber n) = JNumber n"
| "compactValue (JString s) = JString s"
| "compactValue (JArray xs) = JArray (map compactValue xs)"
| "compactValue (JObject ms) = JObject (map (map_prod (\<lambda>k. k) (map_prod compacted compactValue)) ms)"

abbreviation compactMember :: "string \<times> string \<times> json \<Rightarrow> string \<times> string \<times> json" where
  "compactMember \<equiv> map_prod (\<lambda>k. k) (map_prod compacted compactValue)"

text \<open>A part of a text that is compacted by itself, whatever follows.\<close>

definition settles :: "string \<Rightarrow> bool" where
  "settles p \<longleftrightarrow> p \<noteq> [] \<and> \<not> isJsonSpace (hd p) \<and> compacted p \<noteq> [] \<and> hd (compacted p) = hd p
     \<and> (\<forall>t. compacted (p @ t) = compacted p @ compacted t)"

lemma settlesD:
  assumes "settles p"
  shows "p \<noteq> []" "compacted (p @ t) = compacted p @ compacted t"
    "skipSpace (compacted p @ t) = compacted p @ t" "compacted p \<noteq> []" "hd (compacted p) = hd p" "skipSpace (p @ t) = p @ t"
proof -
  show "p \<noteq> []" "compacted (p @ t) = compacted p @ compacted t" "compacted p \<noteq> []" "hd (compacted p) = hd p"
    using assms unfolding settles_def by blast+
  show "skipSpace (compacted p @ t) = compacted p @ t"
    using assms unfolding settles_def skipSpace_def by (cases "compacted p") auto
  show "skipSpace (p @ t) = p @ t" using assms unfolding settles_def skipSpace_def by (cases p) auto
qed

lemma settles_seq:
  assumes "settles p" "\<And>t. compacted (q @ t) = q' @ compacted t"
  shows "settles (p @ q)" "compacted (p @ q) = compacted p @ q'"
proof -
  have "compacted q = q'" using assms(2) [of "[]"] by simp
  then show c: "compacted (p @ q) = compacted p @ q'" using settlesD(2) [OF assms(1), of q] by simp
  have "compacted ((p @ q) @ t) = compacted (p @ q) @ compacted t" for t
    using settlesD(2) [OF assms(1), of "q @ t"] assms(2) [of t] c by simp
  with assms(1) c show "settles (p @ q)" unfolding settles_def by (simp add: hd_append)
qed

lemma settles_token: "isToken c \<Longrightarrow> settles [c]" "isToken c \<Longrightarrow> compacted [c] = [c]"
  using compacted_tokens [of "[c]"] compacted_token [of c "[]"] unfolding settles_def by (auto simp: isToken_def)

text \<open>From the compacted part, before a delimiter, \<open>f\<close> reads \<open>x\<close>.\<close>

definition rereads :: "(string \<Rightarrow> ('a \<times> string) option) \<Rightarrow> 'a \<Rightarrow> string \<Rightarrow> bool" where
  "rereads f x p \<longleftrightarrow> settles p \<and> (\<forall>t. delim t \<longrightarrow> f (compacted p @ t) = Some (x, t))"

lemma rereads_tokens:
  assumes "p \<noteq> []" "\<forall>c \<in> set p. isToken c" "\<And>t. delim t \<Longrightarrow> f (p @ t) = Some (x, t)"
  shows "rereads f x p"
proof -
  have "compacted p = p" using compacted_tokens [OF assms(2), of "[]"] by simp
  with assms compacted_tokens [OF assms(2)] show ?thesis by (auto simp: rereads_def settles_def isToken_def)
qed

lemma scanLiteral_word: "scanLiteral word v s = Some (x, r) \<Longrightarrow> s = word @ r \<and> x = v"
  by (auto simp: scanLiteral_def split: if_splits) (metis append_take_drop_id)

lemma scanScalar_rereads:
  assumes "scanScalar s = Some (v, r)" "hd s \<noteq> CHR ''[''" "hd s \<noteq> CHR 0x7B"
  shows "\<exists>p. s = p @ r \<and> rereads scanScalar (compactValue v) p \<and> hd p \<noteq> CHR ''['' \<and> hd p \<noteq> CHR 0x7B"
proof -
  obtain c cs where s: "s = c # cs" using assms(1) by (cases s) (auto simp: scanScalar_def)
  have word: ?thesis if "scanLiteral word x s = Some (v, r)" "word \<in> {''true'', ''false'', ''null''}" "compactValue x = x"
      "\<And>t. scanScalar (word @ t) = Some (x, t)" for word x
  proof -
    have w: "s = word @ r" "v = x" using scanLiteral_word [OF that(1)] by simp_all
    have "rereads scanScalar (compactValue x) word"
      by (rule rereads_tokens) (use that in \<open>auto simp: isToken_def isJsonSpace_def isHtml_def\<close>)
    with w that(2) show ?thesis by auto
  qed
  consider (str) "c = CHR 0x22" | (true) "c = CHR ''t''" | (false) "c = CHR ''f''" | (null) "c = CHR ''n''"
    | (num) "c \<noteq> CHR 0x22" "c \<noteq> CHR ''t''" "c \<noteq> CHR ''f''" "c \<noteq> CHR ''n''" by blast
  then show ?thesis
  proof cases
    case str
    with assms(1) s obtain b where b: "scanString cs = Some (b, r)" "v = JString (unquoteBody b)" by (auto simp: scanScalar_def)
    note a = scanString_accepted [OF b(1)]
    let ?p = "CHR 0x22 # b @ [CHR 0x22]"
    have c: "compacted ?p = CHR 0x22 # compactBody b @ [CHR 0x22]" "compacted (?p @ t) = CHR 0x22 # compactBody b @ CHR 0x22 # compacted t" for t
      using compacted_string [OF a(1), of "[]"] compacted_string [OF a(1), of t] by simp_all
    have "rereads scanScalar (compactValue v) ?p"
      using compactBody_scan [OF a(1)] compactBody_unquote [OF a(1)]
      unfolding rereads_def settles_def c by (auto simp: scanScalar_def isJsonSpace_def b(2))
    then show ?thesis using a(2) str by (intro exI [of _ ?p]) (simp add: s)
  next
    case true
    with assms(1) s have "scanLiteral ''true'' (JBool True) s = Some (v, r)" by (simp add: scanScalar_def)
    from word [OF this] show ?thesis by (simp add: scanScalar_def scanLiteral_def)
  next
    case false
    with assms(1) s have "scanLiteral ''false'' (JBool False) s = Some (v, r)" by (simp add: scanScalar_def)
    from word [OF this] show ?thesis by (simp add: scanScalar_def scanLiteral_def)
  next
    case null
    with assms(1) s have "scanLiteral ''null'' JNull s = Some (v, r)" by (simp add: scanScalar_def)
    from word [OF this] show ?thesis by (simp add: scanScalar_def scanLiteral_def)
  next
    case num
    then have "scanScalar s = map_option (map_prod JNumber (\<lambda>r. r)) (scanNumber s)" by (simp add: s scanScalar_def)
    with assms(1) obtain n where n: "scanNumber s = Some (n, r)" "v = JNumber n" by auto
    note l = scanNumber_local [OF n(1)]
    then have "local_at scanNumber n n r" by blast
    then have "scanNumber n = Some (n, [])" by (rule local_atD(2))
    note a = scanNumber_append [OF this]
    have hd: "hd n = c" using l s by (cases n) auto
    have "rereads scanScalar (compactValue v) n"
    proof (rule rereads_tokens)
      show "n \<noteq> []" using l by simp
      show "\<forall>c \<in> set n. isToken c" using scanNumber_bytes [OF n(1)] isNumberByte_token by blast
      fix t assume "delim t"
      with a hd num l show "scanScalar (n @ t) = Some (compactValue v, t)"
        by (cases n) (auto simp: scanScalar_def n(2))
    qed
    with l hd assms(2,3) show ?thesis by (auto simp: s)
  qed
qed

lemma skipSpace_spaces:
  obtains ws where "s = ws @ skipSpace s" "\<And>t. compacted (ws @ t) = compacted t"
proof
  show "s = takeWhile isJsonSpace s @ skipSpace s" by (simp add: skipSpace_def)
  show "compacted (takeWhile isJsonSpace s @ t) = compacted t" for t
    by (rule compacted_spaces) (auto dest: set_takeWhileD)
qed

lemma structural_tokens: "isToken (CHR ''['')" "isToken (CHR '']'')" "isToken (CHR 0x7B)" "isToken (CHR 0x7D)" "isToken (CHR '','')" "isToken (CHR '':'')"
  by (simp_all add: isToken_def isJsonSpace_def isHtml_def)

lemma structural_skip:
  "skipSpace (CHR '','' # t) = CHR '','' # t" "skipSpace (CHR '':'' # t) = CHR '':'' # t" "skipSpace (CHR 0x7D # t) = CHR 0x7D # t"
  "skipSpace (CHR '']'' # t) = CHR '']'' # t"
  by (simp_all add: skipSpace_def isJsonSpace_def)

lemma structural_compacted [simp]:
  "compacted (CHR ''['' # t) = CHR ''['' # compacted t" "compacted (CHR '']'' # t) = CHR '']'' # compacted t"
  "compacted (CHR 0x7B # t) = CHR 0x7B # compacted t" "compacted (CHR 0x7D # t) = CHR 0x7D # compacted t"
  "compacted (CHR '','' # t) = CHR '','' # compacted t" "compacted (CHR '':'' # t) = CHR '':'' # compacted t"
  by (rule compacted_token, rule structural_tokens)+

text \<open>An object or array, opened by \<open>c\<close> and closed by \<open>e\<close>.\<close>

lemma bracket_rereads:
  assumes c: "isToken c" "isToken e" and sk: "skipSpace cs = x # xs"
    and empty: "x = e \<Longrightarrow> r = xs \<and> v' = y0" "\<And>t. f (c # e # t) = Some (y0, t)"
    and full: "x \<noteq> e \<Longrightarrow> \<exists>p. skipSpace cs = p @ r \<and> rereads g ys p \<and> v' = h ys"
      "\<And>u. skipSpace u = u \<Longrightarrow> u \<noteq> [] \<Longrightarrow> hd u \<noteq> e \<Longrightarrow> f (c # u) = map_option (map_prod h (\<lambda>r. r)) (g u)"
  shows "\<exists>p. c # cs = p @ r \<and> rereads f v' p"
proof -
  obtain ws where ws: "cs = ws @ skipSpace cs" "\<And>t. compacted (ws @ t) = compacted t" using skipSpace_spaces [of cs] by metis
  show ?thesis
  proof (cases "x = e")
    case True
    have "compacted ((ws @ [e]) @ t) = [e] @ compacted t" for t using ws(2) compacted_token [OF c(2)] by simp
    note q = settles_seq [OF settles_token(1) [OF c(1)] this, unfolded settles_token(2) [OF c(1)]]
    then have "rereads f v' ([c] @ ws @ [e])" using empty True unfolding rereads_def by simp
    with empty(1) True ws(1) sk show ?thesis by (intro exI [of _ "[c] @ ws @ [e]"]) simp
  next
    case False
    then obtain p where p: "skipSpace cs = p @ r" "rereads g ys p" "v' = h ys" using full(1) by blast
    then have sp: "settles p" by (simp add: rereads_def)
    have "compacted ((ws @ p) @ t) = compacted p @ compacted t" for t using ws(2) settlesD(2) [OF sp] by simp
    note q = settles_seq [OF settles_token(1) [OF c(1)] this, unfolded settles_token(2) [OF c(1)]]
    have "hd (compacted p @ t) \<noteq> e" for t using False sk p(1) settlesD(1,4,5) [OF sp] by (cases p) auto
    then have "f (c # compacted p @ t) = Some (v', t)" if "delim t" for t
      using full(2) [of "compacted p @ t"] settlesD(3,4) [OF sp] p(2,3) that by (simp add: rereads_def)
    with q have "rereads f v' ([c] @ ws @ p)" unfolding rereads_def by simp
    with ws(1) p(1) show ?thesis by (intro exI [of _ "[c] @ ws @ p"]) simp
  qed
qed

lemma scanElements_rereads:
  assumes e: "scanElements d s = Some (xs, r)"
    and val: "\<And>v r. scanValue d s = Some (v, r) \<Longrightarrow> \<exists>p. s = p @ r \<and> rereads (scanValue d) (compactValue v) p"
    and rec: "\<And>cs vs r. length cs < length s \<Longrightarrow> scanElements d (skipSpace cs) = Some (vs, r) \<Longrightarrow>
      \<exists>p. skipSpace cs = p @ r \<and> rereads (scanElements d) (map compactValue vs) p"
  shows "\<exists>p. s = p @ r \<and> rereads (scanElements d) (map compactValue xs) p"
proof -
  from e obtain v r0 c cs where v: "scanValue d s = Some (v, r0)" and c: "skipSpace r0 = c # cs"
    and fin: "c = CHR '']'' \<and> xs = [v] \<and> r = cs \<or> c = CHR '','' \<and> length cs < length s
      \<and> (\<exists>vs. scanElements d (skipSpace cs) = Some (vs, r) \<and> xs = v # vs)"
    by (subst (asm) scanElements.simps) (auto split: option.splits list.splits if_splits)
  obtain p where p: "s = p @ r0" "settles p" "\<And>t. delim t \<Longrightarrow> scanValue d (compacted p @ t) = Some (compactValue v, t)"
    using val [OF v] unfolding rereads_def by blast
  obtain ws where ws: "r0 = ws @ c # cs" "\<And>t. compacted (ws @ t) = compacted t" using skipSpace_spaces [of r0] c by metis
  from fin show ?thesis
  proof (elim disjE conjE exE)
    assume c: "c = CHR '']''" and x: "xs = [v]" "r = cs"
    have "compacted ((ws @ [c]) @ t) = [c] @ compacted t" for t using ws(2) c by simp
    note q = settles_seq [OF p(2) this]
    have "scanElements d (compacted p @ c # t) = Some ([compactValue v], t)" for t
      using p(3) [of "c # t"] c by (subst scanElements.simps) (simp add: skipSpace_def isJsonSpace_def)
    with q x have "rereads (scanElements d) (map compactValue xs) (p @ ws @ [c])" by (simp add: rereads_def)
    with p(1) ws(1) x show ?thesis by (intro exI [of _ "p @ ws @ [c]"]) simp
  next
    fix vs assume c: "c = CHR '',''" and l: "length cs < length s" and vs: "scanElements d (skipSpace cs) = Some (vs, r)" and x: "xs = v # vs"
    obtain p2 where p2: "skipSpace cs = p2 @ r" "settles p2" "\<And>t. delim t \<Longrightarrow> scanElements d (compacted p2 @ t) = Some (map compactValue vs, t)"
      using rec [OF l vs] unfolding rereads_def by blast
    obtain ws2 where ws2: "cs = ws2 @ skipSpace cs" "\<And>t. compacted (ws2 @ t) = compacted t" using skipSpace_spaces [of cs] by metis
    have "compacted ((ws @ c # ws2 @ p2) @ t) = (c # compacted p2) @ compacted t" for t using ws(2) c ws2(2) settlesD(2) [OF p2(2)] by simp
    note q = settles_seq [OF p(2) this]
    have "scanElements d (compacted p @ c # compacted p2 @ t) = Some (map compactValue xs, t)" if "delim t" for t
      using p(3) [of "c # compacted p2 @ t"] p2(3) [OF that] settlesD(3) [OF p2(2), of t] settlesD(4) [OF p(2)] x
      unfolding c by (subst scanElements.simps) (simp add: structural_skip)
    with q have "rereads (scanElements d) (map compactValue xs) (p @ ws @ c # ws2 @ p2)" by (simp add: rereads_def)
    with p(1) ws(1) ws2(1) p2(1) show ?thesis by (intro exI [of _ "p @ ws @ c # ws2 @ p2"]) simp
  qed
qed

lemma member_settles:
  assumes "accepted key"
  shows "settles (CHR 0x22 # key @ [CHR 0x22])" "compacted (CHR 0x22 # key @ [CHR 0x22]) = CHR 0x22 # compactBody key @ [CHR 0x22]"
proof -
  show c: "compacted (CHR 0x22 # key @ [CHR 0x22]) = CHR 0x22 # compactBody key @ [CHR 0x22]"
    using compacted_string [OF assms, of "[]"] by simp
  have "compacted ((CHR 0x22 # key @ [CHR 0x22]) @ t) = (CHR 0x22 # compactBody key @ [CHR 0x22]) @ compacted t" for t
    using compacted_string [OF assms, of t] by simp
  then show "settles (CHR 0x22 # key @ [CHR 0x22])" unfolding settles_def c by (simp add: isJsonSpace_def)
qed

text \<open>One member and what follows its value.\<close>

lemma scanMembers_step:
  assumes k: "scanString (k @ CHR 0x22 # CHR '':'' # pv @ e # t) = Some (k, CHR '':'' # pv @ e # t)"
    and pv: "skipSpace (pv @ e # t) = pv @ e # t" "pv \<noteq> []" "scanValue d (pv @ e # t) = Some (v, e # t)"
  shows "e = CHR 0x7D \<Longrightarrow> scanMembers d (CHR 0x22 # k @ CHR 0x22 # CHR '':'' # pv @ e # t) = Some ([(unquoteBody k, pv, v)], t)"
    "e = CHR '','' \<Longrightarrow> skipSpace t = t \<Longrightarrow> scanMembers d t = Some (ms, r) \<Longrightarrow>
      scanMembers d (CHR 0x22 # k @ CHR 0x22 # CHR '':'' # pv @ e # t) = Some ((unquoteBody k, pv, v) # ms, r)"
proof -
  from assms structural_skip show "e = CHR 0x7D \<Longrightarrow> scanMembers d (CHR 0x22 # k @ CHR 0x22 # CHR '':'' # pv @ e # t) = Some ([(unquoteBody k, pv, v)], t)"
    "e = CHR '','' \<Longrightarrow> skipSpace t = t \<Longrightarrow> scanMembers d t = Some (ms, r) \<Longrightarrow>
      scanMembers d (CHR 0x22 # k @ CHR 0x22 # CHR '':'' # pv @ e # t) = Some ((unquoteBody k, pv, v) # ms, r)"
    by (subst scanMembers.simps, simp add: Let_def del: scanString.simps)+
qed

lemma scanMembers_rereads:
  assumes m: "scanMembers d s = Some (xs, r)"
    and val: "\<And>cs v r. length cs < length s \<Longrightarrow> scanValue d (skipSpace cs) = Some (v, r) \<Longrightarrow>
      \<exists>p. skipSpace cs = p @ r \<and> rereads (scanValue d) (compactValue v) p"
    and rec: "\<And>cs ms r. length cs < length s \<Longrightarrow> scanMembers d (skipSpace cs) = Some (ms, r) \<Longrightarrow>
      \<exists>p. skipSpace cs = p @ r \<and> rereads (scanMembers d) (map compactMember ms) p"
  shows "\<exists>p. s = p @ r \<and> rereads (scanMembers d) (map compactMember xs) p"
proof -
  obtain qs key r1 cs v r2 e es where s: "s = CHR 0x22 # qs" "scanString qs = Some (key, r1)" "skipSpace r1 = CHR '':'' # cs"
    and v: "scanValue d (skipSpace cs) = Some (v, r2)" and e: "skipSpace r2 = e # es"
    and fin: "e = CHR 0x7D \<and> xs = [(unquoteBody key, take (length (skipSpace cs) - length r2) (skipSpace cs), v)] \<and> r = es
     \<or> e = CHR '','' \<and> length es < length s \<and> (\<exists>ms. scanMembers d (skipSpace es) = Some (ms, r)
        \<and> xs = (unquoteBody key, take (length (skipSpace cs) - length r2) (skipSpace cs), v) # ms)"
    by (rule scanMembers_cases [OF m])
  note a = scanString_accepted [OF s(2)]
  let ?k = "CHR 0x22 # key @ [CHR 0x22]" and ?k' = "compactBody key"
  obtain ws where ws: "r1 = ws @ CHR '':'' # cs" "\<And>t. compacted (ws @ t) = compacted t" using skipSpace_spaces [of r1] s(3) by metis
  have "length cs < length s" by (simp add: s(1) a(2) ws(1))
  from val [OF this v] obtain pv where pv: "skipSpace cs = pv @ r2" "settles pv"
    "\<And>t. delim t \<Longrightarrow> scanValue d (compacted pv @ t) = Some (compactValue v, t)" unfolding rereads_def by blast
  obtain ws1 where ws1: "cs = ws1 @ skipSpace cs" "\<And>t. compacted (ws1 @ t) = compacted t" using skipSpace_spaces [of cs] by metis
  obtain ws2 where ws2: "r2 = ws2 @ e # es" "\<And>t. compacted (ws2 @ t) = compacted t" using skipSpace_spaces [of r2] e by metis
  have raw: "take (length (skipSpace cs) - length r2) (skipSpace cs) = pv" by (simp add: pv(1))
  have front: "compacted ((ws @ CHR '':'' # ws1 @ pv @ ws2 @ q) @ t) = CHR '':'' # compacted pv @ compacted (q @ t)" for q t
    using ws(2) ws1(2) ws2(2) settlesD(2) [OF pv(2)] by simp
  note k = compactBody_scan [OF a(1)] compactBody_unquote [OF a(1)]
  from fin show ?thesis
  proof (elim disjE conjE exE)
    assume c: "e = CHR 0x7D" and x: "xs = [(unquoteBody key, take (length (skipSpace cs) - length r2) (skipSpace cs), v)]" "r = es"
    let ?q = "ws @ CHR '':'' # ws1 @ pv @ ws2 @ [e]"
    have "compacted (?q @ t) = (CHR '':'' # compacted pv @ [e]) @ compacted t" for t using front [of "[e]" t] c by simp
    note q = settles_seq [OF member_settles(1) [OF a(1)] this, unfolded member_settles(2) [OF a(1)]]
    have "scanMembers d (CHR 0x22 # ?k' @ CHR 0x22 # CHR '':'' # compacted pv @ e # t) = Some ([(unquoteBody key, compacted pv, compactValue v)], t)" for t
      using scanMembers_step(1) [OF k(1) settlesD(3,4) [OF pv(2)] pv(3) c] k(2) c by simp
    with q have "rereads (scanMembers d) (map compactMember xs) (?k @ ?q)" by (simp add: rereads_def x raw)
    moreover have "s = (?k @ ?q) @ r" using s(1) a(2) ws(1) ws1(1) pv(1) ws2(1) x(2) by simp
    ultimately show ?thesis by blast
  next
    fix ms assume c: "e = CHR '',''" and l: "length es < length s" and ms: "scanMembers d (skipSpace es) = Some (ms, r)"
      and x: "xs = (unquoteBody key, take (length (skipSpace cs) - length r2) (skipSpace cs), v) # ms"
    obtain p2 where p2: "skipSpace es = p2 @ r" "settles p2" "\<And>t. delim t \<Longrightarrow> scanMembers d (compacted p2 @ t) = Some (map compactMember ms, t)"
      using rec [OF l ms] unfolding rereads_def by blast
    obtain ws3 where ws3: "es = ws3 @ skipSpace es" "\<And>t. compacted (ws3 @ t) = compacted t" using skipSpace_spaces [of es] by metis
    let ?q = "ws @ CHR '':'' # ws1 @ pv @ ws2 @ e # ws3 @ p2"
    have "compacted (?q @ t) = (CHR '':'' # compacted pv @ e # compacted p2) @ compacted t" for t
      using front [of "e # ws3 @ p2" t] c ws3(2) settlesD(2) [OF p2(2)] by simp
    note q = settles_seq [OF member_settles(1) [OF a(1)] this, unfolded member_settles(2) [OF a(1)]]
    have "scanMembers d (CHR 0x22 # ?k' @ CHR 0x22 # CHR '':'' # compacted pv @ e # compacted p2 @ t)
        = Some ((unquoteBody key, compacted pv, compactValue v) # map compactMember ms, t)" if "delim t" for t
      using scanMembers_step(2) [OF k(1) settlesD(3,4) [OF pv(2)] pv(3) c settlesD(3) [OF p2(2)] p2(3) [OF that]] k(2) c by simp
    with q have "rereads (scanMembers d) (map compactMember xs) (?k @ ?q)" by (simp add: rereads_def x raw)
    moreover have "s = (?k @ ?q) @ r" using s(1) a(2) ws(1) ws1(1) pv(1) ws2(1) ws3(1) p2(1) by simp
    ultimately show ?thesis by blast
  qed
qed

lemma scanValue_rereads:
  assumes v: "scanValue d s = Some (v, r)"
    and els: "\<And>cs vs r. length cs < length s \<Longrightarrow> scanElements (Suc d) (skipSpace cs) = Some (vs, r) \<Longrightarrow>
      \<exists>p. skipSpace cs = p @ r \<and> rereads (scanElements (Suc d)) (map compactValue vs) p"
    and mem: "\<And>cs ms r. length cs < length s \<Longrightarrow> scanMembers (Suc d) (skipSpace cs) = Some (ms, r) \<Longrightarrow>
      \<exists>p. skipSpace cs = p @ r \<and> rereads (scanMembers (Suc d)) (map compactMember ms) p"
  shows "\<exists>p. s = p @ r \<and> rereads (scanValue d) (compactValue v) p"
proof -
  obtain c cs where s: "s = c # cs" using v by (cases s) (auto simp: scanValue_simps)
  have l: "length cs < length s" by (simp add: s)
  consider (arr) "c = CHR ''[''" | (obj) "c = CHR 0x7B" | (sc) "c \<noteq> CHR ''[''" "c \<noteq> CHR 0x7B" by blast
  then show ?thesis
  proof cases
    case arr
    then have d: "d < maxNestingDepth" using v by (auto simp: s scanValue_simps split: if_splits)
    obtain x xs where x: "skipSpace cs = x # xs" using v arr by (cases "skipSpace cs") (auto simp: s scanValue_simps split: if_splits)
    show ?thesis unfolding s arr
    proof (rule bracket_rereads [OF structural_tokens(1,2) x, where g = "scanElements (Suc d)" and h = JArray])
      assume "x \<noteq> CHR '']''"
      then obtain vs where "scanElements (Suc d) (skipSpace cs) = Some (vs, r)" "v = JArray vs"
        using v d x by (auto simp: s arr scanValue_simps)
      with els [OF l] show "\<exists>p. skipSpace cs = p @ r \<and> rereads (scanElements (Suc d)) (case compactValue v of JArray ys \<Rightarrow> ys) p
          \<and> compactValue v = JArray (case compactValue v of JArray ys \<Rightarrow> ys)" by auto
    next
      fix u :: string assume "skipSpace u = u" "u \<noteq> []" "hd u \<noteq> CHR '']''"
      then show "scanValue d (CHR ''['' # u) = map_option (map_prod JArray (\<lambda>r. r)) (scanElements (Suc d) u)"
        using d by (cases u) (auto simp: scanValue_simps)
    qed (use v d x in \<open>auto simp: s arr scanValue_simps structural_skip\<close>)
  next
    case obj
    then have d: "d < maxNestingDepth" using v by (auto simp: s scanValue_simps split: if_splits)
    obtain x xs where x: "skipSpace cs = x # xs" using v obj by (cases "skipSpace cs") (auto simp: s scanValue_simps split: if_splits)
    show ?thesis unfolding s obj
    proof (rule bracket_rereads [OF structural_tokens(3,4) x, where g = "scanMembers (Suc d)" and h = JObject])
      assume "x \<noteq> CHR 0x7D"
      then obtain ms where "scanMembers (Suc d) (skipSpace cs) = Some (ms, r)" "v = JObject ms"
        using v d x by (auto simp: s obj scanValue_simps)
      with mem [OF l] show "\<exists>p. skipSpace cs = p @ r \<and> rereads (scanMembers (Suc d)) (case compactValue v of JObject ys \<Rightarrow> ys) p
          \<and> compactValue v = JObject (case compactValue v of JObject ys \<Rightarrow> ys)" by auto
    next
      fix u :: string assume "skipSpace u = u" "u \<noteq> []" "hd u \<noteq> CHR 0x7D"
      then show "scanValue d (CHR 0x7B # u) = map_option (map_prod JObject (\<lambda>r. r)) (scanMembers (Suc d) u)"
        using d by (cases u) (auto simp: scanValue_simps)
    qed (use v d x in \<open>auto simp: s obj scanValue_simps structural_skip\<close>)
  next
    case sc
    then have "scanScalar s = Some (v, r)" using v by (simp add: s scanValue_simps)
    from scanScalar_rereads [OF this] sc obtain p where p: "s = p @ r" "rereads scanScalar (compactValue v) p" "hd p \<noteq> CHR ''[''" "hd p \<noteq> CHR 0x7B"
      by (auto simp: s)
    then have "settles p" by (simp add: rereads_def)
    from settlesD(4,5) [OF this] p(3,4) have "scanValue d (compacted p @ t) = scanScalar (compacted p @ t)" for t
      by (cases "compacted p") (auto simp: scanValue_simps)
    with p(1,2) show ?thesis by (auto simp: rereads_def)
  qed
qed

lemma scan_rereads:
  "scanValue d s = Some (v, r) \<Longrightarrow> \<exists>p. s = p @ r \<and> rereads (scanValue d) (compactValue v) p"
  "scanElements d s = Some (vs, r) \<Longrightarrow> \<exists>p. s = p @ r \<and> rereads (scanElements d) (map compactValue vs) p"
  "scanMembers d s = Some (ms, r) \<Longrightarrow> \<exists>p. s = p @ r \<and> rereads (scanMembers d) (map compactMember ms) p"
proof (induction "length s" arbitrary: d s v vs ms r rule: less_induct)
  case less
  have sk: "length (skipSpace cs) < length s" if "length cs < length s" for cs
    using length_skipSpace that by (rule le_less_trans)
  have v: "\<exists>p. s = p @ r \<and> rereads (scanValue d) (compactValue v) p" if "scanValue d s = Some (v, r)" for d v r
    by (rule scanValue_rereads [OF that]) (use less sk in blast)+
  { case 1 then show ?case by (rule v) }
  { case 2
    then show ?case by (rule scanElements_rereads) (use v less sk in blast)+ }
  { case 3
    then show ?case by (rule scanMembers_rereads) (use less sk in blast)+ }
qed

text \<open>A valid value inside \<open>d\<close> objects and arrays; the limit on nesting makes the difference to a valid value alone.\<close>

definition validAt :: "nat \<Rightarrow> string \<Rightarrow> bool" where
  "validAt d src \<longleftrightarrow> (case scanValue d (skipSpace src) of Some (_, r) \<Rightarrow> skipSpace r = [] | None \<Rightarrow> False)"

lemma validAt_valid:
  assumes "validAt d src"
  shows "jsonValid src"
proof -
  from assms obtain v r where v: "scanValue d (skipSpace src) = Some (v, r)" "skipSpace r = []"
    by (auto simp: validAt_def split: option.splits)
  obtain p where p: "skipSpace src = p @ r" "\<forall>d' \<le> d. local_at (scanValue d') v p r"
    using scan_local(1) [OF v(1)] unfolding reads_at_def by blast
  then have "local_at (scanValue 0) v p r" by blast
  from local_atD(1) [OF this] have "scanValue 0 (skipSpace src) = Some (v, r)" by (simp add: p(1))
  with v(2) show ?thesis by (simp add: jsonValid_def)
qed

text \<open>The text of a valid value, compacted: it is read as the same value, before whatever may follow a value.\<close>

lemma compacted_reads:
  assumes "validAt d src"
  obtains v where "compacted src \<noteq> []" "\<not> isJsonSpace (hd (compacted src))"
    "\<And>t. delim t \<Longrightarrow> scanValue d (compacted src @ t) = Some (compactValue v, t)"
proof -
  from assms obtain v r where v: "scanValue d (skipSpace src) = Some (v, r)" "skipSpace r = []"
    by (auto simp: validAt_def split: option.splits)
  obtain p where p: "skipSpace src = p @ r" "settles p" "\<And>t. delim t \<Longrightarrow> scanValue d (compacted p @ t) = Some (compactValue v, t)"
    using scan_rereads(1) [OF v(1)] unfolding rereads_def by blast
  obtain ws where ws: "src = ws @ p @ r" "\<And>t. compacted (ws @ t) = compacted t" using skipSpace_spaces [of src] p(1) by metis
  have "compacted r = []" using skipSpace_spaces [of r] v(2) by (metis append_Nil2 compactLoop.simps(1))
  then have "compacted src = compacted p" using ws settlesD(2) [OF p(2), of r] by simp
  with p(2,3) show thesis by (intro that [of v]) (auto simp: settles_def)
qed

lemma compacted_value:
  assumes "jsonValid src"
  obtains v where "unmarshalValue src = Some v" "unmarshalValue (compacted src) = Some (compactValue v)"
proof -
  from assms obtain v r where v: "scanValue 0 (skipSpace src) = Some (v, r)" "skipSpace r = []"
    by (auto simp: jsonValid_def split: option.splits)
  obtain p where p: "skipSpace src = p @ r" "settles p" "scanValue 0 (compacted p) = Some (compactValue v, [])"
    using scan_rereads(1) [OF v(1)] unfolding rereads_def by (metis append_Nil2 delim_simps(1))
  obtain ws where ws: "src = ws @ p @ r" "\<And>t. compacted (ws @ t) = compacted t" using skipSpace_spaces [of src] p(1) by metis
  have "compacted r = []" using skipSpace_spaces [of r] v(2) by (metis append_Nil2 compactLoop.simps(1))
  then have c: "compacted src = compacted p" using ws settlesD(2) [OF p(2), of r] by simp
  have "skipSpace (compacted p) = compacted p" using settlesD(3) [OF p(2), of "[]"] by simp
  moreover have "skipSpace [] = []" by (simp add: skipSpace_def)
  ultimately show thesis using v p(3) c by (intro that [of v]) (simp_all add: unmarshalValue_def)
qed

end
