(* ===== verification/Responses.thy ===== *)
theory Responses
  imports HttpTasks CompactValue Calendar
begin

text \<open>
  The bytes of a JSON response: what \<open>json.NewEncoder(w).Encode\<close> writes for the two response types of
  \<open>internal/httpserver/tasks.go\<close>, with their field names and \<open>omitempty\<close>. A client that decodes the bytes
  into the same types gets the response back.
\<close>

section \<open>Encoding\<close>

text \<open>The members of an object, each a name and the text of its value.\<close>

fun encodeMembers :: "(string \<times> string) list \<Rightarrow> string" where
  "encodeMembers [] = []"
| "encodeMembers [(k, v)] = encodeString k @ '':'' @ v"
| "encodeMembers ((k, v) # m # ms) = encodeString k @ '':'' @ v @ '','' @ encodeMembers (m # ms)"

definition encodeObject :: "(string \<times> string) list \<Rightarrow> string" where
  "encodeObject ms = [CHR 0x7B] @ encodeMembers ms @ [CHR 0x7D]"

text \<open>A struct: its fields in order; \<open>None\<close> is a field whose value cannot be encoded, which makes the whole encoding fail.\<close>

definition encodeStruct :: "(string \<times> string option) list \<Rightarrow> string option" where
  "encodeStruct fs =
     (if None \<in> snd ` set fs then None else Some (encodeObject (map (\<lambda>(k, v). (k, the v)) fs)))"

text \<open>A field with \<open>omitempty\<close>.\<close>

definition omitEmpty :: "string \<Rightarrow> ('a \<Rightarrow> string option) \<Rightarrow> 'a option \<Rightarrow> (string \<times> string option) list" where
  "omitEmpty name encode x = (case x of None \<Rightarrow> [] | Some y \<Rightarrow> [(name, encode y)])"

text \<open>\<open>zone t\<close> is the offset of the local zone at the instant \<open>t\<close>, in seconds east of UTC: the times of a stored task
  are read from the database in the local zone.\<close>

definition encodeTime :: "(Time \<Rightarrow> int) \<Rightarrow> Time \<Rightarrow> string option" where
  "encodeTime zone t = map_option (\<lambda>x. CHR 0x22 # x @ [CHR 0x22]) (formatRFC3339 (zone t) t)"

definition encodeTaskResponse :: "(Time \<Rightarrow> int) \<Rightarrow> taskResponse \<Rightarrow> string option" where
  "encodeTaskResponse zone b = encodeStruct
     ([(''id'', Some (encodeString (trID b))),
       (''task_type'', Some (encodeString (trTaskType b))),
       (''payload'', appendCompact (trPayload b)),
       (''status'', Some (encodeString (trStatus b)))]
      @ omitEmpty ''idempotency_key'' (Some \<circ> encodeString) (trIdempotencyKey b)
      @ omitEmpty ''trace_id'' (Some \<circ> encodeString) (trTraceID b)
      @ [(''run_at'', encodeTime zone (trRunAt b)),
         (''timeout_seconds'', Some (FormatInt (trTimeoutSeconds b))),
         (''max_retries'', Some (FormatInt (trMaxRetries b))),
         (''retry_count'', Some (FormatInt (trRetryCount b)))]
      @ omitEmpty ''next_retry_at'' (encodeTime zone) (trNextRetryAt b)
      @ omitEmpty ''last_error'' (Some \<circ> encodeString) (trLastError b)
      @ omitEmpty ''worker_id'' (Some \<circ> encodeString) (trWorkerID b)
      @ omitEmpty ''started_at'' (encodeTime zone) (trStartedAt b)
      @ omitEmpty ''finished_at'' (encodeTime zone) (trFinishedAt b)
      @ [(''created_at'', encodeTime zone (trCreatedAt b)), (''updated_at'', encodeTime zone (trUpdatedAt b))])"

definition encodeErrorResponse :: "string \<Rightarrow> string option" where
  "encodeErrorResponse message = encodeStruct [(''error'', Some (encodeString message))]"

text \<open>The body of a response: the encoding and a line feed, or nothing when the encoding fails, since the handlers ignore the
  error of \<open>Encode\<close>.\<close>

definition responseBody :: "(Time \<Rightarrow> int) \<Rightarrow> json_response \<Rightarrow> string" where
  "responseBody zone resp =
     (case (case jrBody resp of TaskBody b \<Rightarrow> encodeTaskResponse zone b | ErrorBody m \<Rightarrow> encodeErrorResponse m) of
        Some text \<Rightarrow> text @ [CHR 0x0A]
      | None \<Rightarrow> [])"

section \<open>Values the scanner reads back\<close>

definition valueText :: "nat \<Rightarrow> string \<Rightarrow> json \<Rightarrow> bool" where
  "valueText d s v \<longleftrightarrow> s \<noteq> [] \<and> \<not> isJsonSpace (hd s) \<and> (\<forall>t. delim t \<longrightarrow> scanValue d (s @ t) = Some (v, t))"

lemma valueText_skip: "valueText d s v \<Longrightarrow> skipSpace (s @ t) = s @ t"
  by (cases s) (simp_all add: valueText_def skipSpace_def)

lemma valueText_string: "valueText d (encodeString s) (JString (toValidUTF8 s))"
  using appendString_reads [of s]
  by (auto simp: valueText_def encodeString_def isJsonSpace_def scanValue_simps scanScalar_def)

lemma safe_string:
  assumes "\<forall>c \<in> set x. htmlSafe c"
  shows "appendString x = x" "toValidUTF8 x = x"
  using assms by (induction x) (auto simp: escapeByte_def decodeRune_ascii encodeRune_ascii htmlSafe_def)

lemma natDigits_nonempty: "natDigits n \<noteq> []"
  by (subst natDigits.simps) simp

lemma natDigits_zero: "natDigits n = CHR ''0'' # cs \<Longrightarrow> n = 0 \<and> cs = []"
proof (induction n arbitrary: cs rule: natDigits.induct)
  case (1 n)
  show ?case
  proof (cases "n < 10")
    case True
    with 1(2) have "digitChar n = CHR ''0''" "cs = []" by (simp_all add: natDigits.simps [of n])
    then show ?thesis using of_char_digit [OF True] by auto
  next
    case False
    then have n: "natDigits n = natDigits (n div 10) @ [digitChar (n mod 10)]" by (subst natDigits.simps) simp
    obtain d ds where d: "natDigits (n div 10) = d # ds" using natDigits_nonempty [of "n div 10"] by (cases "natDigits (n div 10)") auto
    with 1(2) n have "natDigits (n div 10) = CHR ''0'' # ds" by simp
    from 1(1) [OF False this] have "n div 10 = 0" by simp
    with False show ?thesis by presburger
  qed
qed

lemma scanNumber_FormatInt: "scanNumber (FormatInt n) = Some (FormatInt n, [])"
proof -
  have u: "scanUnsigned (natDigits k) = Some (natDigits k, [])" for k
  proof -
    obtain c cs where c: "natDigits k = c # cs" using natDigits_nonempty [of k] by (cases "natDigits k") auto
    have "\<forall>x \<in> set (natDigits k). isJsonDigit x" using natDigits_decimal by (auto simp: isJsonDigit_def isDecimal_def)
    then have "takeWhile isJsonDigit (natDigits k) = natDigits k" by (simp add: takeWhile_eq_all_conv)
    then have "scanInteger (natDigits k) = Some (natDigits k, [])"
      using c natDigits_zero [of k cs] by (auto simp: scanInteger_def scanDigits_def Let_def)
    then show ?thesis by (simp add: scanUnsigned_def scanFraction_def scanExponent_def)
  qed
  obtain c cs where c: "natDigits (nat n) = c # cs" using natDigits_nonempty [of "nat n"] by (cases "natDigits (nat n)") auto
  have "c \<noteq> CHR ''-''" using natDigits_decimal [of c "nat n"] by (auto simp: c isDecimal_def)
  with u [of "nat n"] u [of "nat (- n)"] c show ?thesis by (auto simp: FormatInt_def scanNumber_def)
qed

lemma valueText_int: "valueText d (FormatInt n) (JNumber (FormatInt n))"
proof -
  obtain c cs where c: "FormatInt n = c # cs" using natDigits_nonempty by (cases "FormatInt n") (auto simp: FormatInt_def split: if_splits)
  have "\<forall>x \<in> set (FormatInt n). isNumberByte x" using scanNumber_bytes [OF scanNumber_FormatInt] by blast
  then have "isNumberByte c" by (simp add: c)
  then have "c \<noteq> CHR 0x22" "c \<noteq> CHR ''t''" "c \<noteq> CHR ''f''" "c \<noteq> CHR ''n''" "c \<noteq> CHR ''[''" "c \<noteq> CHR 0x7B" "\<not> isJsonSpace c"
    by (auto simp: isNumberByte_def isJsonDigit_def isJsonSpace_def)
  with scanNumber_append [OF scanNumber_FormatInt [of n]] show ?thesis
    by (simp add: valueText_def c scanValue_simps scanScalar_def)
qed

lemma valueText_payload:
  assumes "validAt d src"
  shows "\<exists>v. valueText d (compacted src) v"
  using compacted_reads [OF assms] unfolding valueText_def by metis

lemma ParseInt_FormatInt:
  assumes "minInt \<le> n" "n \<le> maxInt"
  shows "ParseInt (FormatInt n) = Some n"
proof -
  have f: "foldl (\<lambda>a c. a * 10 + int (byteOf c - 48)) (int b) ds = int (foldl (\<lambda>a c. a * 10 + (byteOf c - 48)) b ds)" for b ds
  proof (induction ds arbitrary: b)
    case (Cons c ds)
    show ?case using Cons [of "b * 10 + (byteOf c - 48)"] by simp
  qed simp
  have v: "foldl (\<lambda>a c. a * 10 + int (byteOf c - 48)) 0 (natDigits k) = int k" for k
    using f [of 0 "natDigits k"] decimalNat_digits [of k] by (simp add: decimalNat_def)
  have d: "list_all isJsonDigit (natDigits k)" for k
    using natDigits_decimal [of _ k] by (auto simp: list_all_iff isJsonDigit_def isDecimal_def)
  obtain c cs where c: "natDigits (nat n) = c # cs" using natDigits_nonempty [of "nat n"] by (cases "natDigits (nat n)") auto
  have m: "c \<noteq> CHR ''-''" using natDigits_decimal [of c "nat n"] by (auto simp: c isDecimal_def)
  show ?thesis
  proof (cases "n < 0")
    case True
    then show ?thesis using assms v [of "nat (- n)"] d natDigits_nonempty by (simp add: ParseInt_def FormatInt_def)
  next
    case False
    then show ?thesis using assms v [of "nat n"] d [of "nat n"] m by (simp add: ParseInt_def FormatInt_def c)
  qed
qed

text \<open>A time is written without a byte that needs an escape.\<close>

lemma decimal_safe: "isDecimal c \<Longrightarrow> htmlSafe c"
  by (auto simp: isDecimal_def htmlSafe_def)

lemma appendInt_safe: "0 \<le> x \<Longrightarrow> c \<in> set (appendInt w x) \<Longrightarrow> htmlSafe c"
  using appendInt_decimal decimal_safe by blast

lemma punctuation_safe: "htmlSafe (CHR ''-'')" "htmlSafe (CHR '':'')" "htmlSafe (CHR ''T'')" "htmlSafe (CHR ''Z'')" "htmlSafe (CHR ''+'')" "htmlSafe (CHR ''.'')"
  by (simp_all add: htmlSafe_def)

lemma dateTime_safe:
  assumes "civil (s div secondsPerDay) = (y, m, d)" "0 \<le> y" "c \<in> set (dateTime (CHR ''T'') s)"
  shows "htmlSafe c"
proof -
  define r where "r = s mod secondsPerDay"
  have "0 \<le> r" by (simp add: r_def secondsPerDay_def)
  then have r: "0 \<le> r div 3600" "0 \<le> r div 60 mod 60" "0 \<le> r mod 60" by (simp_all add: pos_imp_zdiv_nonneg_iff)
  have d: "0 \<le> d" using civil_correct(3) [OF assms(1)] by simp
  from assms(3) consider "c \<in> {CHR ''-'', CHR '':'', CHR ''T''}" | "c \<in> set (appendInt 4 y)" | "c \<in> set (appendInt 2 (int m))" | "c \<in> set (appendInt 2 d)"
    | "c \<in> set (appendInt 2 (r div 3600))" | "c \<in> set (appendInt 2 (r div 60 mod 60))" | "c \<in> set (appendInt 2 (r mod 60))"
    unfolding dateTime_def Let_def assms(1) prod.case r_def [symmetric] by auto
  then show ?thesis
    by cases (use appendInt_safe [OF assms(2)] appendInt_safe [OF d] appendInt_safe [OF r(1)] appendInt_safe [OF r(2)] appendInt_safe [OF r(3)]
      appendInt_safe [of "int m"] punctuation_safe in auto)
qed

lemma formatRFC3339_safe:
  assumes "formatRFC3339 offset t = Some x" "c \<in> set x"
  shows "htmlSafe c"
proof -
  define s where "s = t div Second + offset"
  obtain y m d where cv: "civil (s div secondsPerDay) = (y, m, d)" by (metis prod.exhaust)
  from assms(1) cv have y: "0 \<le> y" and x: "x = dateTime (CHR ''T'') s @ fractionText (t mod Second) @ zoneText offset"
    by (auto simp: formatRFC3339_def Let_def s_def [symmetric] split: if_splits)
  have ns: "0 \<le> t mod Second" "t mod Second < Second" by (simp_all add: Second_def)
  have f: "htmlSafe c" if "c \<in> set (fractionText (t mod Second))"
    by (rule fraction_reads [OF ns]) (use that decimal_safe punctuation_safe in auto)
  define h n where "h = \<bar>offset\<bar> div 60 div 60" and "n = \<bar>offset\<bar> div 60 mod 60"
  have hn: "0 \<le> h" "0 \<le> n" by (simp_all add: h_def n_def pos_imp_zdiv_nonneg_iff)
  have z: "htmlSafe c" if "c \<in> set (zoneText offset)"
    using that appendInt_safe [OF hn(1)] appendInt_safe [OF hn(2)] punctuation_safe
    unfolding zoneText_def Let_def h_def [symmetric] n_def [symmetric] by (auto split: if_splits)
  from assms(2) f z dateTime_safe [OF cv y] show ?thesis unfolding x by auto
qed

lemma valueText_time:
  assumes "formatRFC3339 offset t = Some x"
  shows "valueText d (CHR 0x22 # x @ [CHR 0x22]) (JString x)"
proof -
  have "\<forall>c \<in> set x. htmlSafe c" using formatRFC3339_safe [OF assms] by blast
  from safe_string [OF this] valueText_string [of d x] show ?thesis by (simp add: encodeString_def)
qed

section \<open>Objects\<close>

definition memberText :: "string \<times> string \<times> json \<Rightarrow> string \<times> string" where
  "memberText = (\<lambda>(k, s, v). (k, s))"

lemma encodeMembers_reads:
  assumes "ms \<noteq> []" "\<forall>(k, s, v) \<in> set ms. validUTF8 k \<and> valueText d s v"
  shows "scanMembers d (encodeMembers (map memberText ms) @ CHR 0x7D # t) = Some (ms, t)
    \<and> (\<exists>u. encodeMembers (map memberText ms) = CHR 0x22 # u)"
  using assms
proof (induction ms rule: induct_list012)
  case (2 m)
  obtain k s v where m: "m = (k, s, v)" by (metis prod.exhaust)
  have vt: "valueText d s v" "unquoteBody (appendString k) = k" using 2(2) appendString_reads(1) [of k] by (auto simp: m validUTF8_def)
  have "scanMembers d (CHR 0x22 # appendString k @ CHR 0x22 # CHR '':'' # s @ CHR 0x7D # t) = Some ([(unquoteBody (appendString k), s, v)], t)"
    by (rule scanMembers_step(1) [OF appendString_reads(2) valueText_skip [OF vt(1)]]) (use vt(1) in \<open>auto simp: valueText_def\<close>)
  then show ?case by (simp add: m memberText_def encodeString_def vt(2))
next
  case (3 m m' ms)
  obtain k s v where m: "m = (k, s, v)" by (metis prod.exhaust)
  have vt: "valueText d s v" "unquoteBody (appendString k) = k" using 3(4) appendString_reads(1) [of k] by (auto simp: m validUTF8_def)
  let ?rest = "encodeMembers (map memberText (m' # ms)) @ CHR 0x7D # t"
  have enc: "encodeMembers (map memberText (m # m' # ms)) = CHR 0x22 # appendString k @ CHR 0x22 # CHR '':'' # s @ CHR '','' # encodeMembers (map memberText (m' # ms))"
    by (simp add: m memberText_def encodeString_def)
  from 3(2,4) have ih: "scanMembers d ?rest = Some (m' # ms, t)" "\<exists>u. encodeMembers (map memberText (m' # ms)) = CHR 0x22 # u" by simp_all
  then have "skipSpace ?rest = ?rest" by (auto simp: skipSpace_def isJsonSpace_def)
  then have "scanMembers d (CHR 0x22 # appendString k @ CHR 0x22 # CHR '':'' # s @ CHR '','' # ?rest) = Some ((unquoteBody (appendString k), s, v) # m' # ms, t)"
    by (intro scanMembers_step(2) [OF appendString_reads(2) valueText_skip [OF vt(1)]]) (use vt(1) ih(1) in \<open>auto simp: valueText_def\<close>)
  then show ?case unfolding enc by (simp add: m vt(2))
qed simp

lemma encodeObject_reads:
  assumes "ms \<noteq> []" "\<forall>(k, s, v) \<in> set ms. validUTF8 k \<and> valueText 1 s v"
  shows "unmarshalValue (encodeObject (map memberText ms) @ [CHR 0x0A]) = Some (JObject ms)"
proof -
  obtain u where u: "encodeMembers (map memberText ms) = CHR 0x22 # u" using encodeMembers_reads [OF assms] by blast
  have "scanMembers 1 (CHR 0x22 # u @ CHR 0x7D # [CHR 0x0A]) = Some (ms, [CHR 0x0A])"
    using encodeMembers_reads [OF assms, of "[CHR 0x0A]"] by (simp add: u)
  then show ?thesis
    by (simp add: unmarshalValue_def encodeObject_def u scanValue_simps skipSpace_def isJsonSpace_def maxNestingDepth_def)
qed

section \<open>A client\<close>

text \<open>A client decodes the body into a struct of the same type: \<open>json.Unmarshal\<close>, with unknown fields ignored and a time
  read from the text between its quotes.\<close>

definition responseFields :: "string list" where
  "responseFields = [''id'', ''task_type'', ''payload'', ''status'', ''idempotency_key'', ''trace_id'', ''run_at'', ''timeout_seconds'',
     ''max_retries'', ''retry_count'', ''next_retry_at'', ''last_error'', ''worker_id'', ''started_at'', ''finished_at'',
     ''created_at'', ''updated_at'']"

definition storeTime :: "string \<Rightarrow> json \<Rightarrow> Time \<Rightarrow> Time option" where
  "storeTime raw v old = (case v of JString _ \<Rightarrow> Some (readRFC3339 (butlast (tl raw))) | JNull \<Rightarrow> Some old | _ \<Rightarrow> None)"

definition storeTimePtr :: "string \<Rightarrow> json \<Rightarrow> Time option option" where
  "storeTimePtr raw v = (case v of JString _ \<Rightarrow> Some (Some (readRFC3339 (butlast (tl raw)))) | JNull \<Rightarrow> Some None | _ \<Rightarrow> None)"

definition storeResponse :: "string \<Rightarrow> string \<times> string \<times> json \<Rightarrow> taskResponse \<Rightarrow> taskResponse option" where
  "storeResponse field = (\<lambda>(_, raw, v) r.
     if field = ''id'' then map_option (\<lambda>x. r\<lparr>trID := x\<rparr>) (storeString v (trID r))
     else if field = ''task_type'' then map_option (\<lambda>x. r\<lparr>trTaskType := x\<rparr>) (storeString v (trTaskType r))
     else if field = ''payload'' then Some (r\<lparr>trPayload := raw\<rparr>)
     else if field = ''status'' then map_option (\<lambda>x. r\<lparr>trStatus := x\<rparr>) (storeString v (trStatus r))
     else if field = ''idempotency_key'' then map_option (\<lambda>x. r\<lparr>trIdempotencyKey := x\<rparr>) (storeStringPtr v)
     else if field = ''trace_id'' then map_option (\<lambda>x. r\<lparr>trTraceID := x\<rparr>) (storeStringPtr v)
     else if field = ''run_at'' then map_option (\<lambda>x. r\<lparr>trRunAt := x\<rparr>) (storeTime raw v (trRunAt r))
     else if field = ''timeout_seconds'' then map_option (\<lambda>x. r\<lparr>trTimeoutSeconds := x\<rparr>) (storeInt v (trTimeoutSeconds r))
     else if field = ''max_retries'' then map_option (\<lambda>x. r\<lparr>trMaxRetries := x\<rparr>) (storeInt v (trMaxRetries r))
     else if field = ''retry_count'' then map_option (\<lambda>x. r\<lparr>trRetryCount := x\<rparr>) (storeInt v (trRetryCount r))
     else if field = ''next_retry_at'' then map_option (\<lambda>x. r\<lparr>trNextRetryAt := x\<rparr>) (storeTimePtr raw v)
     else if field = ''last_error'' then map_option (\<lambda>x. r\<lparr>trLastError := x\<rparr>) (storeStringPtr v)
     else if field = ''worker_id'' then map_option (\<lambda>x. r\<lparr>trWorkerID := x\<rparr>) (storeStringPtr v)
     else if field = ''started_at'' then map_option (\<lambda>x. r\<lparr>trStartedAt := x\<rparr>) (storeTimePtr raw v)
     else if field = ''finished_at'' then map_option (\<lambda>x. r\<lparr>trFinishedAt := x\<rparr>) (storeTimePtr raw v)
     else if field = ''created_at'' then map_option (\<lambda>x. r\<lparr>trCreatedAt := x\<rparr>) (storeTime raw v (trCreatedAt r))
     else map_option (\<lambda>x. r\<lparr>trUpdatedAt := x\<rparr>) (storeTime raw v (trUpdatedAt r)))"

definition zeroResponse :: taskResponse where
  "zeroResponse = \<lparr>trID = [], trTaskType = [], trPayload = [], trStatus = [], trIdempotencyKey = None, trTraceID = None, trRunAt = 0,
     trTimeoutSeconds = 0, trMaxRetries = 0, trRetryCount = 0, trNextRetryAt = None, trLastError = None, trWorkerID = None,
     trStartedAt = None, trFinishedAt = None, trCreatedAt = 0, trUpdatedAt = 0\<rparr>"

definition decodeTaskResponse :: "string \<Rightarrow> taskResponse option" where
  "decodeTaskResponse body =
     Option.bind (unmarshalValue body) (decodeStruct storeResponse responseFields False zeroResponse)"

text \<open>What the encoding keeps: text in UTF-8, a payload that is valid inside an object, times with a year of four digits in
  a zone of whole minutes, and integers of 64 bits.\<close>

definition responseTexts :: "taskResponse \<Rightarrow> string list" where
  "responseTexts b = [trID b, trTaskType b, trStatus b]
     @ concat (map (\<lambda>x. case x of None \<Rightarrow> [] | Some s \<Rightarrow> [s]) [trIdempotencyKey b, trTraceID b, trLastError b, trWorkerID b])"

definition responseTimes :: "taskResponse \<Rightarrow> Time list" where
  "responseTimes b = [trRunAt b, trCreatedAt b, trUpdatedAt b]
     @ concat (map (\<lambda>x. case x of None \<Rightarrow> [] | Some t \<Rightarrow> [t]) [trNextRetryAt b, trStartedAt b, trFinishedAt b])"

definition encodable :: "(Time \<Rightarrow> int) \<Rightarrow> taskResponse \<Rightarrow> bool" where
  "encodable zone b \<longleftrightarrow>
     list_all validUTF8 (responseTexts b) \<and> validAt 1 (trPayload b)
     \<and> list_all (\<lambda>t. formatRFC3339 (zone t) t \<noteq> None \<and> zone t mod 60 = 0) (responseTimes b)
     \<and> list_all (\<lambda>n. minInt \<le> n \<and> n \<le> maxInt) [trTimeoutSeconds b, trMaxRetries b, trRetryCount b]"

text \<open>The members of the response, as the scanner reads them.\<close>

definition textMember :: "string \<Rightarrow> string \<Rightarrow> string \<times> string \<times> json" where
  "textMember k s = (k, encodeString s, JString s)"

definition intMember :: "string \<Rightarrow> int \<Rightarrow> string \<times> string \<times> json" where
  "intMember k n = (k, FormatInt n, JNumber (FormatInt n))"

definition timeMember :: "(Time \<Rightarrow> int) \<Rightarrow> string \<Rightarrow> Time \<Rightarrow> string \<times> string \<times> json" where
  "timeMember zone k t = (k, the (encodeTime zone t), JString (the (formatRFC3339 (zone t) t)))"

definition optMember :: "(string \<Rightarrow> 'a \<Rightarrow> 'b) \<Rightarrow> string \<Rightarrow> 'a option \<Rightarrow> 'b list" where
  "optMember member k x = (case x of None \<Rightarrow> [] | Some y \<Rightarrow> [member k y])"

definition responseMembers :: "(Time \<Rightarrow> int) \<Rightarrow> taskResponse \<Rightarrow> json \<Rightarrow> (string \<times> string \<times> json) list" where
  "responseMembers zone b v =
     [textMember ''id'' (trID b), textMember ''task_type'' (trTaskType b), (''payload'', compacted (trPayload b), v),
      textMember ''status'' (trStatus b)]
     @ optMember textMember ''idempotency_key'' (trIdempotencyKey b)
     @ optMember textMember ''trace_id'' (trTraceID b)
     @ [timeMember zone ''run_at'' (trRunAt b), intMember ''timeout_seconds'' (trTimeoutSeconds b),
        intMember ''max_retries'' (trMaxRetries b), intMember ''retry_count'' (trRetryCount b)]
     @ optMember (timeMember zone) ''next_retry_at'' (trNextRetryAt b)
     @ optMember textMember ''last_error'' (trLastError b)
     @ optMember textMember ''worker_id'' (trWorkerID b)
     @ optMember (timeMember zone) ''started_at'' (trStartedAt b)
     @ optMember (timeMember zone) ''finished_at'' (trFinishedAt b)
     @ [timeMember zone ''created_at'' (trCreatedAt b), timeMember zone ''updated_at'' (trUpdatedAt b)]"

lemma timeMember_reads:
  assumes "formatRFC3339 (zone t) t \<noteq> None" "zone t mod 60 = 0"
  shows "storeTime (fst (snd (timeMember zone k t))) (snd (snd (timeMember zone k t))) old = Some t"
    "storeTimePtr (fst (snd (timeMember zone k t))) (snd (snd (timeMember zone k t))) = Some (Some t)"
  using assms readRFC3339_format [of "zone t" t]
  by (auto simp: timeMember_def encodeTime_def storeTime_def storeTimePtr_def butlast_append)

lemma member_value:
  "validUTF8 s \<Longrightarrow> valueText d (fst (snd (textMember k s))) (snd (snd (textMember k s)))"
  "valueText d (fst (snd (intMember k n))) (snd (snd (intMember k n)))"
  "formatRFC3339 (zone t) t \<noteq> None \<Longrightarrow> valueText d (fst (snd (timeMember zone k t))) (snd (snd (timeMember zone k t)))"
  using valueText_string [of d s] valueText_int valueText_time [of "zone t" t]
  by (auto simp: textMember_def intMember_def timeMember_def encodeTime_def validUTF8_def)

text \<open>The encoding is the encoding of these members.\<close>

definition fieldText :: "string \<times> string \<times> json \<Rightarrow> string \<times> string option" where
  "fieldText = (\<lambda>(k, s, v). (k, Some s))"

lemma encodeStruct_members: "encodeStruct (map fieldText ms) = Some (encodeObject (map memberText ms))"
  by (auto simp: encodeStruct_def fieldText_def memberText_def comp_def intro!: arg_cong [of _ _ encodeObject])

lemma omitEmpty_member:
  "(\<And>y. x = Some y \<Longrightarrow> fieldText (member k y) = (k, encode y)) \<Longrightarrow> omitEmpty k encode x = map fieldText (optMember member k x)"
  by (auto simp: omitEmpty_def optMember_def split: option.split)

lemma fieldText_member:
  "fieldText (textMember k s) = (k, Some (encodeString s))" "fieldText (intMember k n) = (k, Some (FormatInt n))"
  "formatRFC3339 (zone t) t \<noteq> None \<Longrightarrow> fieldText (timeMember zone k t) = (k, encodeTime zone t)"
  by (auto simp: fieldText_def textMember_def intMember_def timeMember_def encodeTime_def)

lemma encodableD:
  assumes "encodable zone b"
  shows "validUTF8 (trID b)" "validUTF8 (trTaskType b)" "validUTF8 (trStatus b)" "validAt 1 (trPayload b)"
    "x \<in> {trIdempotencyKey b, trTraceID b, trLastError b, trWorkerID b} \<Longrightarrow> x = Some s \<Longrightarrow> validUTF8 s"
    "t \<in> {trRunAt b, trCreatedAt b, trUpdatedAt b} \<Longrightarrow> formatRFC3339 (zone t) t \<noteq> None \<and> zone t mod 60 = 0"
    "y \<in> {trNextRetryAt b, trStartedAt b, trFinishedAt b} \<Longrightarrow> y = Some t \<Longrightarrow> formatRFC3339 (zone t) t \<noteq> None \<and> zone t mod 60 = 0"
    "n \<in> {trTimeoutSeconds b, trMaxRetries b, trRetryCount b} \<Longrightarrow> minInt \<le> n \<and> n \<le> maxInt"
proof -
  have u: "s \<in> set (responseTexts b) \<Longrightarrow> validUTF8 s" for s using assms by (simp add: encodable_def list_all_iff)
  have f: "t \<in> set (responseTimes b) \<Longrightarrow> formatRFC3339 (zone t) t \<noteq> None \<and> zone t mod 60 = 0" for t
    using assms unfolding encodable_def list_all_iff by blast
  show "validUTF8 (trID b)" "validUTF8 (trTaskType b)" "validUTF8 (trStatus b)" by (rule u; simp add: responseTexts_def)+
  show "validAt 1 (trPayload b)" using assms by (simp add: encodable_def)
  show "validUTF8 s" if "x \<in> {trIdempotencyKey b, trTraceID b, trLastError b, trWorkerID b}" "x = Some s"
    by (rule u) (use that in \<open>auto simp: responseTexts_def dest: sym\<close>)
  show "formatRFC3339 (zone t) t \<noteq> None \<and> zone t mod 60 = 0" if "t \<in> {trRunAt b, trCreatedAt b, trUpdatedAt b}"
    by (rule f) (use that in \<open>auto simp: responseTimes_def\<close>)
  show "formatRFC3339 (zone t) t \<noteq> None \<and> zone t mod 60 = 0" if "y \<in> {trNextRetryAt b, trStartedAt b, trFinishedAt b}" "y = Some t"
    by (rule f) (use that in \<open>auto simp: responseTimes_def dest: sym\<close>)
  show "minInt \<le> n \<and> n \<le> maxInt" if "n \<in> {trTimeoutSeconds b, trMaxRetries b, trRetryCount b}"
    using assms that by (auto simp: encodable_def)
qed

lemma encodeTaskResponse_members:
  assumes "encodable zone b"
  shows "encodeTaskResponse zone b = Some (encodeObject (map memberText (responseMembers zone b v)))"
proof -
  note e = encodableD [OF assms]
  have tx: "omitEmpty k (Some \<circ> encodeString) x = map fieldText (optMember textMember k x)" for k x
    by (rule omitEmpty_member) (simp add: fieldText_member)
  have tm: "omitEmpty k (encodeTime zone) x = map fieldText (optMember (timeMember zone) k x)"
    if "x \<in> {trNextRetryAt b, trStartedAt b, trFinishedAt b}" for k x
    by (rule omitEmpty_member) (use e(7) [OF that] in \<open>simp add: fieldText_member\<close>)
  have "appendCompact (trPayload b) = Some (compacted (trPayload b))"
    using validAt_valid [OF e(4)] by (simp add: appendCompact_def)
  then show ?thesis
    unfolding encodeStruct_members [symmetric] encodeTaskResponse_def responseMembers_def
    using e(6) by (simp add: tx tm fieldText_member) (simp add: fieldText_def)
qed

lemma responseMembers_read:
  assumes "encodable zone b" "valueText 1 (compacted (trPayload b)) v"
  shows "\<forall>(k, s, x) \<in> set (responseMembers zone b v). validUTF8 k \<and> valueText 1 s x"
proof -
  note e = encodableD [OF assms(1)]
  have keys: "\<forall>k \<in> set responseFields. validUTF8 k" by code_simp
  have "list_all (\<lambda>m. fst m \<in> set responseFields) (responseMembers zone b v)"
    by (simp add: responseMembers_def responseFields_def textMember_def intMember_def timeMember_def optMember_def split: option.split)
  moreover have tx: "list_all (\<lambda>m. valueText 1 (fst (snd m)) (snd (snd m))) (optMember textMember k x)"
    if "x \<in> {trIdempotencyKey b, trTraceID b, trLastError b, trWorkerID b}" for k x
    using e(5) [OF that] member_value(1) by (simp add: optMember_def split: option.split)
  have tm: "list_all (\<lambda>m. valueText 1 (fst (snd m)) (snd (snd m))) (optMember (timeMember zone) k x)"
    if "x \<in> {trNextRetryAt b, trStartedAt b, trFinishedAt b}" for k x
    using e(7) [OF that] member_value(3) by (simp add: optMember_def split: option.split)
  have "list_all (\<lambda>m. valueText 1 (fst (snd m)) (snd (snd m))) (responseMembers zone b v)"
    unfolding responseMembers_def using e(1-3,6) assms(2) by (simp add: tx tm member_value del: One_nat_def)
  ultimately show ?thesis using keys by (auto simp: list_all_iff)
qed

text \<open>The client stores them one after the other.\<close>

abbreviation storeAll :: "(string \<times> string \<times> json) list \<Rightarrow> taskResponse \<Rightarrow> taskResponse option" where
  "storeAll \<equiv> storeMembers storeResponse responseFields False"

lemma storeAll_one:
  "fst m \<in> set responseFields \<Longrightarrow> storeAll (m # ms) r = (case storeResponse (fst m) m r of None \<Rightarrow> None | Some y \<Rightarrow> storeAll ms y)"
  by (simp add: fieldOf_def)

lemma storeAll_opt:
  assumes "\<And>y. x = Some y \<Longrightarrow> fst (member k y) = k \<and> storeResponse k (member k y) r = Some (upd x)" "k \<in> set responseFields" "upd None = r"
  shows "storeAll (optMember member k x @ ms) r = storeAll ms (upd x)"
  using assms by (cases x) (auto simp: optMember_def fieldOf_def)

lemma textMember_store [simp]:
  "storeResponse ''id'' (textMember k s) r = Some (r\<lparr>trID := s\<rparr>)" "storeResponse ''task_type'' (textMember k s) r = Some (r\<lparr>trTaskType := s\<rparr>)"
  "storeResponse ''status'' (textMember k s) r = Some (r\<lparr>trStatus := s\<rparr>)"
  "storeResponse ''idempotency_key'' (textMember k s) r = Some (r\<lparr>trIdempotencyKey := Some s\<rparr>)"
  "storeResponse ''trace_id'' (textMember k s) r = Some (r\<lparr>trTraceID := Some s\<rparr>)"
  "storeResponse ''last_error'' (textMember k s) r = Some (r\<lparr>trLastError := Some s\<rparr>)"
  "storeResponse ''worker_id'' (textMember k s) r = Some (r\<lparr>trWorkerID := Some s\<rparr>)"
  "storeResponse ''payload'' (k, s, v) r = Some (r\<lparr>trPayload := s\<rparr>)"
  by (simp_all add: storeResponse_def textMember_def storeString_def storeStringPtr_def)

lemma intMember_store:
  assumes "minInt \<le> n \<and> n \<le> maxInt"
  shows "storeResponse ''timeout_seconds'' (intMember k n) r = Some (r\<lparr>trTimeoutSeconds := n\<rparr>)"
    "storeResponse ''max_retries'' (intMember k n) r = Some (r\<lparr>trMaxRetries := n\<rparr>)"
    "storeResponse ''retry_count'' (intMember k n) r = Some (r\<lparr>trRetryCount := n\<rparr>)"
  using assms by (simp_all add: storeResponse_def intMember_def storeInt_def ParseInt_FormatInt)

lemma timeMember_store:
  assumes "formatRFC3339 (zone t) t \<noteq> None \<and> zone t mod 60 = 0"
  shows "storeResponse ''run_at'' (timeMember zone k t) r = Some (r\<lparr>trRunAt := t\<rparr>)"
    "storeResponse ''created_at'' (timeMember zone k t) r = Some (r\<lparr>trCreatedAt := t\<rparr>)"
    "storeResponse ''updated_at'' (timeMember zone k t) r = Some (r\<lparr>trUpdatedAt := t\<rparr>)"
    "storeResponse ''next_retry_at'' (timeMember zone k t) r = Some (r\<lparr>trNextRetryAt := Some t\<rparr>)"
    "storeResponse ''started_at'' (timeMember zone k t) r = Some (r\<lparr>trStartedAt := Some t\<rparr>)"
    "storeResponse ''finished_at'' (timeMember zone k t) r = Some (r\<lparr>trFinishedAt := Some t\<rparr>)"
  using timeMember_reads [of zone t k] assms by (simp_all add: storeResponse_def case_prod_beta)

lemma member_key [simp]: "fst (textMember k s) = k" "fst (intMember k n) = k" "fst (timeMember zone k t) = k"
  by (simp_all add: textMember_def intMember_def timeMember_def)

lemma field_names [simp]:
  "''id'' \<in> set responseFields" "''task_type'' \<in> set responseFields" "''payload'' \<in> set responseFields" "''status'' \<in> set responseFields"
  "''idempotency_key'' \<in> set responseFields" "''trace_id'' \<in> set responseFields" "''run_at'' \<in> set responseFields"
  "''timeout_seconds'' \<in> set responseFields" "''max_retries'' \<in> set responseFields" "''retry_count'' \<in> set responseFields"
  "''next_retry_at'' \<in> set responseFields" "''last_error'' \<in> set responseFields" "''worker_id'' \<in> set responseFields"
  "''started_at'' \<in> set responseFields" "''finished_at'' \<in> set responseFields" "''created_at'' \<in> set responseFields"
  "''updated_at'' \<in> set responseFields"
  by (simp_all add: responseFields_def)

lemma storeAll_text:
  "trIdempotencyKey r = None \<Longrightarrow> storeAll (optMember textMember ''idempotency_key'' x @ ms) r = storeAll ms (r\<lparr>trIdempotencyKey := x\<rparr>)"
  "trTraceID r = None \<Longrightarrow> storeAll (optMember textMember ''trace_id'' x @ ms) r = storeAll ms (r\<lparr>trTraceID := x\<rparr>)"
  "trLastError r = None \<Longrightarrow> storeAll (optMember textMember ''last_error'' x @ ms) r = storeAll ms (r\<lparr>trLastError := x\<rparr>)"
  "trWorkerID r = None \<Longrightarrow> storeAll (optMember textMember ''worker_id'' x @ ms) r = storeAll ms (r\<lparr>trWorkerID := x\<rparr>)"
  by (rule storeAll_opt; simp)+

lemma storeAll_time:
  assumes "\<And>t. x = Some t \<Longrightarrow> formatRFC3339 (zone t) t \<noteq> None \<and> zone t mod 60 = 0"
  shows "trNextRetryAt r = None \<Longrightarrow> storeAll (optMember (timeMember zone) ''next_retry_at'' x @ ms) r = storeAll ms (r\<lparr>trNextRetryAt := x\<rparr>)"
    "trStartedAt r = None \<Longrightarrow> storeAll (optMember (timeMember zone) ''started_at'' x @ ms) r = storeAll ms (r\<lparr>trStartedAt := x\<rparr>)"
    "trFinishedAt r = None \<Longrightarrow> storeAll (optMember (timeMember zone) ''finished_at'' x @ ms) r = storeAll ms (r\<lparr>trFinishedAt := x\<rparr>)"
  by (rule storeAll_opt; simp add: timeMember_store [OF assms])+

lemma storeAll_members:
  assumes "encodable zone b"
  shows "storeAll (responseMembers zone b v) zeroResponse = Some (b\<lparr>trPayload := compacted (trPayload b)\<rparr>)"
proof -
  note e = encodableD [OF assms]
  have m: "formatRFC3339 (zone t) t \<noteq> None \<and> zone t mod 60 = 0" if "t = trRunAt b \<or> t = trCreatedAt b \<or> t = trUpdatedAt b" for t
    by (rule e(6)) (use that in simp)
  have n: "minInt \<le> n \<and> n \<le> maxInt" if "n = trTimeoutSeconds b \<or> n = trMaxRetries b \<or> n = trRetryCount b" for n
    by (rule e(8)) (use that in simp)
  have x: "formatRFC3339 (zone t) t \<noteq> None \<and> zone t mod 60 = 0"
    if "trNextRetryAt b = Some t \<or> trStartedAt b = Some t \<or> trFinishedAt b = Some t" for t
    using that e(7) [of "Some t" t] by (auto simp del: not_None_eq)
  have tm: "trNextRetryAt r = None \<Longrightarrow> storeAll (optMember (timeMember zone) ''next_retry_at'' (trNextRetryAt b) @ ms) r = storeAll ms (r\<lparr>trNextRetryAt := trNextRetryAt b\<rparr>)"
    "trStartedAt r = None \<Longrightarrow> storeAll (optMember (timeMember zone) ''started_at'' (trStartedAt b) @ ms) r = storeAll ms (r\<lparr>trStartedAt := trStartedAt b\<rparr>)"
    "trFinishedAt r = None \<Longrightarrow> storeAll (optMember (timeMember zone) ''finished_at'' (trFinishedAt b) @ ms) r = storeAll ms (r\<lparr>trFinishedAt := trFinishedAt b\<rparr>)" for r ms
    by (rule storeAll_time; use x in blast)+
  show ?thesis
    unfolding responseMembers_def zeroResponse_def append.simps
    by (simp add: storeAll_one storeAll_text tm timeMember_store m intMember_store n del: storeMembers.simps(2))
qed

lemma responseBody_members:
  assumes "encodable zone b"
  obtains v where "unmarshalValue (responseBody zone (writeJSON status (TaskBody b))) = Some (JObject (responseMembers zone b v))"
proof -
  obtain v where v: "valueText 1 (compacted (trPayload b)) v" using valueText_payload [OF encodableD(4) [OF assms]] by blast
  have "responseBody zone (writeJSON status (TaskBody b)) = encodeObject (map memberText (responseMembers zone b v)) @ [CHR 0x0A]"
    by (simp add: responseBody_def writeJSON_def encodeTaskResponse_members [OF assms, of v])
  moreover have "responseMembers zone b v \<noteq> []" by (simp add: responseMembers_def)
  ultimately show thesis using encodeObject_reads [OF _ responseMembers_read [OF assms v]] that by metis
qed

text \<open>C22. The response of a task reads back. A client that decodes the body into the response type gets every field of the
  task: the text fields and the identifiers as they were, HTML characters and quotes included, the three numbers, the instant of every
  time to the nanosecond in whatever zone it was written, and exactly the optional fields that are set. The payload arrives without
  the space between its tokens and denotes the same value. The text must be UTF-8, the payload must stay within the
  limit on nesting one level deeper, the years must have four digits and the zone offset must be whole minutes.\<close>

theorem task_response_reads_back:
  assumes "encodable zone (toTaskResponse t)"
  shows "decodeTaskResponse (responseBody zone (writeJSON status (TaskBody (toTaskResponse t))))
      = Some \<lparr>trID = ID t, trTaskType = Type t, trPayload = compacted (Payload t), trStatus = Status t,
          trIdempotencyKey = IdempotencyKey t, trTraceID = TraceID t, trRunAt = RunAt t, trTimeoutSeconds = TimeoutSeconds t,
          trMaxRetries = MaxRetries t, trRetryCount = RetryCount t, trNextRetryAt = NextRetryAt t, trLastError = LastError t,
          trWorkerID = WorkerID t, trStartedAt = StartedAt t, trFinishedAt = FinishedAt t, trCreatedAt = CreatedAt t,
          trUpdatedAt = UpdatedAt t\<rparr>
    \<and> (\<exists>v. unmarshalValue (Payload t) = Some v \<and> unmarshalValue (compacted (Payload t)) = Some (compactValue v))"
proof
  have p: "trPayload (toTaskResponse t) = Payload t" by (simp add: toTaskResponse_def)
  obtain v where "unmarshalValue (responseBody zone (writeJSON status (TaskBody (toTaskResponse t)))) = Some (JObject (responseMembers zone (toTaskResponse t) v))"
    by (rule responseBody_members [OF assms])
  then show "decodeTaskResponse (responseBody zone (writeJSON status (TaskBody (toTaskResponse t))))
      = Some \<lparr>trID = ID t, trTaskType = Type t, trPayload = compacted (Payload t), trStatus = Status t,
          trIdempotencyKey = IdempotencyKey t, trTraceID = TraceID t, trRunAt = RunAt t, trTimeoutSeconds = TimeoutSeconds t,
          trMaxRetries = MaxRetries t, trRetryCount = RetryCount t, trNextRetryAt = NextRetryAt t, trLastError = LastError t,
          trWorkerID = WorkerID t, trStartedAt = StartedAt t, trFinishedAt = FinishedAt t, trCreatedAt = CreatedAt t,
          trUpdatedAt = UpdatedAt t\<rparr>"
    using storeAll_members [OF assms] by (simp add: decodeTaskResponse_def decodeStruct_def p) (simp add: toTaskResponse_def)
  have "jsonValid (Payload t)" using validAt_valid [OF encodableD(4) [OF assms]] by (simp add: p)
  then show "\<exists>v. unmarshalValue (Payload t) = Some v \<and> unmarshalValue (compacted (Payload t)) = Some (compactValue v)"
    using compacted_value by metis
qed

definition sampleFailed :: Task where
  "sampleFailed = (scanTask (sampleRow ''a'' StatusRetrying))
     \<lparr>Payload := [CHR 0x7B, CHR 0x20, CHR 0x22, CHR ''x'', CHR 0x22, CHR 0x20, CHR '':'', CHR ''1'', CHR 0x7D],
      LastError := Some [CHR ''<'', CHR 0x22, CHR 0x0A, CHR 0xC3, CHR 0xA9],
      NextRetryAt := Some ((unixEpochSeconds + 1700000000) * Second + 50)\<rparr>"

lemma sampleFailed_encodable: "encodable (\<lambda>_. 28800) (toTaskResponse sampleFailed)"
  by code_simp

theorem task_response_reads_back_witness:
  "decodeTaskResponse (responseBody (\<lambda>_. 28800) (writeJSON 200 (TaskBody (toTaskResponse sampleFailed))))
     = Some \<lparr>trID = ''a'', trTaskType = ''demo.echo'',
          trPayload = [CHR 0x7B, CHR 0x22, CHR ''x'', CHR 0x22, CHR '':'', CHR ''1'', CHR 0x7D], trStatus = StatusRetrying,
          trIdempotencyKey = None, trTraceID = Some ''t1'', trRunAt = 100, trTimeoutSeconds = 300,
          trMaxRetries = 3, trRetryCount = 1, trNextRetryAt = Some ((unixEpochSeconds + 1700000000) * Second + 50),
          trLastError = Some [CHR ''<'', CHR 0x22, CHR 0x0A, CHR 0xC3, CHR 0xA9],
          trWorkerID = Some ''w'', trStartedAt = Some 200, trFinishedAt = None, trCreatedAt = 100,
          trUpdatedAt = 300\<rparr>"
proof -
  have "compacted (Payload sampleFailed) = [CHR 0x7B, CHR 0x22, CHR ''x'', CHR 0x22, CHR '':'', CHR ''1'', CHR 0x7D]" by code_simp
  with task_response_reads_back [OF sampleFailed_encodable, of 200] show ?thesis
    by (simp add: sampleFailed_def scanTask_def sampleRow_def)
qed

text \<open>The response of an error is one member with the message, its invalid bytes replaced.\<close>

lemma error_response_reads_back:
  "unmarshalValue (responseBody zone (writeError status m)) = Some (JObject [(''error'', encodeString m, JString (toValidUTF8 m))])"
proof -
  have "responseBody zone (writeError status m) = encodeObject (map memberText [(''error'', encodeString m, JString (toValidUTF8 m))]) @ [CHR 0x0A]"
    by (simp add: responseBody_def writeError_def writeJSON_def encodeErrorResponse_def encodeStruct_def memberText_def)
  moreover have "validUTF8 ''error''" by code_simp
  ultimately show ?thesis using encodeObject_reads [of "[(''error'', encodeString m, JString (toValidUTF8 m))]"] valueText_string by simp
qed

text \<open>A run time in the last hours of the year 9999 is accepted in UTC but has a year of five digits in a zone east of it:
  the encoding fails after the status was written, and the body is empty.\<close>

lemma five_digit_year_empty_body:
  "responseBody (\<lambda>_. 28800) (writeJSON status (TaskBody (b\<lparr>trRunAt := (daysBeforeYear 10000 * secondsPerDay - 1) * Second\<rparr>))) = []"
proof -
  have "encodeTime (\<lambda>_. 28800) ((daysBeforeYear 10000 * secondsPerDay - 1) * Second) = None" by code_simp
  then have "None \<in> snd ` {(''run_at'', encodeTime (\<lambda>_. 28800) ((daysBeforeYear 10000 * secondsPerDay - 1) * Second))}" by simp
  then show ?thesis by (simp add: responseBody_def writeJSON_def encodeTaskResponse_def encodeStruct_def)
qed

end
