(* ===== verification/Spec2Isabelle.thy ===== *)
theory Spec2Isabelle
  imports App Delayed System EndToEnd Responses
begin

text \<open>
  \<^bold>\<open>GoTaskQueue\<close>, a task queue in Go with Postgres as the store of record and Redis as the transport.

  \<^bold>\<open>The program.\<close> A client posts a task to the HTTP server (\<open>internal/httpserver\<close>). The task service
  (\<open>internal/task/service.go\<close>) stores it through the task store (\<open>internal/task/store.go\<close>) as a row of
  the table \<open>tasks\<close> and hands it over: a task that is due goes to a Redis stream, a delayed one to a sorted set
  (\<open>internal/queue\<close>). Workers (\<open>internal/worker\<close>) read the stream in a consumer group, claim a task by a
  conditional update, run the handler of its type, record the outcome and acknowledge the message. The scheduler
  (\<open>internal/scheduler\<close>) ticks: it fails tasks that ran too long, dispatches delayed tasks that are due, and
  dispatches due retries. \<open>internal/app\<close> connects, assembles, runs and stops all of this.

  \<^bold>\<open>The world.\<close> All operations pass an explicit state, the record \<open>world\<close> of theory \<open>World\<close>: the table,
  the state of Redis (of any type \<open>'r\<close>), the commands sent to Redis, the HTTP requests sent, the metrics, and
  counters of statements, clock readings and random reads. Its field \<open>wEnv\<close> answers everything the program does not
  control: for each statement the changes other sessions made before it (\<open>pgOthers\<close>) and during it
  (\<open>pgLate\<close>), the database clock and whether the connection fails before or after the statement takes effect
  (\<open>pgFault\<close>); the wall clock, random bytes, the state of the context; URL parsing, the parsing of times, the text of
  JSON errors, Unicode upper case, Go's quoting, the order of map iteration, the default HTTP client. The Redis client is a record of
  functions given to each queue object. \<open>sound w\<close> (theory \<open>StoreProps\<close>) says that the table satisfies its
  invariant and the other sessions take specified steps only; \<open>quiet\<close> and \<open>alone\<close> describe sessions without
  interference and faults. Errors are values of \<open>goerror\<close>, integers of type \<open>int\<close> are wrapped to 64 bits
  wherever the source computes with them, and floating-point counters are IEEE double values.

  \<^bold>\<open>Theories and sources.\<close>
  \<^item> \<open>Prelude\<close>: keyed lists, ordered selection with a limit, the collections \<open>frame_simps\<close> and \<open>status_simps\<close>.
  \<^item> \<open>GoStd\<close>: what is used of Go's standard library: 64-bit arithmetic, times and durations, decimal and
    hexadecimal text, \<open>TrimSpace\<close>, \<open>ToUpper\<close>, \<open>Duration.String\<close>, errors with \<open>errors.Is\<close>, float64.
  \<^item> \<open>Json\<close>: what is used of \<open>encoding/json\<close>: the accepted syntax with its nesting limit, the decoding of
    strings, the text a \<open>RawMessage\<close> keeps, storing into structs with case-insensitive field names. Scanning a value
    depends on its own text only (\<open>scan_local\<close>).
  \<^item> \<open>Status\<close>, \<open>Retry\<close>: \<open>internal/task/status.go\<close>, \<open>retry.go\<close>. The life cycle; the retry
    decision and the backoff.
  \<^item> \<open>Schema\<close>: \<open>task.go\<close> and \<open>migrations/\<close>, the row, its constraints, scanning.
  \<^item> \<open>TableSpec\<close>: the abstract specification, the steps a row and the table may take, the invariant
    \<open>db_inv\<close>, and what no sequence of steps can do.
  \<^item> \<open>Store\<close>, \<open>StoreProps\<close>, \<open>Samples\<close>: \<open>store.go\<close>, one function per method and per SQL statement. Every
    method refines the specification; compare-and-set, exclusive claims, idempotent creation, ordered listings.
  \<^item> \<open>Queue\<close>: the four Redis types of \<open>internal/queue\<close>. Round trip of messages, batches.
    \<open>Delayed\<close>: the sorted set under the documented laws of Redis, with an instance of them; a delayed task is
    dispatched exactly once by the scan after its run time. Scores are integers: the seconds of a run time, which a double holds
    exactly.
  \<^item> \<open>Interfaces\<close>: the Go interfaces as records, and the contracts the components rely on as locales, interpreted
    on the store and the Redis types.
  \<^item> \<open>Service\<close>: \<open>service.go\<close>. Hand-over exactly once, idempotent resubmission, what a failed publication leaves.
  \<^item> \<open>Handlers\<close>: \<open>handler.go\<close>, \<open>errors.go\<close>, \<open>demo_echo.go\<close>, \<open>webhook_deliver.go\<close>.
  \<^item> \<open>Worker\<close>: \<open>worker.go\<close> from \<open>handleMessage\<close> down. Acknowledgement only for settled tasks, the recorded
    outcome on every branch. \<open>WorkerPool\<close>: \<open>Run\<close> with its semaphore, wait group and goroutines as a state
    machine over events; its invariant, order of messages, absence of deadlock.
  \<^item> \<open>Scheduler\<close>: \<open>scheduler.go\<close>. Refinement of the table specification, dispatch of due retries, and the tasks it
    never picks up. \<open>Lifecycle\<close>: a worker and a scheduler taking turns in any order; a task whose handler keeps failing
    uses up its retries and dies.
  \<^item> \<open>Metrics\<close>, \<open>MetricsExport\<close>: \<open>metrics.go\<close>. \<open>Config\<close>: \<open>config.go\<close>.
  \<^item> \<open>HttpTasks\<close>, \<open>Dashboard\<close>, \<open>Server\<close>: \<open>internal/httpserver\<close>. Validation, endpoints, views, the
    routes under the rules of \<open>ServeMux\<close>, listening and stopping; only \<open>POST /tasks\<close> writes.
  \<^item> \<open>Templates\<close>: the two files of \<open>internal/httpserver/templates\<close>, text and actions in their order, over
    \<open>Html\<close> (the escaping of \<open>html/template\<close>), \<open>Calendar\<close> (the layout of dates) and \<open>JsonText\<close>
    (\<open>json.Indent\<close>). Data never becomes markup, and what a page shows can be read back.
  \<^item> \<open>JsonEncode\<close>, \<open>JsonCompact\<close>, \<open>CompactValue\<close>: how \<open>encoding/json\<close> writes strings and
    compacts a \<open>RawMessage\<close>, with the escaping of HTML characters and line separators; what is written is scanned to the
    same value. \<open>Responses\<close>: the bytes of the two response types of \<open>tasks.go\<close>; a client that decodes them gets
    the task back.
  \<^item> \<open>Dependencies\<close>: \<open>internal/dependencies\<close>, the connection string and the opening and closing of the clients.
  \<^item> \<open>App\<close>: \<open>internal/app\<close>. Assembly of exactly the components the other
    theories are about (\<open>appAssemble_eq\<close>), orderly start and stop; the main program of \<open>cmd/gotaskqueue\<close>.
  \<^item> \<open>System\<close>: any number of processes sending their statements in any order, with lost replies and crashes, as a
    step relation; the number of claims of a task is its retry count plus one for a started attempt. The
    writing calls of the store implement a separate specification of actions on tasks (\<open>task_step\<close>), and every step of the
    system is such an action (\<open>sys_step_action\<close>).
  \<^item> \<open>EndToEnd\<close>: server, service, stream, worker and store put together; a posted task that is due is delivered,
    executed and returned by \<open>GET\<close> as completed.

  \<^bold>\<open>Loops.\<close> Loops over slices are structural recursion, \<open>Scheduler.Run\<close> and \<open>Worker.Run\<close> are driven by the
  sequence of events that occur (\<open>loop_event\<close>, \<open>pool_event\<close>), so that no fuel is needed; that the worker loop can
  always go on is a theorem.

  \<^bold>\<open>Not modelled.\<close> Logging, what happens on a connection below the request and its response, the
  formatting of floating-point numbers. A JSON response is a value in the handlers; its bytes are a function of it.
\<close>

end
